(* ===== verification/Prelude.thy ===== *)
theory Prelude
  imports Main "HOL-Library.Word" "HOL-Library.Monad_Syntax"
begin

text \<open>
  What every component shares: the machine types of the Rust code, the result type of an
  entry point (a value, a returned error or a panic), the checked arithmetic of a build
  with \<open>overflow-checks = true\<close> (Cargo.toml), the loops \<open>for i in a..b\<close>, indexing of a
  \<open>Vec\<close>, and the fixed-length byte arrays \<open>[u8; N]\<close> / \<open>BytesN<N>\<close>.
\<close>

unbundle bit_operations_syntax

subsection \<open>Machine types\<close>

type_synonym u8 = "8 word"
type_synonym u32 = "32 word"
type_synonym u64 = "64 word"
type_synonym u128 = "128 word"
type_synonym i128 = "128 word" \<comment> \<open>read with \<^term>\<open>sint\<close>\<close>

named_theorems res_simps \<open>equations that run a result-valued computation\<close>
named_theorems u32_simps \<open>equations that read 32-bit arithmetic as natural numbers\<close>

subsection \<open>Results and panics\<close>

text \<open>
  A Rust \<open>Result<T, E>\<close> of an entry point is a value \<open>Inr x\<close>, a returned error
  \<open>Inl (Err e)\<close>, or the panic \<open>Inl Panic\<close> of an \<open>unwrap\<close> on \<open>None\<close>, an overflow, an
  index out of bounds or a failing host function. The state is part of the value, so an
  error and a panic both drop the changes made so far, as the host does.
\<close>

datatype 'e failure = Err 'e | Panic

type_synonym ('e, 'a) result = "'e failure + 'a"

definition and_then :: "('e, 'a) result \<Rightarrow> ('a \<Rightarrow> ('e, 'b) result) \<Rightarrow> ('e, 'b) result" where
  "and_then r f = (case r of Inl e \<Rightarrow> Inl e | Inr x \<Rightarrow> f x)"

lemma and_then_simps [simp, res_simps]:
  "and_then (Inr x) f = f x"
  "and_then (Inl e) f = Inl e"
  by (simp_all add: and_then_def)

lemma and_then_eq_Inr:
  "and_then r f = Inr y \<longleftrightarrow> (\<exists>x. r = Inr x \<and> f x = Inr y)"
  by (cases r) auto

lemma and_then_eq_Inl:
  "and_then r f = Inl e \<longleftrightarrow> r = Inl e \<or> (\<exists>x. r = Inr x \<and> f x = Inl e)"
  by (cases r) auto

lemma and_then_InrE:
  assumes "and_then r f = Inr y"
  obtains x where "r = Inr x" and "f x = Inr y"
  using assms by (auto simp: and_then_eq_Inr)

lemma and_then_cong [fundef_cong]:
  "r = r' \<Longrightarrow> (\<And>x. r' = Inr x \<Longrightarrow> f x = f' x) \<Longrightarrow> and_then r f = and_then r' f'"
  by (cases r') auto

definition unwrap :: "'a option \<Rightarrow> ('e, 'a) result" where
  "unwrap v = (case v of None \<Rightarrow> Inl Panic | Some x \<Rightarrow> Inr x)"

lemma unwrap_simps [simp, res_simps]:
  "unwrap None = Inl Panic" "unwrap (Some x) = Inr x"
  by (simp_all add: unwrap_def)

definition ok_or :: "'e \<Rightarrow> 'a option \<Rightarrow> ('e, 'a) result" where
  "ok_or e v = (case v of None \<Rightarrow> Inl (Err e) | Some x \<Rightarrow> Inr x)"

lemma ok_or_simps [simp, res_simps]:
  "ok_or e None = Inl (Err e)" "ok_or e (Some x) = Inr x"
  by (simp_all add: ok_or_def)

text \<open>A function that returns no error of its own, but may panic.\<close>

type_synonym 'a run = "(unit, 'a) result"

text \<open>Indexing a \<open>Vec\<close>, which panics out of bounds.\<close>

definition vec_index :: "'a list \<Rightarrow> nat \<Rightarrow> ('e, 'a) result" where
  "vec_index xs i = (if i < length xs then Inr (xs ! i) else Inl Panic)"

lemma vec_index_ok [simp, res_simps]: "i < length xs \<Longrightarrow> vec_index xs i = Inr (xs ! i)"
  by (simp add: vec_index_def)

text \<open>\<open>xs[i] = v\<close>, which panics out of bounds.\<close>

definition vec_set :: "'a list \<Rightarrow> nat \<Rightarrow> 'a \<Rightarrow> ('e, 'a list) result" where
  "vec_set xs i v = (if i < length xs then Inr (xs[i := v]) else Inl Panic)"

lemma vec_set_ok [simp, res_simps]: "i < length xs \<Longrightarrow> vec_set xs i v = Inr (xs[i := v])"
  by (simp add: vec_set_def)

text \<open>\<open>slice.get(i)\<close>, which returns an option instead.\<close>

definition vec_get :: "'a list \<Rightarrow> nat \<Rightarrow> 'a option" where
  "vec_get xs i = (if i < length xs then Some (xs ! i) else None)"

text \<open>\<open>iter().position(..)\<close>: the index of the first element equal to the one sought.\<close>

fun vec_position :: "'a list \<Rightarrow> 'a \<Rightarrow> nat option" where
  "vec_position [] x = None"
| "vec_position (y # ys) x = (if y = x then Some 0 else map_option Suc (vec_position ys x))"

lemma vec_position_None: "vec_position xs x = None \<longleftrightarrow> x \<notin> set xs"
  by (induction xs) auto

lemma vec_position_Some:
  "vec_position xs x = Some i \<longleftrightarrow> i < length xs \<and> xs ! i = x \<and> (\<forall>j<i. xs ! j \<noteq> x)"
proof (induction xs arbitrary: i)
  case Nil
  show ?case by simp
next
  case (Cons y ys)
  show ?case
  proof (cases i)
    case 0
    then show ?thesis by auto
  next
    case (Suc k)
    then show ?thesis using Cons.IH [of k] by (auto simp: All_less_Suc2)
  qed
qed

lemma vec_position_distinct:
  "distinct xs \<Longrightarrow> i < length xs \<Longrightarrow> vec_position xs (xs ! i) = Some i"
  by (auto simp: vec_position_Some nth_eq_iff_index_eq)

subsection \<open>Refinement of results\<close>

text \<open>Two runs agree: both fail in the same way, or both return related states.\<close>

fun res_rel :: "('a \<Rightarrow> 'b \<Rightarrow> bool) \<Rightarrow> ('e, 'a) result \<Rightarrow> ('e, 'b) result \<Rightarrow> bool" where
  "res_rel R (Inr x) (Inr y) \<longleftrightarrow> R x y"
| "res_rel R (Inl f) (Inl g) \<longleftrightarrow> f = g"
| "res_rel R _ _ \<longleftrightarrow> False"

lemma res_rel_InrD: "res_rel R (Inr x) s \<Longrightarrow> \<exists>y. s = Inr y \<and> R x y"
  by (cases s) auto

lemma res_rel_InlD: "res_rel R (Inl f) s \<Longrightarrow> s = Inl f"
  by (cases s) auto

lemma res_rel_Inr_abs: "res_rel R r (Inr y) \<Longrightarrow> \<exists>x. r = Inr x \<and> R x y"
  by (cases r) auto

lemma res_rel_Inl_abs: "res_rel R r (Inl f) \<Longrightarrow> r = Inl f"
  by (cases r) auto

lemma res_rel_mono: "res_rel R r s \<Longrightarrow> (\<And>x y. R x y \<Longrightarrow> R' x y) \<Longrightarrow> res_rel R' r s"
  by (cases r; cases s) auto

text \<open>The state a successful run returns.\<close>

definition state_after :: "'a \<Rightarrow> ('e, 'a) result \<Rightarrow> 'a" where
  "state_after d r = (case r of Inr x \<Rightarrow> x | Inl _ \<Rightarrow> d)"

lemma state_after_Inr: "res_rel R r (Inr y) \<Longrightarrow> r = Inr (state_after d r) \<and> R (state_after d r) y"
  by (cases r) (auto simp: state_after_def)

subsection \<open>Checked arithmetic\<close>

definition checked_add :: "'n::len word \<Rightarrow> 'n word \<Rightarrow> ('e, 'n word) result" where
  "checked_add a b = (if unat a + unat b < 2 ^ LENGTH('n) then Inr (a + b) else Inl Panic)"

definition checked_sub :: "'n::len word \<Rightarrow> 'n word \<Rightarrow> ('e, 'n word) result" where
  "checked_sub a b = (if unat b \<le> unat a then Inr (a - b) else Inl Panic)"

definition checked_rem :: "'n::len word \<Rightarrow> 'n word \<Rightarrow> ('e, 'n word) result" where
  "checked_rem a b = (if b = 0 then Inl Panic else Inr (a mod b))"

definition checked_sub_i128 :: "i128 \<Rightarrow> i128 \<Rightarrow> ('e, i128) result" where
  "checked_sub_i128 a b =
     (if - (2 ^ 127) \<le> sint a - sint b \<and> sint a - sint b < 2 ^ 127
      then Inr (a - b) else Inl Panic)"

text \<open>\<open>1u32.checked_shl(d)\<close>: \<open>None\<close> when the shift amount reaches the width.\<close>

definition checked_shl_u32 :: "u32 \<Rightarrow> u32 \<Rightarrow> u32 option" where
  "checked_shl_u32 a d = (if unat d < 32 then Some (push_bit (unat d) a) else None)"

lemma unat_less_2p32 [simp]: "unat (x :: u32) < 4294967296"
  using unsigned_less [of x] by simp

lemma unat_add_one [u32_simps]: "unat (a :: u32) < 4294967295 \<Longrightarrow> unat (a + 1) = Suc (unat a)"
  by (simp add: unat_word_ariths)

lemma checked_add_one [u32_simps]:
  "unat (a :: u32) < 4294967295 \<Longrightarrow> checked_add a 1 = Inr (a + 1)"
  by (simp add: checked_add_def)

lemma u32_less_max: "unat (a :: u32) < unat (b :: u32) \<Longrightarrow> unat a < 4294967295"
proof -
  assume "unat a < unat b"
  moreover have "unat b < 4294967296" by (rule unat_less_2p32)
  ultimately show ?thesis by linarith
qed

lemma unat_pred [u32_simps]:
  assumes "(a :: u32) \<noteq> 0"
  shows "unat (a - 1) = unat a - 1" and "0 < unat a"
proof -
  show "0 < unat a" using assms by (simp add: unat_eq_zero [symmetric] neq0_conv [symmetric] del: neq0_conv)
  then have "1 \<le> a" by (simp add: word_le_nat_alt)
  then show "unat (a - 1) = unat a - 1" by (simp add: unat_sub)
qed

lemma checked_sub_one [u32_simps]: "(a :: u32) \<noteq> 0 \<Longrightarrow> checked_sub a 1 = Inr (a - 1)"
  using unat_pred(2) [of a] by (simp add: checked_sub_def)

lemma unat_of_nat_u32 [u32_simps]: "n < 2 ^ 32 \<Longrightarrow> unat (word_of_nat n :: u32) = n"
  by (simp add: unat_of_nat)

lemma unat_div2 [u32_simps]: "unat ((a :: u32) div 2) = unat a div 2"
  by (simp add: unat_div)

lemma u32_mod2 [u32_simps]: "(a :: u32) mod 2 = 0 \<longleftrightarrow> even (unat a)"
proof -
  have "unat (a mod 2) = unat a mod 2" by (simp add: unat_mod)
  then show ?thesis by (metis even_iff_mod_2_eq_zero unat_eq_zero)
qed

lemma u32_even_succ: "even (unat (a :: u32)) \<Longrightarrow> unat a < 4294967295"
proof -
  assume even: "even (unat a)"
  have "unat a < 4294967296" by (rule unat_less_2p32)
  moreover have "unat a \<noteq> 4294967295" using even by (metis even_numeral odd_numeral)
  ultimately show ?thesis by linarith
qed

lemma sint_sub_i128:
  "checked_sub_i128 a b = Inr c \<Longrightarrow> sint c = sint a - sint b"
  by (auto simp: checked_sub_i128_def sint_word_ariths signed_take_bit_int_eq_self split: if_splits)

subsection \<open>Loops over a range\<close>

definition u32_range :: "u32 \<Rightarrow> u32 \<Rightarrow> u32 list" where
  "u32_range a b = map word_of_nat [unat a..<unat b]"

lemma u32_range_empty [simp]: "unat b \<le> unat a \<Longrightarrow> u32_range a b = []"
  by (simp add: u32_range_def)

lemma u32_range_step:
  assumes "unat a < unat b"
  shows "u32_range a b = a # u32_range (a + 1) b"
proof -
  have "unat a < 4294967295" using assms by (rule u32_less_max)
  then have "unat (a + 1) = Suc (unat a)" by (rule unat_add_one)
  with assms show ?thesis by (simp add: u32_range_def upt_conv_Cons)
qed

lemma set_u32_range: "set (u32_range a b) = {x. unat a \<le> unat x \<and> unat x < unat b}"
proof -
  have "x \<in> set (u32_range a b)" if "unat a \<le> unat x" "unat x < unat b" for x
  proof -
    have "x = word_of_nat (unat x)" by simp
    with that show ?thesis unfolding u32_range_def by (metis atLeastLessThan_iff image_eqI set_map set_upt)
  qed
  moreover have "unat a \<le> unat x \<and> unat x < unat b" if "x \<in> set (u32_range a b)" for x
  proof -
    from that obtain n where n: "x = word_of_nat n" "unat a \<le> n" "n < unat b"
      by (auto simp: u32_range_def)
    have "unat b < 4294967296" by (rule unat_less_2p32)
    with n(3) have "n < 4294967296" by linarith
    with n show ?thesis by (simp add: unat_of_nat)
  qed
  ultimately show ?thesis by auto
qed

end
