(* ===== verification/Bytes.thy ===== *)
theory Bytes
  imports Prelude
begin

text \<open>
  The fixed-length byte arrays of the program, \<open>[u8; N]\<close> and Soroban's \<open>BytesN<N>\<close>, as one
  type \<open>'n bytesN\<close> of byte lists of length \<open>N\<close>, with the big- and little-endian readings
  as natural numbers that the field conversions use.
\<close>

subsection \<open>Numbers as byte lists\<close>

fun le_val :: "u8 list \<Rightarrow> nat" where
  "le_val [] = 0"
| "le_val (b # bs) = unat b + 256 * le_val bs"

definition be_val :: "u8 list \<Rightarrow> nat" where
  "be_val bs = le_val (rev bs)"

text \<open>\<open>to_le_bytes\<close> / \<open>to_be_bytes\<close> of an integer of \<open>k\<close> bytes.\<close>

primrec to_le_bytes :: "nat \<Rightarrow> nat \<Rightarrow> u8 list" where
  "to_le_bytes 0 n = []"
| "to_le_bytes (Suc k) n = word_of_nat (n mod 256) # to_le_bytes k (n div 256)"

definition to_be_bytes :: "nat \<Rightarrow> nat \<Rightarrow> u8 list" where
  "to_be_bytes k n = rev (to_le_bytes k n)"

lemma length_to_le_bytes [simp]: "length (to_le_bytes k n) = k"
  by (induction k arbitrary: n) auto

lemma nth_to_le_bytes: "j < k \<Longrightarrow> to_le_bytes k n ! j = word_of_nat (n div 256 ^ j mod 256)"
proof (induction k arbitrary: n j)
  case 0
  then show ?case by simp
next
  case (Suc k)
  then show ?case by (cases j) (simp_all add: div_mult2_eq)
qed

lemma length_to_be_bytes [simp]: "length (to_be_bytes k n) = k"
  by (simp add: to_be_bytes_def)

lemma nth_to_be_bytes: "j < k \<Longrightarrow> to_be_bytes k n ! j = word_of_nat (n div 256 ^ (k - Suc j) mod 256)"
  by (simp add: to_be_bytes_def rev_nth nth_to_le_bytes)

lemma unat_byte_less: "unat (b :: u8) < 256"
  using unsigned_less [of b] by simp

lemma unat_byte: "unat (word_of_nat (n mod 256) :: u8) = n mod 256"
  by (simp add: unat_of_nat)

lemma le_val_to_le_bytes: "le_val (to_le_bytes k n) = n mod 256 ^ k"
proof (induction k arbitrary: n)
  case 0
  show ?case by simp
next
  case (Suc k)
  have "n mod 256 ^ Suc k = 256 * (n div 256 mod 256 ^ k) + n mod 256"
    by (simp add: mod_mult2_eq)
  then show ?case by (simp add: Suc.IH unat_byte)
qed

lemma be_val_to_be_bytes: "be_val (to_be_bytes k n) = n mod 256 ^ k"
  by (simp add: be_val_def to_be_bytes_def le_val_to_le_bytes)

lemma le_val_less: "le_val bs < 256 ^ length bs"
proof (induction bs)
  case Nil
  show ?case by simp
next
  case (Cons b bs)
  have "unat b < 256" by (rule unat_byte_less)
  with Cons.IH show ?case by simp
qed

lemma to_le_bytes_le_val: "to_le_bytes (length bs) (le_val bs) = bs"
proof (induction bs)
  case Nil
  show ?case by simp
next
  case (Cons b bs)
  have "unat b < 256" by (rule unat_byte_less)
  with Cons.IH show ?case by simp
qed

lemma le_val_inject:
  "length xs = length ys \<Longrightarrow> le_val xs = le_val ys \<Longrightarrow> xs = ys"
  by (metis to_le_bytes_le_val)

lemma be_val_less: "be_val bs < 256 ^ length bs"
  using le_val_less [of "rev bs"] by (simp add: be_val_def)

lemma be_val_inject:
  "length xs = length ys \<Longrightarrow> be_val xs = be_val ys \<Longrightarrow> xs = ys"
  unfolding be_val_def using le_val_inject [of "rev xs" "rev ys"] by simp

lemma le_val_replicate_0 [simp]: "le_val (replicate k 0) = 0"
  by (induction k) auto

lemma le_val_append: "le_val (xs @ ys) = le_val xs + 256 ^ length xs * le_val ys"
  by (induction xs) (auto simp: algebra_simps)

subsection \<open>The array type\<close>

typedef (overloaded) ('n::len) bytesN = "{bs :: u8 list. length bs = LENGTH('n)}"
  morphisms array_list Abs_bytesN
  by (rule exI [of _ "replicate LENGTH('n) 0"]) simp

type_synonym bytes32 = "32 bytesN"
type_synonym bytes256 = "256 bytesN"

lemma length_array_list [simp]: "length (array_list (a :: 'n::len bytesN)) = LENGTH('n)"
  using array_list [of a] by simp

text \<open>
  \<open>let mut arr = [0u8; N]; arr.copy_from_slice(bs)\<close>: the code only does this with a slice of
  exactly \<open>N\<close> bytes, where the array is the slice (\<open>array_list_array_of\<close>).
\<close>

definition array_of :: "u8 list \<Rightarrow> 'n::len bytesN" where
  "array_of bs = Abs_bytesN (take LENGTH('n) (bs @ replicate LENGTH('n) 0))"

declare array_of_def [code del]

lemma Abs_bytesN_array_list [code abstype]: "Abs_bytesN (array_list a) = a"
  by (rule array_list_inverse)

lemma array_list_array_of_take [code abstract]:
  "array_list (array_of bs :: 'n::len bytesN) = take LENGTH('n) (bs @ replicate LENGTH('n) 0)"
  unfolding array_of_def by (rule Abs_bytesN_inverse) simp

lemma array_list_array_of [simp]:
  "length bs = LENGTH('n::len) \<Longrightarrow> array_list (array_of bs :: 'n bytesN) = bs"
  by (simp add: array_list_array_of_take)

lemma array_of_array_list [simp]: "array_of (array_list a) = a"
  by (simp add: array_of_def array_list_inverse)

lemma array_eq_iff: "a = b \<longleftrightarrow> array_list a = array_list b"
  by (simp add: array_list_inject)

instantiation bytesN :: (len) equal
begin

definition equal_bytesN :: "'a bytesN \<Rightarrow> 'a bytesN \<Rightarrow> bool" where
  "equal_bytesN a b \<longleftrightarrow> array_list a = array_list b"

instance
  by standard (simp add: equal_bytesN_def array_eq_iff)

end

instantiation bytesN :: (len) linorder
begin

text \<open>The lexicographic order of byte arrays is the order of their big-endian values.\<close>

definition less_eq_bytesN :: "'a bytesN \<Rightarrow> 'a bytesN \<Rightarrow> bool" where
  "less_eq_bytesN a b \<longleftrightarrow> be_val (array_list a) \<le> be_val (array_list b)"

definition less_bytesN :: "'a bytesN \<Rightarrow> 'a bytesN \<Rightarrow> bool" where
  "less_bytesN a b \<longleftrightarrow> be_val (array_list a) < be_val (array_list b)"

instance
proof
  fix x y z :: "'a bytesN"
  show "x < y \<longleftrightarrow> x \<le> y \<and> \<not> y \<le> x" by (auto simp: less_eq_bytesN_def less_bytesN_def)
  show "x \<le> x" by (simp add: less_eq_bytesN_def)
  show "x \<le> y \<Longrightarrow> y \<le> z \<Longrightarrow> x \<le> z" by (simp add: less_eq_bytesN_def)
  show "x \<le> y \<Longrightarrow> y \<le> x \<Longrightarrow> x = y"
    by (simp add: less_eq_bytesN_def array_eq_iff be_val_inject)
  show "x \<le> y \<or> y \<le> x" by (auto simp: less_eq_bytesN_def)
qed

end

subsection \<open>Arrays from numbers\<close>

text \<open>The 32-byte big-endian encoding of a number, which the witnesses use as literals.\<close>

definition be_array :: "nat \<Rightarrow> 'n::len bytesN" where
  "be_array n = array_of (to_be_bytes LENGTH('n) n)"

definition array_val :: "'n::len bytesN \<Rightarrow> nat" where
  "array_val a = be_val (array_list a)"

lemma array_val_be_array: "array_val (be_array n :: 'n::len bytesN) = n mod 256 ^ LENGTH('n)"
  by (simp add: array_val_def be_array_def be_val_to_be_bytes)

lemma array_val_less: "array_val (a :: 'n::len bytesN) < 256 ^ LENGTH('n)"
  using be_val_less [of "array_list a"] by (simp add: array_val_def)

lemma array_val_inject: "array_val a = array_val b \<longleftrightarrow> a = b"
  by (auto simp: array_val_def array_eq_iff intro: be_val_inject)

lemma be_array_array_val [simp]: "be_array (array_val a) = (a :: 'a::len bytesN)"
proof -
  have "array_val (be_array (array_val a) :: 'a bytesN) = array_val a"
    using array_val_less [of a] by (simp add: array_val_be_array)
  then show ?thesis by (simp add: array_val_inject)
qed

lemma be_array_eq_iff:
  "(be_array m :: 'n::len bytesN) = be_array n \<longleftrightarrow> m mod 256 ^ LENGTH('n) = n mod 256 ^ LENGTH('n)"
  by (metis array_val_be_array array_val_inject)

end
