(* ===== verification/Soroban.thy ===== *)
theory Soroban
  imports Bytes
begin

text \<open>
  The world a contract of this repository runs in. The storage the host keeps for a contract
  (\<open>env.storage().instance()\<close> and \<open>.persistent()\<close>) and the events it publishes are the
  contract's state, the record \<open>env\<close>. The libraries and contracts the code calls and
  this repository does not hold (light-poseidon, arkworks, the host's SHA-256, the token
  contract) are the fields of the record \<open>host\<close>, over which every definition is
  parametric; what the code relies on is stated by the \<open>_laws\<close> predicates below, which the
  theorems that need them name as hypotheses.
\<close>

subsection \<open>Addresses\<close>

text \<open>An address is known by its strkey, the text \<open>Address::to_string\<close> returns.\<close>

datatype Address = Address (strkey: string)

subsection \<open>Contract state\<close>

record ('k, 'v, 'ev) env =
  instance_store :: "'k \<rightharpoonup> 'v"
  persistent_store :: "'k \<rightharpoonup> 'v"
  published :: "'ev list"

definition inst_get :: "'k \<Rightarrow> ('k, 'v, 'ev, 'z) env_scheme \<Rightarrow> 'v option" where
  "inst_get k e = instance_store e k"

definition inst_set :: "'k \<Rightarrow> 'v \<Rightarrow> ('k, 'v, 'ev, 'z) env_scheme \<Rightarrow> ('k, 'v, 'ev, 'z) env_scheme" where
  "inst_set k v e = e\<lparr>instance_store := (instance_store e)(k \<mapsto> v)\<rparr>"

definition pers_get :: "'k \<Rightarrow> ('k, 'v, 'ev, 'z) env_scheme \<Rightarrow> 'v option" where
  "pers_get k e = persistent_store e k"

definition pers_set :: "'k \<Rightarrow> 'v \<Rightarrow> ('k, 'v, 'ev, 'z) env_scheme \<Rightarrow> ('k, 'v, 'ev, 'z) env_scheme" where
  "pers_set k v e = e\<lparr>persistent_store := (persistent_store e)(k \<mapsto> v)\<rparr>"

definition publish :: "'ev \<Rightarrow> ('k, 'v, 'ev, 'z) env_scheme \<Rightarrow> ('k, 'v, 'ev, 'z) env_scheme" where
  "publish ev e = e\<lparr>published := published e @ [ev]\<rparr>"

definition empty_env :: "('k, 'v, 'ev) env" where
  "empty_env = \<lparr>instance_store = Map.empty, persistent_store = Map.empty, published = []\<rparr>"

text \<open>The contract of one storage tier.\<close>

locale kv_storage =
  fixes get :: "'k \<Rightarrow> 's \<Rightarrow> 'v option"
    and set :: "'k \<Rightarrow> 'v \<Rightarrow> 's \<Rightarrow> 's"
  assumes get_set: "get k (set j v s) = (if k = j then Some v else get k s)"
begin

lemma get_set_same: "get k (set k v s) = Some v"
  by (simp add: get_set)

lemma get_set_other: "k \<noteq> j \<Longrightarrow> get k (set j v s) = get k s"
  by (simp add: get_set)

lemma get_fold_set:
  "get k (fold (\<lambda>(j, v). set j v) kvs s) = (case map_of (rev kvs) k of None \<Rightarrow> get k s | Some v \<Rightarrow> Some v)"
proof (induction kvs arbitrary: s)
  case Nil
  show ?case by simp
next
  case (Cons jv kvs)
  obtain j v where jv: "jv = (j, v)" by (cases jv)
  show ?case
    by (simp add: jv Cons.IH map_add_def get_set split: option.splits)
qed

end

text \<open>Two tiers of one contract: neither is seen through the other.\<close>

locale two_tier_storage =
  inst: kv_storage iget iset + pers: kv_storage pget pset
  for iget :: "'k \<Rightarrow> 's \<Rightarrow> 'v option" and iset :: "'k \<Rightarrow> 'v \<Rightarrow> 's \<Rightarrow> 's"
    and pget :: "'k \<Rightarrow> 's \<Rightarrow> 'v option" and pset :: "'k \<Rightarrow> 'v \<Rightarrow> 's \<Rightarrow> 's" +
  assumes iget_pset: "iget k (pset j v s) = iget k s"
    and pget_iset: "pget k (iset j v s) = pget k s"
begin

lemmas storage_laws = inst.get_set pers.get_set iget_pset pget_iset

end

interpretation store: two_tier_storage
  "inst_get :: 'k \<Rightarrow> ('k, 'v, 'ev, 'z) env_scheme \<Rightarrow> 'v option" inst_set
  "pers_get :: 'k \<Rightarrow> ('k, 'v, 'ev, 'z) env_scheme \<Rightarrow> 'v option" pers_set
  by unfold_locales (auto simp: inst_get_def inst_set_def pers_get_def pers_set_def)

lemmas store_simps [simp] = store.storage_laws

lemma publish_frame [simp]:
  "inst_get k (publish ev e) = inst_get k e"
  "pers_get k (publish ev e) = pers_get k e"
  "published (publish ev e) = published e @ [ev]"
  "published (inst_set k v e) = published e"
  "published (pers_set k v e) = published e"
  by (simp_all add: publish_def inst_get_def pers_get_def inst_set_def pers_set_def)

lemma empty_env_get [simp]:
  "inst_get k empty_env = None" "pers_get k empty_env = None" "published empty_env = []"
  by (simp_all add: empty_env_def inst_get_def pers_get_def)

text \<open>Typed reads: \<open>get(..).unwrap()\<close>, \<open>get(..).unwrap_or(d)\<close> and a plain \<open>get(..)\<close>. A stored
  value of another type makes the SDK's conversion panic.\<close>

definition read_req :: "('v \<Rightarrow> ('e, 'a) result) \<Rightarrow> 'v option \<Rightarrow> ('e, 'a) result" where
  "read_req conv v = (case v of None \<Rightarrow> Inl Panic | Some x \<Rightarrow> conv x)"

definition read_or :: "'a \<Rightarrow> ('v \<Rightarrow> ('e, 'a) result) \<Rightarrow> 'v option \<Rightarrow> ('e, 'a) result" where
  "read_or d conv v = (case v of None \<Rightarrow> Inr d | Some x \<Rightarrow> conv x)"

definition read_opt :: "('v \<Rightarrow> ('e, 'a) result) \<Rightarrow> 'v option \<Rightarrow> ('e, 'a option) result" where
  "read_opt conv v = (case v of None \<Rightarrow> Inr None | Some x \<Rightarrow> and_then (conv x) (\<lambda>y. Inr (Some y)))"

lemma read_simps [simp, res_simps]:
  "read_req conv None = Inl Panic" "read_req conv (Some x) = conv x"
  "read_or d conv None = Inr d" "read_or d conv (Some x) = conv x"
  "read_opt conv None = Inr None" "read_opt conv (Some x) = and_then (conv x) (\<lambda>y. Inr (Some y))"
  by (simp_all add: read_req_def read_or_def read_opt_def)

text \<open>\<open>address.require_auth()\<close> aborts the invocation unless the address signed it.\<close>

definition require_auth :: "(Address \<Rightarrow> bool) \<Rightarrow> Address \<Rightarrow> ('e, unit) result" where
  "require_auth auth a = (if auth a then Inr () else Inl Panic)"

lemma require_auth_simps [simp]:
  "auth a \<Longrightarrow> require_auth auth a = Inr ()"
  "\<not> auth a \<Longrightarrow> require_auth auth a = Inl Panic"
  by (simp_all add: require_auth_def)

subsection \<open>The libraries the code calls\<close>

text \<open>
  arkworks' scalar field \<open>Fr\<close> (\<open>from_le_bytes_mod_order\<close>, \<open>into_bigint().to_bytes_le()\<close>)
  and light-poseidon's circom hashers of one and two inputs, which are defined for these
  arities.
\<close>

record 'fr field_crypto =
  fr_from_le_bytes_mod_order :: "u8 list \<Rightarrow> 'fr"
  fr_to_bytes_le :: "'fr \<Rightarrow> u8 list"
  poseidon1 :: "'fr \<Rightarrow> 'fr"
  poseidon2 :: "'fr \<Rightarrow> 'fr \<Rightarrow> 'fr"

text \<open>arkworks' BN254 curve: \<open>Fq2\<close> elements are pairs of \<open>Fq\<close> elements.\<close>

record ('fr, 'fq, 'g1, 'g1p, 'g2, 'gt) curve = "'fr field_crypto" +
  fq_from_le_bytes_mod_order :: "u8 list \<Rightarrow> 'fq"
  g1_new_unchecked :: "'fq \<Rightarrow> 'fq \<Rightarrow> 'g1"
  g1_is_on_curve :: "'g1 \<Rightarrow> bool"
  g1_in_subgroup :: "'g1 \<Rightarrow> bool"
  g1_identity :: 'g1
  g1_neg :: "'g1 \<Rightarrow> 'g1"
  g1_into_projective :: "'g1 \<Rightarrow> 'g1p"
  g1_mul :: "'g1 \<Rightarrow> 'fr \<Rightarrow> 'g1p"
  g1p_add :: "'g1p \<Rightarrow> 'g1p \<Rightarrow> 'g1p"
  g1p_into_affine :: "'g1p \<Rightarrow> 'g1"
  g2_new_unchecked :: "'fq \<times> 'fq \<Rightarrow> 'fq \<times> 'fq \<Rightarrow> 'g2"
  g2_is_on_curve :: "'g2 \<Rightarrow> bool"
  g2_in_subgroup :: "'g2 \<Rightarrow> bool"
  multi_pairing :: "'g1 list \<Rightarrow> 'g2 list \<Rightarrow> 'gt"
  gt_is_zero :: "'gt \<Rightarrow> bool"

text \<open>
  The rest of the host: SHA-256, the contract's own address, and \<open>transfer\<close> of the token
  contract at an address, which acts on the token ledger and may abort.
\<close>

record ('fr, 'fq, 'g1, 'g1p, 'g2, 'gt, 'l) host =
  "('fr, 'fq, 'g1, 'g1p, 'g2, 'gt) curve" +
  host_sha256 :: "u8 list \<Rightarrow> bytes32"
  current_contract_address :: Address
  token_transfer :: "Address \<Rightarrow> 'l \<Rightarrow> Address \<Rightarrow> Address \<Rightarrow> i128 \<Rightarrow> 'l option"

subsection \<open>What the code relies on\<close>

text \<open>The order of the BN254 scalar field, as in \<open>client/src/crypto/secrets.ts\<close>.\<close>

definition bn254_r :: nat where
  "bn254_r = 21888242871839275222246405745257275088548364400416034343698204186575808495617"

text \<open>
  arkworks' documented conversions: the reading of a byte string is its little-endian
  value modulo the order, the writing is the 32 little-endian bytes of the representative
  below the order, and the writing of an element reads back as that element.
\<close>

definition fr_laws :: "('fr, 'z) field_crypto_scheme \<Rightarrow> bool" where
  "fr_laws c \<longleftrightarrow>
     (\<forall>bs. le_val (fr_to_bytes_le c (fr_from_le_bytes_mod_order c bs)) = le_val bs mod bn254_r) \<and>
     (\<forall>x. length (fr_to_bytes_le c x) = 32) \<and>
     (\<forall>x. fr_from_le_bytes_mod_order c (fr_to_bytes_le c x) = x)"

text \<open>
  The token interface (SEP-41): a transfer that returns moved a non-negative amount the
  sender had, and changed no other balance. \<open>bal\<close> reads a balance off the ledger.
\<close>

definition token_laws ::
  "('fr, 'fq, 'g1, 'g1p, 'g2, 'gt, 'l, 'z) host_scheme \<Rightarrow> (Address \<Rightarrow> 'l \<Rightarrow> Address \<Rightarrow> int) \<Rightarrow> bool" where
  "token_laws h bal \<longleftrightarrow>
     (\<forall>tok l a b x l'. token_transfer h tok l a b x = Some l' \<longrightarrow>
        0 \<le> sint x \<and> sint x \<le> bal tok l a \<and>
        (\<forall>c. bal tok l' c = bal tok l c - (if c = a then sint x else 0) + (if c = b then sint x else 0)))"

end
