(* ===== verification/PoolStorage.thy ===== *)
theory PoolStorage
  imports Soroban
begin

text \<open>
  \<open>contracts/mixer_pool/src/storage.rs\<close> and \<open>errors.rs\<close>: the storage keys, the typed getters
  and setters, and the error codes of the pool.
\<close>

datatype MixerError =
    AlreadyInitialized | WrongAmount | DuplicateCommitment | TreeFull | InvalidRoot
  | NullifierSpentError | InvalidProof | FeeTooHigh | InvalidDenomination | InvalidTreeDepth
  | InvalidRootHistorySize | Unauthorized

text \<open>The wire codes of \<open>#[repr(u32)]\<close>.\<close>

fun mixer_error_code :: "MixerError \<Rightarrow> u32" where
  "mixer_error_code AlreadyInitialized = 1"
| "mixer_error_code WrongAmount = 2"
| "mixer_error_code DuplicateCommitment = 3"
| "mixer_error_code TreeFull = 4"
| "mixer_error_code InvalidRoot = 5"
| "mixer_error_code NullifierSpentError = 6"
| "mixer_error_code InvalidProof = 7"
| "mixer_error_code FeeTooHigh = 8"
| "mixer_error_code InvalidDenomination = 9"
| "mixer_error_code InvalidTreeDepth = 10"
| "mixer_error_code InvalidRootHistorySize = 11"
| "mixer_error_code Unauthorized = 12"

datatype DataKey =
    Denomination | Admin | Token | TreeDepth | NextLeafIndex | RootHistorySize
  | RootHistoryIndex | MerkleNode u32 u32 | RootHistoryEntry u32
  | NullifierSpent bytes32 | CommitmentInserted bytes32 | MaxFee | Initialized

text \<open>The values the pool stores.\<close>

datatype ScVal = VI128 i128 | VU32 u32 | VAddress Address | VBool bool | VBytes bytes32

definition as_i128 :: "ScVal \<Rightarrow> (MixerError, i128) result" where
  "as_i128 v = (case v of VI128 x \<Rightarrow> Inr x | _ \<Rightarrow> Inl Panic)"

definition as_u32 :: "ScVal \<Rightarrow> (MixerError, u32) result" where
  "as_u32 v = (case v of VU32 x \<Rightarrow> Inr x | _ \<Rightarrow> Inl Panic)"

definition as_address :: "ScVal \<Rightarrow> (MixerError, Address) result" where
  "as_address v = (case v of VAddress x \<Rightarrow> Inr x | _ \<Rightarrow> Inl Panic)"

definition as_bool :: "ScVal \<Rightarrow> (MixerError, bool) result" where
  "as_bool v = (case v of VBool x \<Rightarrow> Inr x | _ \<Rightarrow> Inl Panic)"

definition as_bytes :: "ScVal \<Rightarrow> (MixerError, bytes32) result" where
  "as_bytes v = (case v of VBytes x \<Rightarrow> Inr x | _ \<Rightarrow> Inl Panic)"

lemma as_simps [simp, res_simps]:
  "as_i128 (VI128 x) = Inr x" "as_u32 (VU32 n) = Inr n" "as_address (VAddress a) = Inr a"
  "as_bool (VBool b) = Inr b" "as_bytes (VBytes bs) = Inr bs"
  by (simp_all add: as_i128_def as_u32_def as_address_def as_bool_def as_bytes_def)

type_synonym ('ev, 'z) pool_store = "(DataKey, ScVal, 'ev, 'z) env_scheme"

definition DEFAULT_TREE_DEPTH :: u32 where "DEFAULT_TREE_DEPTH = 20"
definition DEFAULT_ROOT_HISTORY_SIZE :: u32 where "DEFAULT_ROOT_HISTORY_SIZE = 500"

named_theorems pool_storage_defs

subsection \<open>Instance storage helpers\<close>

definition set_denomination :: "i128 \<Rightarrow> ('ev, 'z) pool_store \<Rightarrow> ('ev, 'z) pool_store" where
  [pool_storage_defs]: "set_denomination amount e = inst_set Denomination (VI128 amount) e"

definition get_denomination :: "('ev, 'z) pool_store \<Rightarrow> (MixerError, i128) result" where
  [pool_storage_defs]: "get_denomination e = read_req as_i128 (inst_get Denomination e)"

definition set_admin :: "Address \<Rightarrow> ('ev, 'z) pool_store \<Rightarrow> ('ev, 'z) pool_store" where
  [pool_storage_defs]: "set_admin admin e = inst_set Admin (VAddress admin) e"

definition get_admin :: "('ev, 'z) pool_store \<Rightarrow> (MixerError, Address) result" where
  [pool_storage_defs]: "get_admin e = read_req as_address (inst_get Admin e)"

definition set_tree_depth :: "u32 \<Rightarrow> ('ev, 'z) pool_store \<Rightarrow> ('ev, 'z) pool_store" where
  [pool_storage_defs]: "set_tree_depth depth e = inst_set TreeDepth (VU32 depth) e"

definition get_tree_depth :: "('ev, 'z) pool_store \<Rightarrow> (MixerError, u32) result" where
  [pool_storage_defs]: "get_tree_depth e = read_req as_u32 (inst_get TreeDepth e)"

definition set_next_leaf_index :: "u32 \<Rightarrow> ('ev, 'z) pool_store \<Rightarrow> ('ev, 'z) pool_store" where
  [pool_storage_defs]: "set_next_leaf_index index e = inst_set NextLeafIndex (VU32 index) e"

definition get_next_leaf_index :: "('ev, 'z) pool_store \<Rightarrow> (MixerError, u32) result" where
  [pool_storage_defs]: "get_next_leaf_index e = read_or 0 as_u32 (inst_get NextLeafIndex e)"

definition set_root_history_size :: "u32 \<Rightarrow> ('ev, 'z) pool_store \<Rightarrow> ('ev, 'z) pool_store" where
  [pool_storage_defs]: "set_root_history_size sz e = inst_set RootHistorySize (VU32 sz) e"

definition get_root_history_size :: "('ev, 'z) pool_store \<Rightarrow> (MixerError, u32) result" where
  [pool_storage_defs]: "get_root_history_size e = read_req as_u32 (inst_get RootHistorySize e)"

definition set_root_history_index :: "u32 \<Rightarrow> ('ev, 'z) pool_store \<Rightarrow> ('ev, 'z) pool_store" where
  [pool_storage_defs]: "set_root_history_index index e = inst_set RootHistoryIndex (VU32 index) e"

definition get_root_history_index :: "('ev, 'z) pool_store \<Rightarrow> (MixerError, u32) result" where
  [pool_storage_defs]: "get_root_history_index e = read_or 0 as_u32 (inst_get RootHistoryIndex e)"

definition set_max_fee :: "i128 \<Rightarrow> ('ev, 'z) pool_store \<Rightarrow> ('ev, 'z) pool_store" where
  [pool_storage_defs]: "set_max_fee fee e = inst_set MaxFee (VI128 fee) e"

definition get_max_fee :: "('ev, 'z) pool_store \<Rightarrow> (MixerError, i128) result" where
  [pool_storage_defs]: "get_max_fee e = read_req as_i128 (inst_get MaxFee e)"

definition set_initialized :: "('ev, 'z) pool_store \<Rightarrow> ('ev, 'z) pool_store" where
  [pool_storage_defs]: "set_initialized e = inst_set Initialized (VBool True) e"

definition is_initialized :: "('ev, 'z) pool_store \<Rightarrow> (MixerError, bool) result" where
  [pool_storage_defs]: "is_initialized e = read_or False as_bool (inst_get Initialized e)"

subsection \<open>Persistent storage helpers\<close>

definition set_merkle_node :: "u32 \<Rightarrow> u32 \<Rightarrow> bytes32 \<Rightarrow> ('ev, 'z) pool_store \<Rightarrow> ('ev, 'z) pool_store" where
  [pool_storage_defs]: "set_merkle_node level index hash e = pers_set (MerkleNode level index) (VBytes hash) e"

definition get_merkle_node :: "u32 \<Rightarrow> u32 \<Rightarrow> ('ev, 'z) pool_store \<Rightarrow> (MixerError, bytes32 option) result" where
  [pool_storage_defs]: "get_merkle_node level index e = read_opt as_bytes (pers_get (MerkleNode level index) e)"

definition set_root_history_entry :: "u32 \<Rightarrow> bytes32 \<Rightarrow> ('ev, 'z) pool_store \<Rightarrow> ('ev, 'z) pool_store" where
  [pool_storage_defs]: "set_root_history_entry position root e = pers_set (RootHistoryEntry position) (VBytes root) e"

definition get_root_history_entry :: "u32 \<Rightarrow> ('ev, 'z) pool_store \<Rightarrow> (MixerError, bytes32 option) result" where
  [pool_storage_defs]: "get_root_history_entry position e = read_opt as_bytes (pers_get (RootHistoryEntry position) e)"

definition set_nullifier_spent :: "bytes32 \<Rightarrow> ('ev, 'z) pool_store \<Rightarrow> ('ev, 'z) pool_store" where
  [pool_storage_defs]: "set_nullifier_spent nullifier_hash e = pers_set (NullifierSpent nullifier_hash) (VBool True) e"

definition is_nullifier_spent :: "bytes32 \<Rightarrow> ('ev, 'z) pool_store \<Rightarrow> (MixerError, bool) result" where
  [pool_storage_defs]: "is_nullifier_spent nullifier_hash e = read_or False as_bool (pers_get (NullifierSpent nullifier_hash) e)"

definition set_commitment_inserted :: "bytes32 \<Rightarrow> ('ev, 'z) pool_store \<Rightarrow> ('ev, 'z) pool_store" where
  [pool_storage_defs]: "set_commitment_inserted commitment e = pers_set (CommitmentInserted commitment) (VBool True) e"

definition is_commitment_inserted :: "bytes32 \<Rightarrow> ('ev, 'z) pool_store \<Rightarrow> (MixerError, bool) result" where
  [pool_storage_defs]: "is_commitment_inserted commitment e = read_or False as_bool (pers_get (CommitmentInserted commitment) e)"

definition set_token :: "Address \<Rightarrow> ('ev, 'z) pool_store \<Rightarrow> ('ev, 'z) pool_store" where
  [pool_storage_defs]: "set_token token e = inst_set Token (VAddress token) e"

definition get_token :: "('ev, 'z) pool_store \<Rightarrow> (MixerError, Address) result" where
  [pool_storage_defs]: "get_token e = read_req as_address (inst_get Token e)"

subsection \<open>Sets kept in storage\<close>

text \<open>
  The spent nullifiers and the inserted commitments are both sets that only grow: the
  contract asks for membership and adds one element.
\<close>

locale grow_set =
  fixes mem :: "'a \<Rightarrow> 's \<Rightarrow> ('e, bool) result" and add :: "'a \<Rightarrow> 's \<Rightarrow> 's"
    and typed :: "'s \<Rightarrow> bool"
  assumes mem_typed: "typed s \<Longrightarrow> \<exists>b. mem x s = Inr b"
    and mem_add: "mem x (add y s) = (if x = y then Inr True else mem x s)"
    and typed_add: "typed s \<Longrightarrow> typed (add x s)"
begin

lemma mem_add_same: "mem x (add x s) = Inr True"
  by (simp add: mem_add)

lemma mem_grows: "mem x s = Inr True \<Longrightarrow> mem x (add y s) = Inr True"
  by (simp add: mem_add)

lemma mem_fold_add:
  "mem x (fold add ys s) = (if x \<in> set ys then Inr True else mem x s)"
  by (induction ys arbitrary: s) (auto simp: mem_add)

lemma typed_fold_add: "typed s \<Longrightarrow> typed (fold add ys s)"
  by (induction ys arbitrary: s) (auto simp: typed_add)

end

definition nullifiers_typed :: "('ev, 'z) pool_store \<Rightarrow> bool" where
  "nullifiers_typed e \<longleftrightarrow> (\<forall>n. pers_get (NullifierSpent n) e = None \<or> pers_get (NullifierSpent n) e = Some (VBool True))"

definition commitments_typed :: "('ev, 'z) pool_store \<Rightarrow> bool" where
  "commitments_typed e \<longleftrightarrow> (\<forall>c. pers_get (CommitmentInserted c) e = None \<or> pers_get (CommitmentInserted c) e = Some (VBool True))"

interpretation nullifiers: grow_set is_nullifier_spent set_nullifier_spent nullifiers_typed
proof
  show "nullifiers_typed s \<Longrightarrow> \<exists>b. is_nullifier_spent x s = Inr b" for s x
    unfolding nullifiers_typed_def by (drule spec [of _ x]) (auto simp: pool_storage_defs)
qed (auto simp: nullifiers_typed_def pool_storage_defs)

interpretation commitments: grow_set is_commitment_inserted set_commitment_inserted commitments_typed
proof
  show "commitments_typed s \<Longrightarrow> \<exists>b. is_commitment_inserted x s = Inr b" for s x
    unfolding commitments_typed_def by (drule spec [of _ x]) (auto simp: pool_storage_defs)
qed (auto simp: commitments_typed_def pool_storage_defs)

end
