(* ===== verification/Poseidon.thy ===== *)
theory Poseidon
  imports Soroban
begin

text \<open>
  \<open>contracts/mixer_pool/src/poseidon.rs\<close>: the conversions between 32-byte big-endian arrays
  and scalar-field elements, and the Poseidon hashes of the contract on them.
\<close>

definition bytes_to_fr :: "('fr, 'z) field_crypto_scheme \<Rightarrow> bytes32 \<Rightarrow> 'fr" where
  "bytes_to_fr c bytes =
     (let le_bytes = rev (array_list bytes) in fr_from_le_bytes_mod_order c le_bytes)"

text \<open>\<open>for i in 0..len { be_bytes[31 - i] = le_bytes[i] }\<close>\<close>

definition fr_to_bytes :: "('fr, 'z) field_crypto_scheme \<Rightarrow> 'fr \<Rightarrow> bytes32" where
  "fr_to_bytes c fr =
     (let le_bytes = fr_to_bytes_le c fr;
          len = min (length le_bytes) 32
      in array_of (fold (\<lambda>i be_bytes. be_bytes[31 - i := le_bytes ! i]) [0..<len] (replicate 32 0)))"

definition hash_pair :: "('fr, 'z) field_crypto_scheme \<Rightarrow> 'fr \<Rightarrow> 'fr \<Rightarrow> 'fr" where
  "hash_pair c left right = poseidon2 c left right"

definition hash_single :: "('fr, 'z) field_crypto_scheme \<Rightarrow> 'fr \<Rightarrow> 'fr" where
  "hash_single c input = poseidon1 c input"

definition hash_pair_bytes :: "('fr, 'z) field_crypto_scheme \<Rightarrow> bytes32 \<Rightarrow> bytes32 \<Rightarrow> bytes32" where
  "hash_pair_bytes c left right =
     (let left_fr = bytes_to_fr c left; right_fr = bytes_to_fr c right
      in fr_to_bytes c (hash_pair c left_fr right_fr))"

definition hash_single_bytes :: "('fr, 'z) field_crypto_scheme \<Rightarrow> bytes32 \<Rightarrow> bytes32" where
  "hash_single_bytes c input = fr_to_bytes c (hash_single c (bytes_to_fr c input))"

subsection \<open>The writing loop\<close>

lemma write_back_loop:
  assumes "n \<le> length le" and "n \<le> 32" and "length be = 32"
  shows "fold (\<lambda>i be. be[31 - i := le ! i]) [0..<n] be = take (32 - n) be @ rev (take n le)"
  using assms
proof (induction n)
  case 0
  then show ?case by simp
next
  case (Suc n)
  let ?pre = "take (32 - n) be"
  have pre: "?pre = take (31 - n) be @ [be ! (31 - n)]"
  proof -
    have "32 - n = Suc (31 - n)" using Suc.prems by simp
    then show ?thesis using Suc.prems take_Suc_conv_app_nth [of "31 - n" be] by simp
  qed
  have "(?pre @ rev (take n le))[31 - n := le ! n] = take (31 - n) be @ le ! n # rev (take n le)"
    using Suc.prems by (simp add: pre list_update_append)
  then show ?case using Suc by (simp add: take_Suc_conv_app_nth)
qed

lemma fr_to_bytes_eq:
  "fr_to_bytes c x =
     array_of (replicate (32 - length (fr_to_bytes_le c x)) 0 @ rev (take 32 (fr_to_bytes_le c x)))"
proof -
  let ?le = "fr_to_bytes_le c x"
  have "fold (\<lambda>i be. be[31 - i := ?le ! i]) [0..<min (length ?le) 32] (replicate 32 0)
      = replicate (32 - min (length ?le) 32) 0 @ rev (take (min (length ?le) 32) ?le)"
    by (subst write_back_loop) auto
  moreover have "32 - min (length ?le) 32 = 32 - length ?le" by simp
  moreover have "take (min (length ?le) 32) ?le = take 32 ?le" by (simp add: min_def)
  ultimately show ?thesis unfolding fr_to_bytes_def Let_def by simp
qed

subsection \<open>Round trips with the field\<close>

lemma array_list_fr_to_bytes:
  assumes "fr_laws c"
  shows "array_list (fr_to_bytes c x) = rev (fr_to_bytes_le c x)"
  using assms by (simp add: fr_laws_def fr_to_bytes_eq)

lemma bytes_to_fr_to_bytes:
  assumes "fr_laws c"
  shows "bytes_to_fr c (fr_to_bytes c x) = x"
  using assms by (simp add: bytes_to_fr_def array_list_fr_to_bytes) (simp add: fr_laws_def)

lemma array_val_bytes_to_fr:
  assumes "fr_laws c"
  shows "array_val (fr_to_bytes c (bytes_to_fr c b)) = array_val b mod bn254_r"
  using assms
  by (simp add: array_val_def array_list_fr_to_bytes be_val_def bytes_to_fr_def)
    (simp add: fr_laws_def)

lemma bytes_to_fr_eq_iff:
  assumes "fr_laws c"
  shows "bytes_to_fr c a = bytes_to_fr c b \<longleftrightarrow> array_val a mod bn254_r = array_val b mod bn254_r"
  by (metis array_val_bytes_to_fr [OF assms] array_val_inject bytes_to_fr_to_bytes [OF assms])

lemma fr_to_bytes_canonical:
  assumes "fr_laws c"
  shows "array_val (fr_to_bytes c x) < bn254_r"
  by (metis array_val_bytes_to_fr [OF assms] bytes_to_fr_to_bytes [OF assms] bn254_r_def
      mod_less_divisor zero_less_numeral)

end
