(* ===== verification/MerkleSpec.thy ===== *)
theory MerkleSpec
  imports Prelude
begin

text \<open>
  What the repository's Merkle trees are meant to compute, once: the hash of every node of
  the complete binary tree whose first leaves are a given list and whose other leaves are
  the zero leaf, the authentication path of a leaf, and the verification of such a path as
  in \<open>circuits/merkle.circom\<close>. The contract's incremental tree and the indexer's layered
  tree both provide the interface \<open>merkle_accumulator\<close> stated here.
\<close>

subsection \<open>Nodes\<close>

primrec empty_node :: "('d \<Rightarrow> 'd \<Rightarrow> 'd) \<Rightarrow> 'd \<Rightarrow> nat \<Rightarrow> 'd" where
  "empty_node H z 0 = z"
| "empty_node H z (Suc l) = H (empty_node H z l) (empty_node H z l)"

primrec node :: "('d \<Rightarrow> 'd \<Rightarrow> 'd) \<Rightarrow> 'd \<Rightarrow> 'd list \<Rightarrow> nat \<Rightarrow> nat \<Rightarrow> 'd" where
  "node H z xs 0 i = (if i < length xs then xs ! i else z)"
| "node H z xs (Suc l) i = H (node H z xs l (2 * i)) (node H z xs l (2 * i + 1))"

lemma node_empty: "length xs \<le> i * 2 ^ l \<Longrightarrow> node H z xs l i = empty_node H z l"
proof (induction l arbitrary: i)
  case 0
  then show ?case by simp
next
  case (Suc l)
  have "length xs \<le> 2 * i * 2 ^ l" "length xs \<le> (2 * i + 1) * 2 ^ l"
    using Suc.prems by (auto simp: algebra_simps)
  then show ?case by (simp add: Suc.IH)
qed

lemma node_Nil [simp]: "node H z [] l i = empty_node H z l"
  by (simp add: node_empty)

lemma div_two_power_Suc: "(n :: nat) div (2 * 2 ^ l) = n div 2 ^ l div 2"
  by (simp add: div_mult2_eq [symmetric] mult.commute)

lemma node_append_other:
  "i \<noteq> length xs div 2 ^ l \<Longrightarrow> node H z (xs @ [c]) l i = node H z xs l i"
proof (induction l arbitrary: i)
  case 0
  then show ?case by (auto simp: nth_append)
next
  case (Suc l)
  let ?j = "length xs div 2 ^ l"
  have "i \<noteq> ?j div 2" using Suc.prems by (simp add: div_two_power_Suc)
  then have "2 * i \<noteq> ?j" "2 * i + 1 \<noteq> ?j" by auto
  then show ?case by (simp add: Suc.IH)
qed

lemma node_append_leaf [simp]: "node H z (xs @ [c]) 0 (length xs) = c"
  by simp

lemma node_prefix:
  "(i + 1) * 2 ^ l \<le> length xs \<Longrightarrow> node H z (xs @ ys) l i = node H z xs l i"
proof (induction l arbitrary: i)
  case 0
  then show ?case by (simp add: nth_append)
next
  case (Suc l)
  have "(2 * i + 1) * 2 ^ l \<le> length xs" "(2 * i + 1 + 1) * 2 ^ l \<le> length xs"
    using Suc.prems by (auto simp: algebra_simps)
  then show ?case by (simp add: Suc.IH)
qed

text \<open>A node is non-empty when some leaf lies below it.\<close>

definition occupied :: "nat \<Rightarrow> nat \<Rightarrow> nat \<Rightarrow> bool" where
  "occupied n l i \<longleftrightarrow> i * 2 ^ l < n"

lemma occupied_0 [simp]: "\<not> occupied 0 l i"
  by (simp add: occupied_def)

lemma occupied_Suc: "occupied (Suc n) l i \<longleftrightarrow> occupied n l i \<or> i = n div 2 ^ l"
proof (cases "i * 2 ^ l = n")
  case True
  then have "n div 2 ^ l = i" by auto
  with True show ?thesis by (simp add: occupied_def)
next
  case False
  have "n div 2 ^ l * 2 ^ l \<le> n" by (rule div_times_less_eq_dividend)
  with False show ?thesis by (auto simp: occupied_def less_Suc_eq le_less)
qed

text \<open>The number of nodes of level \<open>l\<close> above some of \<open>n\<close> leaves.\<close>

primrec layer_count :: "nat \<Rightarrow> nat \<Rightarrow> nat" where
  "layer_count n 0 = n"
| "layer_count n (Suc l) = (layer_count n l + 1) div 2"

lemma layer_count_occupied: "i < layer_count n l \<longleftrightarrow> occupied n l i"
proof (induction l arbitrary: i)
  case 0
  then show ?case by (simp add: occupied_def)
next
  case (Suc l)
  have "i < (layer_count n l + 1) div 2 \<longleftrightarrow> 2 * i < layer_count n l" by auto
  also have "\<dots> \<longleftrightarrow> occupied n l (2 * i)" by (rule Suc.IH)
  finally show ?case by (simp add: occupied_def mult.assoc mult.left_commute)
qed

lemma layer_count_0 [simp]: "layer_count 0 l = 0"
  by (induction l) auto

text \<open>The stored part of a level, as the two trees that keep whole layers have it; what lies beyond is
  read as the value of an empty subtree.\<close>

definition spec_layer :: "('d \<Rightarrow> 'd \<Rightarrow> 'd) \<Rightarrow> 'd \<Rightarrow> 'd list \<Rightarrow> nat \<Rightarrow> 'd list" where
  "spec_layer H z xs l = map (node H z xs l) [0..<layer_count (length xs) l]"

lemma length_spec_layer [simp]: "length (spec_layer H z xs l) = layer_count (length xs) l"
  by (simp add: spec_layer_def)

lemma spec_layer_get:
  "(if i < length (spec_layer H z xs l) then spec_layer H z xs l ! i else empty_node H z l) = node H z xs l i"
proof (cases "i < layer_count (length xs) l")
  case True
  then show ?thesis by (simp add: spec_layer_def)
next
  case False
  then have "length xs \<le> i * 2 ^ l" by (simp add: layer_count_occupied occupied_def)
  from node_empty [OF this] False show ?thesis by simp
qed

lemma spec_layer_0 [simp]: "spec_layer H z xs 0 = xs"
  by (rule nth_equalityI) (auto simp: spec_layer_def)

lemma spec_layer_empty: "spec_layer H z xs l = [] \<longleftrightarrow> xs = []"
proof -
  have "0 < layer_count (length xs) l \<longleftrightarrow> xs \<noteq> []" by (simp add: layer_count_occupied occupied_def)
  then show ?thesis unfolding length_0_conv [symmetric] length_spec_layer by (metis length_0_conv neq0_conv)
qed

subsection \<open>Authentication paths\<close>

definition sibling :: "nat \<Rightarrow> nat" where
  "sibling i = (if even i then i + 1 else i - 1)"

text \<open>
  The verification loop of \<open>MerkleProof(depth)\<close>: direction 0 keeps the running hash on the
  left, direction 1 puts it on the right.
\<close>

fun climb :: "('d \<Rightarrow> 'd \<Rightarrow> 'd) \<Rightarrow> 'd \<Rightarrow> ('d \<times> nat) list \<Rightarrow> 'd" where
  "climb H h [] = h"
| "climb H h ((s, b) # ps) = climb H (if b = 0 then H h s else H s h) ps"

definition auth_path :: "('d \<Rightarrow> 'd \<Rightarrow> 'd) \<Rightarrow> 'd \<Rightarrow> 'd list \<Rightarrow> nat \<Rightarrow> nat \<Rightarrow> ('d \<times> nat) list" where
  "auth_path H z xs depth i =
     map (\<lambda>l. (node H z xs l (sibling (i div 2 ^ l)), i div 2 ^ l mod 2)) [0..<depth]"

lemma length_auth_path [simp]: "length (auth_path H z xs depth i) = depth"
  by (simp add: auth_path_def)

lemma auth_path_bits: "b \<in> snd ` set (auth_path H z xs depth i) \<Longrightarrow> b = 0 \<or> b = 1"
  by (auto simp: auth_path_def)

lemma climb_append: "climb H h (ps @ qs) = climb H (climb H h ps) qs"
  by (induction H h ps rule: climb.induct) auto

text \<open>One step up: a node and its sibling hash to their parent.\<close>

lemma climb_step:
  "(if j mod 2 = 0 then H (node H z xs l j) (node H z xs l (sibling j))
    else H (node H z xs l (sibling j)) (node H z xs l j)) = node H z xs (Suc l) (j div 2)"
proof (cases "even j")
  case True
  then have "2 * (j div 2) = j" by simp
  with True show ?thesis by (simp add: sibling_def even_iff_mod_2_eq_zero)
next
  case False
  then have "2 * (j div 2) + 1 = j" by presburger
  moreover from this have "2 * (j div 2) = j - 1" by simp
  ultimately show ?thesis using False by (simp add: sibling_def even_iff_mod_2_eq_zero)
qed

lemma climb_auth_path:
  "climb H (node H z xs 0 i) (auth_path H z xs depth i) = node H z xs depth (i div 2 ^ depth)"
proof (induction depth)
  case 0
  show ?case by (simp add: auth_path_def)
next
  case (Suc d)
  have "auth_path H z xs (Suc d) i =
      auth_path H z xs d i @ [(node H z xs d (sibling (i div 2 ^ d)), i div 2 ^ d mod 2)]"
    by (simp add: auth_path_def)
  then show ?case
    using climb_step [of "i div 2 ^ d" H z xs d]
    by (simp add: climb_append Suc.IH div_two_power_Suc del: node.simps)
qed

text \<open>The path of a leaf of the tree leads to the root.\<close>

lemma auth_path_root:
  assumes "i < length xs" and "i < 2 ^ depth"
  shows "climb H (xs ! i) (auth_path H z xs depth i) = node H z xs depth 0"
  using climb_auth_path [of H z xs i depth] assms by simp

subsection \<open>The interface of an append-only tree\<close>

fun insert_all :: "('d \<Rightarrow> 's \<Rightarrow> ('e, 's) result) \<Rightarrow> 'd list \<Rightarrow> 's \<Rightarrow> ('e, 's) result" where
  "insert_all ins [] s = Inr s"
| "insert_all ins (c # cs) s = and_then (ins c s) (insert_all ins cs)"

locale merkle_accumulator =
  fixes H :: "'d \<Rightarrow> 'd \<Rightarrow> 'd" and z :: 'd and depth :: nat and capacity :: nat
    and rep :: "'s \<Rightarrow> 'd list \<Rightarrow> bool"
    and ins :: "'d \<Rightarrow> 's \<Rightarrow> ('e, 's) result"
    and root_of :: "'s \<Rightarrow> ('e, 'd) result"
  assumes root_of_rep: "rep s xs \<Longrightarrow> root_of s = Inr (node H z xs depth 0)"
    and ins_rep: "rep s xs \<Longrightarrow> length xs < capacity \<Longrightarrow> \<exists>s'. ins c s = Inr s' \<and> rep s' (xs @ [c])"
begin

lemma insert_all_rep:
  "rep s xs \<Longrightarrow> length xs + length cs \<le> capacity \<Longrightarrow>
   \<exists>s'. insert_all ins cs s = Inr s' \<and> rep s' (xs @ cs)"
proof (induction cs arbitrary: s xs)
  case Nil
  then show ?case by simp
next
  case (Cons c cs)
  obtain s1 where "ins c s = Inr s1" "rep s1 (xs @ [c])"
    using ins_rep [OF Cons.prems(1), of c] Cons.prems(2) by auto
  then show ?case using Cons.IH [of s1 "xs @ [c]"] Cons.prems(2) by simp
qed

lemma root_after_inserts:
  assumes "rep s []" and "length cs \<le> capacity"
  shows "\<exists>s'. insert_all ins cs s = Inr s' \<and> root_of s' = Inr (node H z cs depth 0)"
  using insert_all_rep [OF assms(1), of cs] assms(2) by (auto simp: root_of_rep)

end

text \<open>Two trees over the same hash: the same insertions give the same root.\<close>

locale mirrored_accumulators =
  chain: merkle_accumulator H z depth capacity rep ins root_of +
  mirror: merkle_accumulator H z depth capacity' rep' ins' root_of'
  for H :: "'d \<Rightarrow> 'd \<Rightarrow> 'd" and z :: 'd and depth :: nat
    and capacity :: nat and rep :: "'s \<Rightarrow> 'd list \<Rightarrow> bool"
    and ins :: "'d \<Rightarrow> 's \<Rightarrow> ('e, 's) result" and root_of :: "'s \<Rightarrow> ('e, 'd) result"
    and capacity' :: nat and rep' :: "'t \<Rightarrow> 'd list \<Rightarrow> bool"
    and ins' :: "'d \<Rightarrow> 't \<Rightarrow> ('f, 't) result" and root_of' :: "'t \<Rightarrow> ('f, 'd) result"
begin

lemma same_root:
  assumes "rep s xs" and "rep' t xs"
    and "length xs + length cs \<le> capacity" and "length xs + length cs \<le> capacity'"
  shows "\<exists>s' t' r. insert_all ins cs s = Inr s' \<and> insert_all ins' cs t = Inr t' \<and>
           root_of s' = Inr r \<and> root_of' t' = Inr r"
  using chain.insert_all_rep [OF assms(1,3)] mirror.insert_all_rep [OF assms(2,4)]
    chain.root_of_rep mirror.root_of_rep by blast

end

end
