(* ===== verification/PoolMerkle.thy ===== *)
theory PoolMerkle
  imports PoolStorage Poseidon MerkleSpec
begin

text \<open>
  \<open>contracts/mixer_pool/src/merkle.rs\<close>: the incremental Merkle tree kept in the contract's
  persistent storage, and the proof that its stored nodes are those of the complete tree of
  \<open>MerkleSpec\<close>.
\<close>

subsection \<open>The code\<close>

function zero_hash :: "('fr, 'c) field_crypto_scheme \<Rightarrow> u32 \<Rightarrow> bytes32" where
  "zero_hash c level =
     (if level = 0 then hash_single_bytes c (array_of (replicate 32 0))
      else let child = zero_hash c (level - 1) in hash_pair_bytes c child child)"
  by pat_completeness auto
termination
  by (relation "measure (\<lambda>(c, level). unat level)") (auto simp: unat_pred)

declare zero_hash.simps [simp del]

text \<open>\<open>get_merkle_node(..).unwrap_or_else(|| zero_hash(env, level))\<close>\<close>

definition node_or_zero :: "('fr, 'c) field_crypto_scheme \<Rightarrow> u32 \<Rightarrow> u32 \<Rightarrow> ('ev, 'z) pool_store \<Rightarrow> (MixerError, bytes32) result" where
  "node_or_zero c level index e =
     and_then (get_merkle_node level index e)
       (\<lambda>v. Inr (case v of None \<Rightarrow> zero_hash c level | Some hash \<Rightarrow> hash))"

text \<open>The loop \<open>for level in 0..depth\<close> of \<open>insert_leaf\<close>.\<close>

fun insert_levels :: "('fr, 'c) field_crypto_scheme \<Rightarrow> u32 list \<Rightarrow> u32 \<Rightarrow> bytes32 \<Rightarrow> ('ev, 'z) pool_store \<Rightarrow>
    (MixerError, bytes32 \<times> ('ev, 'z) pool_store) result" where
  "insert_levels c [] current_index current_hash e = Inr (current_hash, e)"
| "insert_levels c (level # levels) current_index current_hash e =
     and_then
       (if current_index mod 2 = 0
        then and_then (checked_add current_index 1) (\<lambda>i.
             and_then (node_or_zero c level i e) (\<lambda>right. Inr (current_hash, right)))
        else and_then (checked_sub current_index 1) (\<lambda>i.
             and_then (node_or_zero c level i e) (\<lambda>left. Inr (left, current_hash))))
       (\<lambda>(left, right).
          let hash = hash_pair_bytes c left right; index = current_index div 2
          in and_then (checked_add level 1) (\<lambda>up.
             insert_levels c levels index hash (set_merkle_node up index hash e)))"

definition insert_leaf :: "('fr, 'c) field_crypto_scheme \<Rightarrow> bytes32 \<Rightarrow> ('ev, 'z) pool_store \<Rightarrow>
    (MixerError, bytes32 \<times> ('ev, 'z) pool_store) result" where
  "insert_leaf c commitment e =
     and_then (get_tree_depth e) (\<lambda>depth.
     and_then (get_next_leaf_index e) (\<lambda>leaf_index.
     and_then (insert_levels c (u32_range 0 depth) leaf_index commitment
                 (set_merkle_node 0 leaf_index commitment e)) (\<lambda>(current_hash, e).
     and_then (checked_add leaf_index 1) (\<lambda>next.
     Inr (current_hash, set_next_leaf_index next e)))))"

definition get_current_root :: "('fr, 'c) field_crypto_scheme \<Rightarrow> ('ev, 'z) pool_store \<Rightarrow> (MixerError, bytes32) result" where
  "get_current_root c e =
     and_then (get_tree_depth e) (\<lambda>depth. node_or_zero c depth 0 e)"

subsection \<open>What the stored tree represents\<close>

definition zero_leaf :: "('fr, 'c) field_crypto_scheme \<Rightarrow> bytes32" where
  "zero_leaf c = hash_single_bytes c (array_of (replicate 32 0))"

abbreviation tree_node :: "('fr, 'c) field_crypto_scheme \<Rightarrow> bytes32 list \<Rightarrow> nat \<Rightarrow> nat \<Rightarrow> bytes32" where
  "tree_node c \<equiv> node (hash_pair_bytes c) (zero_leaf c)"

abbreviation tree_root :: "('fr, 'c) field_crypto_scheme \<Rightarrow> nat \<Rightarrow> bytes32 list \<Rightarrow> bytes32" where
  "tree_root c depth xs \<equiv> tree_node c xs depth 0"

lemma zero_hash_eq: "zero_hash c level = empty_node (hash_pair_bytes c) (zero_leaf c) (unat level)"
proof (induction c level rule: zero_hash.induct)
  case (1 c level)
  show ?case
  proof (cases "level = 0")
    case True
    then show ?thesis by (simp add: zero_hash.simps [of c 0] zero_leaf_def)
  next
    case False
    then have "unat level = Suc (unat (level - 1))"
      using unat_pred [of level] by simp
    with False 1 show ?thesis by (simp add: zero_hash.simps [of c level] Let_def)
  qed
qed

text \<open>
  The stored nodes while a leaf \<open>x\<close> is being inserted after \<open>xs\<close>: up to level \<open>k\<close> they are
  those of \<open>xs @ [x]\<close>, above it still those of \<open>xs\<close>. A node is stored exactly when a leaf
  lies below it.
\<close>

definition nodes_upto :: "('fr, 'c) field_crypto_scheme \<Rightarrow> nat \<Rightarrow> bytes32 list \<Rightarrow> bytes32 list \<Rightarrow> nat \<Rightarrow> ('ev, 'z) pool_store \<Rightarrow> bool" where
  "nodes_upto c depth xs ys k e \<longleftrightarrow>
     (\<forall>l i. pers_get (MerkleNode l i) e =
        (let ls = (if unat l \<le> k then ys else xs)
         in if unat l \<le> depth \<and> occupied (length ls) (unat l) (unat i)
            then Some (VBytes (tree_node c ls (unat l) (unat i))) else None))"

definition nodes_rep :: "('fr, 'c) field_crypto_scheme \<Rightarrow> nat \<Rightarrow> bytes32 list \<Rightarrow> ('ev, 'z) pool_store \<Rightarrow> bool" where
  "nodes_rep c depth xs e \<longleftrightarrow>
     (\<forall>l i. pers_get (MerkleNode l i) e =
        (if unat l \<le> depth \<and> occupied (length xs) (unat l) (unat i)
         then Some (VBytes (tree_node c xs (unat l) (unat i))) else None))"

definition tree_rep :: "('fr, 'c) field_crypto_scheme \<Rightarrow> u32 \<Rightarrow> ('ev, 'z) pool_store \<Rightarrow> bytes32 list \<Rightarrow> bool" where
  "tree_rep c depth e xs \<longleftrightarrow>
     inst_get TreeDepth e = Some (VU32 depth) \<and>
     inst_get NextLeafIndex e = Some (VU32 (word_of_nat (length xs))) \<and>
     length xs < 2 ^ 32 \<and> length xs \<le> 2 ^ unat depth \<and>
     nodes_rep c (unat depth) xs e"

lemma node_or_zero_rep:
  assumes "nodes_upto c depth xs ys k e" and "unat level \<le> k" and "k \<le> depth"
  shows "node_or_zero c level index e = Inr (tree_node c ys (unat level) (unat index))"
proof (cases "occupied (length ys) (unat level) (unat index)")
  case True
  with assms show ?thesis
    by (simp add: node_or_zero_def pool_storage_defs nodes_upto_def)
next
  case False
  then have "tree_node c ys (unat level) (unat index) = zero_hash c level"
    by (simp add: zero_hash_eq node_empty occupied_def)
  with False assms show ?thesis
    by (simp add: node_or_zero_def pool_storage_defs nodes_upto_def)
qed

subsection \<open>The insertion loop\<close>

lemma set_merkle_node_eq:
  "set_merkle_node l i hash e = e\<lparr>persistent_store := (persistent_store e)(MerkleNode l i \<mapsto> VBytes hash)\<rparr>"
  by (simp add: set_merkle_node_def pers_set_def)

lemma nodes_upto_step:
  assumes nodes: "nodes_upto c depth xs (xs @ [x]) k e"
    and idx: "unat index = length xs div 2 ^ Suc k" and lev: "unat level = Suc k" "Suc k \<le> depth"
  shows "nodes_upto c depth xs (xs @ [x]) (Suc k)
           (set_merkle_node level index (tree_node c (xs @ [x]) (Suc k) (length xs div 2 ^ Suc k)) e)"
  unfolding nodes_upto_def
proof (intro allI)
  fix l i :: u32
  let ?v = "tree_node c (xs @ [x]) (Suc k) (length xs div 2 ^ Suc k)"
  show "pers_get (MerkleNode l i) (set_merkle_node level index ?v e) =
        (let ls = (if unat l \<le> Suc k then xs @ [x] else xs)
         in if unat l \<le> depth \<and> occupied (length ls) (unat l) (unat i)
            then Some (VBytes (tree_node c ls (unat l) (unat i))) else None)"
  proof (cases "l = level")
    case True
    show ?thesis
    proof (cases "i = index")
      case True
      with \<open>l = level\<close> idx lev show ?thesis
        by (simp add: set_merkle_node_def occupied_Suc del: node.simps power_Suc)
    next
      case False
      then have "unat i \<noteq> length xs div 2 ^ Suc k" using idx by (metis word_unat_eq_iff)
      then have "tree_node c (xs @ [x]) (Suc k) (unat i) = tree_node c xs (Suc k) (unat i)"
        and "occupied (Suc (length xs)) (Suc k) (unat i) = occupied (length xs) (Suc k) (unat i)"
        by (simp_all add: node_append_other occupied_Suc del: node.simps power_Suc)
      with False \<open>l = level\<close> lev nodes show ?thesis
        by (simp add: nodes_upto_def set_merkle_node_def Let_def del: node.simps)
    qed
  next
    case False
    then have "unat l \<noteq> Suc k" using lev(1) by (metis word_unat_eq_iff)
    with False nodes show ?thesis
      unfolding nodes_upto_def by (simp add: set_merkle_node_def Let_def le_Suc_eq)
  qed
qed

lemma insert_levels_step:
  fixes depth :: u32
  assumes "nodes_upto c (unat depth) xs (xs @ [x]) (unat level) e"
    and "unat level < unat depth"
  shows "insert_levels c (level # levels) index (tree_node c (xs @ [x]) (unat level) (unat index)) e =
    (let hash = tree_node c (xs @ [x]) (unat (level + 1)) (unat (index div 2))
     in insert_levels c levels (index div 2) hash (set_merkle_node (level + 1) (index div 2) hash e))"
proof -
  note lev = u32_less_max [OF assms(2)]
  note sib = node_or_zero_rep [OF assms(1) order.refl less_imp_le [OF assms(2)]]
  note par = climb_step [of "unat index" "hash_pair_bytes c" "zero_leaf c" "xs @ [x]" "unat level"]
  note arith = lev u32_mod2 unat_add_one [OF lev] checked_add_one [OF lev] unat_div2
    sibling_def even_iff_mod_2_eq_zero
  show ?thesis
  proof (cases "even (unat index)")
    case True
    note idx = u32_even_succ [OF True]
    show ?thesis using True par
      by (simp add: sib arith unat_add_one [OF idx] checked_add_one [OF idx] Let_def del: node.simps)
  next
    case False
    then have "index \<noteq> 0" by auto
    then show ?thesis using False par
      by (simp add: sib arith unat_pred checked_sub_one Let_def del: node.simps)
  qed
qed

lemma insert_levels_ok:
  assumes "nodes_upto c (unat depth) xs (xs @ [x]) (unat level) e"
    and "unat level \<le> unat depth" and "unat index = length xs div 2 ^ unat level"
  shows "\<exists>m. insert_levels c (u32_range level depth) index (tree_node c (xs @ [x]) (unat level) (unat index)) e =
      Inr (tree_node c (xs @ [x]) (unat depth) (length xs div 2 ^ unat depth), e\<lparr>persistent_store := m\<rparr>) \<and>
    nodes_upto c (unat depth) xs (xs @ [x]) (unat depth) (e\<lparr>persistent_store := m\<rparr>) \<and>
    (\<forall>k. (\<forall>l i. k \<noteq> MerkleNode l i) \<longrightarrow> m k = persistent_store e k)"
  using assms
proof (induction "unat depth - unat level" arbitrary: level index e)
  case 0
  then have "unat level = unat depth" by simp
  with 0 show ?case by (intro exI [of _ "persistent_store e"]) simp
next
  case (Suc d)
  then have lt: "unat level < unat depth" by simp
  have lev: "unat (level + 1) = Suc (unat level)" using u32_less_max [OF lt] by (rule unat_add_one)
  have idx: "unat (index div 2) = length xs div 2 ^ Suc (unat level)"
    using Suc.prems(3) by (simp add: u32_simps div_two_power_Suc)
  let ?h = "tree_node c (xs @ [x]) (unat (level + 1)) (unat (index div 2))"
  let ?e = "set_merkle_node (level + 1) (index div 2) ?h e"
  have d: "d = unat depth - unat (level + 1)" and le: "unat (level + 1) \<le> unat depth"
    using Suc.hyps(2) lt lev by simp_all
  have nodes': "nodes_upto c (unat depth) xs (xs @ [x]) (unat (level + 1)) ?e"
    unfolding lev idx using lt by (intro nodes_upto_step [OF Suc.prems(1)] idx lev) simp
  have idx': "unat (index div 2) = length xs div 2 ^ unat (level + 1)"
    unfolding lev by (rule idx)
  obtain m where m: "insert_levels c (u32_range (level + 1) depth) (index div 2) ?h ?e =
      Inr (tree_node c (xs @ [x]) (unat depth) (length xs div 2 ^ unat depth), ?e\<lparr>persistent_store := m\<rparr>)"
    and nodes: "nodes_upto c (unat depth) xs (xs @ [x]) (unat depth) (?e\<lparr>persistent_store := m\<rparr>)"
    and frame: "\<forall>k. (\<forall>l i. k \<noteq> MerkleNode l i) \<longrightarrow> m k = persistent_store ?e k"
    using Suc.hyps(1) [OF d nodes' le idx'] by blast
  have store: "?e\<lparr>persistent_store := m\<rparr> = e\<lparr>persistent_store := m\<rparr>"
    by (simp add: set_merkle_node_eq)
  show ?case
  proof (intro exI [of _ m] conjI)
    show "insert_levels c (u32_range level depth) index (tree_node c (xs @ [x]) (unat level) (unat index)) e =
        Inr (tree_node c (xs @ [x]) (unat depth) (length xs div 2 ^ unat depth), e\<lparr>persistent_store := m\<rparr>)"
      unfolding u32_range_step [OF lt] insert_levels_step [OF Suc.prems(1) lt] Let_def
      by (simp only: m store)
    show "nodes_upto c (unat depth) xs (xs @ [x]) (unat depth) (e\<lparr>persistent_store := m\<rparr>)"
      using nodes by (simp only: store)
    show "\<forall>k. (\<forall>l i. k \<noteq> MerkleNode l i) \<longrightarrow> m k = persistent_store e k"
      using frame by (simp add: set_merkle_node_eq)
  qed
qed

subsection \<open>Inserting a leaf\<close>

text \<open>The number of leaves \<open>deposit\<close> admits: all of them, but for depth 32 one less.\<close>

definition tree_capacity :: "u32 \<Rightarrow> nat" where
  "tree_capacity depth = min (2 ^ unat depth) (2 ^ 32 - 1)"

lemma nodes_upto_start:
  assumes "nodes_rep c depth xs e" and "unat index = length xs"
  shows "nodes_upto c depth xs (xs @ [x]) 0 (set_merkle_node 0 index x e)"
  unfolding nodes_upto_def
proof (intro allI)
  fix l i :: u32
  show "pers_get (MerkleNode l i) (set_merkle_node 0 index x e) =
        (let ls = (if unat l \<le> 0 then xs @ [x] else xs)
         in if unat l \<le> depth \<and> occupied (length ls) (unat l) (unat i)
            then Some (VBytes (tree_node c ls (unat l) (unat i))) else None)"
  proof (cases "l = 0")
    case True
    have "i = index \<longleftrightarrow> unat i = length xs" using assms(2) by (metis word_unat_eq_iff)
    with True assms(1) show ?thesis
      by (auto simp: nodes_rep_def set_merkle_node_def occupied_def nth_append)
  next
    case False
    then have "unat l \<noteq> 0" by (simp add: unat_eq_zero)
    with False assms(1) show ?thesis
      by (simp add: nodes_rep_def set_merkle_node_def Let_def)
  qed
qed

lemma nodes_upto_finish:
  "nodes_upto c depth xs ys depth e \<Longrightarrow> nodes_rep c depth ys e"
  unfolding nodes_upto_def nodes_rep_def Let_def by auto

lemma insert_leaf_ok:
  assumes rep: "tree_rep c depth e xs" and room: "length xs < tree_capacity depth"
  shows "\<exists>m. insert_leaf c x e =
      Inr (tree_root c (unat depth) (xs @ [x]),
           set_next_leaf_index (word_of_nat (Suc (length xs))) (e\<lparr>persistent_store := m\<rparr>)) \<and>
    nodes_rep c (unat depth) (xs @ [x]) (e\<lparr>persistent_store := m\<rparr>) \<and>
    (\<forall>k. (\<forall>l i. k \<noteq> MerkleNode l i) \<longrightarrow> m k = persistent_store e k)"
proof -
  let ?n = "word_of_nat (length xs) :: u32"
  let ?e = "set_merkle_node 0 ?n x e"
  have n: "unat ?n = length xs" "unat ?n < 4294967295"
    using room by (simp_all add: unat_of_nat tree_capacity_def)
  have small: "length xs < 2 ^ unat depth" using room by (simp add: tree_capacity_def)
  have "nodes_rep c (unat depth) xs e" using rep by (simp add: tree_rep_def)
  from nodes_upto_start [OF this n(1)]
  have start: "nodes_upto c (unat depth) xs (xs @ [x]) (unat (0 :: u32)) ?e" by simp
  obtain m where m: "insert_levels c (u32_range 0 depth) ?n
        (tree_node c (xs @ [x]) (unat (0 :: u32)) (unat ?n)) ?e =
      Inr (tree_node c (xs @ [x]) (unat depth) (length xs div 2 ^ unat depth), ?e\<lparr>persistent_store := m\<rparr>)"
    and nodes: "nodes_upto c (unat depth) xs (xs @ [x]) (unat depth) (?e\<lparr>persistent_store := m\<rparr>)"
    and frame: "\<forall>k. (\<forall>l i. k \<noteq> MerkleNode l i) \<longrightarrow> m k = persistent_store ?e k"
    using insert_levels_ok [OF start] n by auto
  have "insert_levels c (u32_range 0 depth) ?n x ?e =
      Inr (tree_root c (unat depth) (xs @ [x]), e\<lparr>persistent_store := m\<rparr>)"
    using m small n(1) by (simp add: set_merkle_node_eq)
  moreover have "?n + 1 = word_of_nat (Suc (length xs))" by simp
  ultimately have "insert_leaf c x e =
      Inr (tree_root c (unat depth) (xs @ [x]),
           set_next_leaf_index (word_of_nat (Suc (length xs))) (e\<lparr>persistent_store := m\<rparr>))"
    using rep
    by (simp add: insert_leaf_def tree_rep_def get_tree_depth_def get_next_leaf_index_def
        checked_add_one [OF n(2)] add.commute)
  moreover have "nodes_rep c (unat depth) (xs @ [x]) (e\<lparr>persistent_store := m\<rparr>)"
    using nodes_upto_finish [OF nodes] by (simp add: set_merkle_node_eq)
  ultimately show ?thesis using frame by (intro exI [of _ m]) (simp add: set_merkle_node_eq)
qed

lemma tree_rep_insert:
  assumes rep: "tree_rep c depth e xs" and room: "length xs < tree_capacity depth"
    and nodes: "nodes_rep c (unat depth) (xs @ [x]) (e\<lparr>persistent_store := m\<rparr>)"
  shows "tree_rep c depth (set_next_leaf_index (word_of_nat (Suc (length xs))) (e\<lparr>persistent_store := m\<rparr>)) (xs @ [x])"
  using assms unfolding tree_rep_def nodes_rep_def tree_capacity_def
  by (auto simp: set_next_leaf_index_def inst_get_def inst_set_def pers_get_def)

lemma get_current_root_rep:
  assumes "tree_rep c depth e xs"
  shows "get_current_root c e = Inr (tree_root c (unat depth) xs)"
proof -
  have "nodes_upto c (unat depth) xs xs (unat depth) e"
    using assms by (simp add: tree_rep_def nodes_rep_def nodes_upto_def)
  from node_or_zero_rep [OF this, of depth 0] assms show ?thesis
    by (simp add: get_current_root_def tree_rep_def get_tree_depth_def)
qed

definition insert_leaf_only :: "('fr, 'c) field_crypto_scheme \<Rightarrow> bytes32 \<Rightarrow> ('ev, 'z) pool_store \<Rightarrow>
    (MixerError, ('ev, 'z) pool_store) result" where
  "insert_leaf_only c x e = and_then (insert_leaf c x e) (\<lambda>(_, e'). Inr e')"

text \<open>The stored tree provides the interface of an append-only Merkle tree.\<close>

interpretation chain_tree: merkle_accumulator
  "hash_pair_bytes c" "zero_leaf c" "unat depth" "tree_capacity depth"
  "tree_rep c depth" "insert_leaf_only c" "get_current_root c"
  for c :: "('fr, 'c) field_crypto_scheme" and depth :: u32
proof
  fix e :: "('ev, 'z) pool_store" and xs x
  show "tree_rep c depth e xs \<Longrightarrow> get_current_root c e = Inr (tree_root c (unat depth) xs)"
    by (rule get_current_root_rep)
  assume rep: "tree_rep c depth e xs" and room: "length xs < tree_capacity depth"
  show "\<exists>e'. insert_leaf_only c x e = Inr e' \<and> tree_rep c depth e' (xs @ [x])"
    using insert_leaf_ok [OF rep room, of x] tree_rep_insert [OF rep room, of x]
    by (auto simp: insert_leaf_only_def)
qed

end
