(* ===== verification/VkConstants.thy ===== *)
theory VkConstants
  imports Soroban
begin

text \<open>
  The data types of \<open>contracts/mixer_pool/src/verifier.rs\<close> and the verification key compiled
  into the contract, \<open>contracts/mixer_pool/src/vk_constants.rs\<close>, byte for byte.
\<close>

definition NUM_PUBLIC_INPUTS :: nat where "NUM_PUBLIC_INPUTS = 5"

record G1Point =
  g1x :: bytes32
  g1y :: bytes32

record G2Point =
  x_c0 :: bytes32
  x_c1 :: bytes32
  y_c0 :: bytes32
  y_c1 :: bytes32

record VerifyingKey =
  raw_alpha_g1 :: G1Point
  raw_beta_g2 :: G2Point
  raw_gamma_g2 :: G2Point
  raw_delta_g2 :: G2Point
  raw_ic :: "G1Point list"

subsection \<open>The constants\<close>

definition vk_alpha_g1 :: G1Point where
  "vk_alpha_g1 =
     \<lparr>g1x = array_of
        [0x04, 0x2b, 0xd9, 0x28, 0xad, 0x2f, 0x90, 0x4f, 0x9a, 0x15, 0x09, 0x8a, 0xcc, 0x4c, 0xc0, 0xc4,
         0xa1, 0xf7, 0xb5, 0x49, 0x3b, 0x3a, 0xd1, 0x9b, 0x36, 0x67, 0xdf, 0xd6, 0x01, 0xec, 0xe2, 0x1b],
      g1y = array_of
        [0x20, 0x97, 0xd2, 0x70, 0xf6, 0x94, 0xd4, 0xcd, 0xb3, 0x74, 0x03, 0x8c, 0x53, 0x65, 0xba, 0xa2,
         0x0b, 0x22, 0xbc, 0x54, 0xc2, 0xb6, 0x6f, 0xc8, 0x2c, 0xba, 0x8f, 0x67, 0xb2, 0x03, 0x29, 0x70]\<rparr>"

definition vk_beta_g2 :: G2Point where
  "vk_beta_g2 =
     \<lparr>x_c0 = array_of
        [0x12, 0xae, 0x3b, 0xcf, 0xf8, 0x9e, 0x74, 0xcf, 0x32, 0x17, 0x6c, 0xc1, 0x59, 0x9d, 0xbc, 0x53,
         0xf1, 0x86, 0xe4, 0x13, 0xb2, 0x72, 0xe6, 0xbf, 0xcf, 0x47, 0xa1, 0xd3, 0xfa, 0xdb, 0xad, 0x6e],
      x_c1 = array_of
        [0x13, 0x4b, 0xfe, 0x9f, 0xa7, 0x6c, 0x91, 0x56, 0x42, 0xb9, 0x10, 0x4e, 0xd7, 0x26, 0x72, 0xca,
         0x66, 0xcd, 0x77, 0x88, 0xe9, 0x2a, 0xd0, 0x26, 0xa8, 0x3e, 0xfc, 0x5e, 0xef, 0x1e, 0xbe, 0x52],
      y_c0 = array_of
        [0x1e, 0xb9, 0x2f, 0xfd, 0xff, 0x4f, 0xed, 0x2a, 0x0f, 0x44, 0x93, 0xda, 0x4f, 0x95, 0x7e, 0xbd,
         0x44, 0x3a, 0xbd, 0x4f, 0x98, 0x55, 0x41, 0x67, 0x53, 0xf0, 0xec, 0xe2, 0x32, 0x0e, 0x89, 0x4c],
      y_c1 = array_of
        [0x05, 0x36, 0x2d, 0x1c, 0x92, 0x10, 0xd6, 0x3f, 0xb7, 0xa2, 0x98, 0xc4, 0x4f, 0x4a, 0x2c, 0x34,
         0x4c, 0x15, 0xbc, 0x87, 0x37, 0x16, 0x3a, 0xff, 0xb9, 0x0f, 0xcb, 0x37, 0x7b, 0xb5, 0xa7, 0xbf]\<rparr>"

definition vk_gamma_g2 :: G2Point where
  "vk_gamma_g2 =
     \<lparr>x_c0 = array_of
        [0x19, 0x8e, 0x93, 0x93, 0x92, 0x0d, 0x48, 0x3a, 0x72, 0x60, 0xbf, 0xb7, 0x31, 0xfb, 0x5d, 0x25,
         0xf1, 0xaa, 0x49, 0x33, 0x35, 0xa9, 0xe7, 0x12, 0x97, 0xe4, 0x85, 0xb7, 0xae, 0xf3, 0x12, 0xc2],
      x_c1 = array_of
        [0x18, 0x00, 0xde, 0xef, 0x12, 0x1f, 0x1e, 0x76, 0x42, 0x6a, 0x00, 0x66, 0x5e, 0x5c, 0x44, 0x79,
         0x67, 0x43, 0x22, 0xd4, 0xf7, 0x5e, 0xda, 0xdd, 0x46, 0xde, 0xbd, 0x5c, 0xd9, 0x92, 0xf6, 0xed],
      y_c0 = array_of
        [0x09, 0x06, 0x89, 0xd0, 0x58, 0x5f, 0xf0, 0x75, 0xec, 0x9e, 0x99, 0xad, 0x69, 0x0c, 0x33, 0x95,
         0xbc, 0x4b, 0x31, 0x33, 0x70, 0xb3, 0x8e, 0xf3, 0x55, 0xac, 0xda, 0xdc, 0xd1, 0x22, 0x97, 0x5b],
      y_c1 = array_of
        [0x12, 0xc8, 0x5e, 0xa5, 0xdb, 0x8c, 0x6d, 0xeb, 0x4a, 0xab, 0x71, 0x80, 0x8d, 0xcb, 0x40, 0x8f,
         0xe3, 0xd1, 0xe7, 0x69, 0x0c, 0x43, 0xd3, 0x7b, 0x4c, 0xe6, 0xcc, 0x01, 0x66, 0xfa, 0x7d, 0xaa]\<rparr>"

definition vk_delta_g2 :: G2Point where
  "vk_delta_g2 =
     \<lparr>x_c0 = array_of
        [0x17, 0x06, 0x02, 0xca, 0xbe, 0x04, 0x64, 0xa7, 0x3c, 0x6b, 0x66, 0x27, 0x20, 0xac, 0xe4, 0x3c,
         0x29, 0x99, 0x8c, 0x39, 0x3e, 0xb8, 0xd2, 0xa3, 0x22, 0x2c, 0xc3, 0x4e, 0xe4, 0x83, 0x84, 0x49],
      x_c1 = array_of
        [0x01, 0x8a, 0xc8, 0x7c, 0xb0, 0xcb, 0x35, 0xf4, 0x8a, 0x3f, 0x45, 0x47, 0x3e, 0xa5, 0x1e, 0x6f,
         0x1d, 0xc9, 0x62, 0x75, 0xf3, 0xb3, 0xb7, 0x3c, 0x35, 0x8c, 0x67, 0x5e, 0xae, 0xf5, 0x74, 0xe7],
      y_c0 = array_of
        [0x15, 0x2a, 0x71, 0x88, 0x9a, 0xb8, 0x35, 0xfa, 0x42, 0x9e, 0x0c, 0x15, 0xe6, 0x3d, 0xed, 0x21,
         0x19, 0x9f, 0xa0, 0xa0, 0x3e, 0xc3, 0x28, 0x3c, 0xdf, 0xef, 0xa9, 0x5d, 0x25, 0xb5, 0x21, 0x6f],
      y_c1 = array_of
        [0x0b, 0xc3, 0x6a, 0xd5, 0xde, 0xa1, 0x54, 0xfc, 0x8b, 0x1e, 0x34, 0xef, 0x4e, 0x49, 0x02, 0xf7,
         0xcd, 0xba, 0xba, 0x05, 0xf4, 0xc0, 0xfe, 0x86, 0x4c, 0xe0, 0x1e, 0xe5, 0x02, 0xf5, 0xe6, 0x14]\<rparr>"

definition vk_ic_0 :: G1Point where
  "vk_ic_0 =
     \<lparr>g1x = array_of
        [0x2d, 0xee, 0x9d, 0x29, 0x3f, 0x3e, 0x16, 0x43, 0x60, 0x1d, 0x00, 0x18, 0x63, 0x6d, 0xc0, 0x4f,
         0x1a, 0x07, 0x3b, 0xbc, 0xdf, 0xf6, 0x8c, 0x92, 0x0d, 0xfe, 0x86, 0x23, 0x95, 0xde, 0x85, 0xcd],
      g1y = array_of
        [0x0d, 0xa5, 0x81, 0x4f, 0xfe, 0x7b, 0x4f, 0x85, 0xc7, 0xf5, 0x97, 0xe8, 0xfe, 0x10, 0x6c, 0xce,
         0xe7, 0xf2, 0x39, 0xad, 0x19, 0xed, 0xc0, 0xa8, 0xdf, 0x4b, 0x5f, 0x8a, 0x7d, 0x7e, 0x12, 0x5f]\<rparr>"

definition vk_ic_1 :: G1Point where
  "vk_ic_1 =
     \<lparr>g1x = array_of
        [0x1c, 0x44, 0x89, 0xed, 0x1b, 0x98, 0x52, 0xb7, 0x46, 0x7d, 0x7c, 0x0d, 0x59, 0xa9, 0xc8, 0x96,
         0xe9, 0x22, 0xe9, 0xf4, 0x19, 0x2a, 0x24, 0x9d, 0x76, 0xc3, 0xd3, 0xa6, 0x93, 0x2a, 0x0b, 0xbd],
      g1y = array_of
        [0x02, 0xcb, 0xea, 0xfa, 0xff, 0xf7, 0x27, 0x45, 0x4c, 0xaa, 0x00, 0x12, 0xe8, 0x16, 0x29, 0x66,
         0x75, 0x73, 0x35, 0x79, 0x51, 0xad, 0x7b, 0xac, 0xcc, 0x14, 0x6e, 0x2f, 0xd6, 0xd6, 0xcb, 0x2d]\<rparr>"

definition vk_ic_2 :: G1Point where
  "vk_ic_2 =
     \<lparr>g1x = array_of
        [0x29, 0x48, 0x91, 0xb0, 0x08, 0x46, 0x74, 0x43, 0xc7, 0xe7, 0xb7, 0xe7, 0x82, 0xf3, 0x41, 0xd9,
         0xe6, 0xad, 0x0b, 0x9e, 0x60, 0xb0, 0xed, 0x8a, 0xcd, 0x36, 0xa5, 0x6a, 0x90, 0x10, 0xf4, 0xbc],
      g1y = array_of
        [0x06, 0x6e, 0x1a, 0xd4, 0x48, 0xdd, 0x11, 0xbd, 0x0a, 0xc1, 0x53, 0x88, 0x2d, 0x89, 0x9d, 0x60,
         0xd0, 0x08, 0x2d, 0x1d, 0x15, 0xc5, 0x0b, 0x04, 0x82, 0xb6, 0xd4, 0x31, 0x13, 0x00, 0x44, 0x65]\<rparr>"

definition vk_ic_3 :: G1Point where
  "vk_ic_3 =
     \<lparr>g1x = array_of
        [0x1f, 0x08, 0xaa, 0x16, 0x25, 0x4f, 0x4e, 0xa9, 0x55, 0xa5, 0x2f, 0x34, 0x99, 0x8d, 0x03, 0x50,
         0x2d, 0x13, 0xcb, 0xf7, 0xf2, 0xf1, 0x91, 0xaa, 0x4f, 0x55, 0xb3, 0xc8, 0x2b, 0x31, 0xde, 0xf8],
      g1y = array_of
        [0x00, 0x31, 0x5c, 0x4d, 0x44, 0xe9, 0x0d, 0xc0, 0x79, 0x75, 0x9e, 0xd0, 0x65, 0xab, 0x8f, 0xfb,
         0x6b, 0x0a, 0xc3, 0xbc, 0x5d, 0x47, 0xa5, 0x26, 0x79, 0xfd, 0xd8, 0xf3, 0x31, 0x7a, 0x1d, 0x62]\<rparr>"

definition vk_ic_4 :: G1Point where
  "vk_ic_4 =
     \<lparr>g1x = array_of
        [0x20, 0x67, 0x5f, 0x96, 0x71, 0xb7, 0xaf, 0xb5, 0x9b, 0xe2, 0x0c, 0xc7, 0x9f, 0xf4, 0x8a, 0xc8,
         0x2d, 0x6c, 0xce, 0x93, 0x35, 0x9a, 0x74, 0x15, 0x67, 0x38, 0xc0, 0x0c, 0x8f, 0xa5, 0xc3, 0x57],
      g1y = array_of
        [0x04, 0x52, 0x66, 0xa7, 0x91, 0x34, 0x0a, 0xfa, 0x83, 0x26, 0xe4, 0x5e, 0x30, 0x83, 0x08, 0x04,
         0xda, 0xaf, 0x19, 0x61, 0xf8, 0xca, 0xd0, 0x69, 0x6c, 0x98, 0x35, 0xba, 0x5e, 0x9b, 0x31, 0xeb]\<rparr>"

definition vk_ic_5 :: G1Point where
  "vk_ic_5 =
     \<lparr>g1x = array_of
        [0x1b, 0xd2, 0x1c, 0xf0, 0xc7, 0xf4, 0x12, 0x93, 0xee, 0x12, 0x3d, 0xae, 0x3e, 0x79, 0x8d, 0xeb,
         0xf0, 0x34, 0x20, 0x61, 0x4e, 0x8a, 0xcc, 0x00, 0xbd, 0x61, 0x87, 0xaf, 0xbf, 0xe1, 0xb6, 0x16],
      g1y = array_of
        [0x18, 0x30, 0x04, 0xc8, 0x42, 0x42, 0x55, 0x56, 0xcb, 0x1e, 0x20, 0x61, 0xe2, 0x5a, 0xcc, 0xd4,
         0xb2, 0x5f, 0x53, 0xec, 0x02, 0x1d, 0x07, 0x31, 0xcb, 0x60, 0x85, 0x1a, 0x4b, 0x55, 0x5e, 0x7c]\<rparr>"

definition verification_key :: VerifyingKey where
  "verification_key =
     \<lparr>raw_alpha_g1 = vk_alpha_g1, raw_beta_g2 = vk_beta_g2, raw_gamma_g2 = vk_gamma_g2,
      raw_delta_g2 = vk_delta_g2,
      raw_ic = [vk_ic_0, vk_ic_1, vk_ic_2, vk_ic_3, vk_ic_4, vk_ic_5]\<rparr>"

lemmas vk_point_defs =
  vk_alpha_g1_def vk_beta_g2_def vk_gamma_g2_def vk_delta_g2_def
  vk_ic_0_def vk_ic_1_def vk_ic_2_def vk_ic_3_def vk_ic_4_def vk_ic_5_def

end
