(* ===== verification/Verifier.thy ===== *)
theory Verifier
  imports VkConstants Poseidon
begin

text \<open>
  \<open>contracts/mixer_pool/src/verifier.rs\<close>: decoding of curve points, of the 256-byte proof and
  of the verification key, and the Groth16 check. The curve operations are arkworks' (the
  record \<open>curve\<close>); \<open>feature_vk\<close> is the Cargo feature that compiles the key in.
\<close>

type_synonym ('fr, 'fq, 'g1, 'g1p, 'g2, 'gt, 'z) bn254 =
  "('fr, 'fq, 'g1, 'g1p, 'g2, 'gt, 'z) curve_scheme"

subsection \<open>Point deserialization\<close>

definition bytes_to_fq :: "('fr, 'fq, 'g1, 'g1p, 'g2, 'gt, 'z) bn254 \<Rightarrow> bytes32 \<Rightarrow> 'fq" where
  "bytes_to_fq h bytes = (let le = rev (array_list bytes) in fq_from_le_bytes_mod_order h le)"

definition decode_g1 :: "('fr, 'fq, 'g1, 'g1p, 'g2, 'gt, 'z) bn254 \<Rightarrow> G1Point \<Rightarrow> 'g1 option" where
  "decode_g1 h point =
     (let x = bytes_to_fq h (g1x point);
          y = bytes_to_fq h (g1y point);
          affine = g1_new_unchecked h x y
      in if g1_is_on_curve h affine \<and> g1_in_subgroup h affine then Some affine else None)"

definition decode_g2 :: "('fr, 'fq, 'g1, 'g1p, 'g2, 'gt, 'z) bn254 \<Rightarrow> G2Point \<Rightarrow> 'g2 option" where
  "decode_g2 h point =
     (let x = (bytes_to_fq h (x_c0 point), bytes_to_fq h (x_c1 point));
          y = (bytes_to_fq h (y_c0 point), bytes_to_fq h (y_c1 point));
          affine = g2_new_unchecked h x y
      in if g2_is_on_curve h affine \<and> g2_in_subgroup h affine then Some affine else None)"

text \<open>\<open>bytes[a..b].try_into().ok()?\<close> into a \<open>[u8; 32]\<close>.\<close>

definition slice32 :: "bytes256 \<Rightarrow> nat \<Rightarrow> nat \<Rightarrow> bytes32 option" where
  "slice32 bytes a b =
     (let s = take (b - a) (drop a (array_list bytes))
      in if length s = 32 then Some (array_of s) else None)"

definition decode_proof :: "('fr, 'fq, 'g1, 'g1p, 'g2, 'gt, 'z) bn254 \<Rightarrow> bytes256 \<Rightarrow> ('g1 \<times> 'g2 \<times> 'g1) option" where
  "decode_proof h bytes = do {
     ax \<leftarrow> slice32 bytes 0 32;
     ay \<leftarrow> slice32 bytes 32 64;
     a \<leftarrow> decode_g1 h \<lparr>g1x = ax, g1y = ay\<rparr>;
     bx0 \<leftarrow> slice32 bytes 64 96;
     bx1 \<leftarrow> slice32 bytes 96 128;
     by0 \<leftarrow> slice32 bytes 128 160;
     by1 \<leftarrow> slice32 bytes 160 192;
     b \<leftarrow> decode_g2 h \<lparr>x_c0 = bx0, x_c1 = bx1, y_c0 = by0, y_c1 = by1\<rparr>;
     cx \<leftarrow> slice32 bytes 192 224;
     cy \<leftarrow> slice32 bytes 224 256;
     c \<leftarrow> decode_g1 h \<lparr>g1x = cx, g1y = cy\<rparr>;
     Some (a, b, c)
   }"

subsection \<open>Verification key loading\<close>

record ('g1, 'g2) DecodedVK =
  alpha_g1 :: 'g1
  beta_g2 :: 'g2
  gamma_g2 :: 'g2
  delta_g2 :: 'g2
  ic :: "'g1 list"

text \<open>\<open>for (i, point) in raw.ic.iter().enumerate() { ic[i] = decode_g1(point)?; }\<close>\<close>

fun decode_ic :: "('fr, 'fq, 'g1, 'g1p, 'g2, 'gt, 'z) bn254 \<Rightarrow> nat \<Rightarrow> G1Point list \<Rightarrow> 'g1 list \<Rightarrow> 'g1 list option" where
  "decode_ic h i [] arr = Some arr"
| "decode_ic h i (point # points) arr = do {
     p \<leftarrow> decode_g1 h point;
     decode_ic h (Suc i) points (arr[i := p])
   }"

definition load_verification_key :: "bool \<Rightarrow> ('fr, 'fq, 'g1, 'g1p, 'g2, 'gt, 'z) bn254 \<Rightarrow> ('g1, 'g2) DecodedVK option" where
  "load_verification_key feature_vk h =
     (if feature_vk then do {
        let raw = verification_key;
        alpha \<leftarrow> decode_g1 h (raw_alpha_g1 raw);
        beta \<leftarrow> decode_g2 h (raw_beta_g2 raw);
        gamma \<leftarrow> decode_g2 h (raw_gamma_g2 raw);
        delta \<leftarrow> decode_g2 h (raw_delta_g2 raw);
        pts \<leftarrow> decode_ic h 0 (raw_ic raw) (replicate (NUM_PUBLIC_INPUTS + 1) (g1_identity h));
        Some \<lparr>alpha_g1 = alpha, beta_g2 = beta, gamma_g2 = gamma, delta_g2 = delta, ic = pts\<rparr>
      } else None)"

subsection \<open>The check\<close>

text \<open>\<open>vk_x = IC[0] + sum of public_inputs[i] * IC[i + 1]\<close>\<close>

definition combine_ic :: "('fr, 'fq, 'g1, 'g1p, 'g2, 'gt, 'z) bn254 \<Rightarrow> 'g1 list \<Rightarrow> 'fr list \<Rightarrow> 'g1p" where
  "combine_ic h pts fr_inputs =
     fold (\<lambda>i vk_x. g1p_add h vk_x (g1_mul h (pts ! (i + 1)) (fr_inputs ! i)))
       [0..<NUM_PUBLIC_INPUTS] (g1_into_projective h (pts ! 0))"

definition verify_proof :: "bool \<Rightarrow> ('fr, 'fq, 'g1, 'g1p, 'g2, 'gt, 'z) bn254 \<Rightarrow> bytes256 \<Rightarrow> bytes32 list \<Rightarrow> bool" where
  "verify_proof feature_vk h proof_bytes public_inputs =
     (case decode_proof h proof_bytes of None \<Rightarrow> False | Some (a, b, c) \<Rightarrow>
      (case load_verification_key feature_vk h of None \<Rightarrow> False | Some vk \<Rightarrow>
       (let fr_inputs = map (\<lambda>input_bytes. fr_from_le_bytes_mod_order h (rev (array_list input_bytes))) public_inputs;
            vk_x_affine = g1p_into_affine h (combine_ic h (ic vk) fr_inputs);
            result = multi_pairing h
              [a, g1_neg h (alpha_g1 vk), g1_neg h vk_x_affine, g1_neg h c]
              [b, beta_g2 vk, gamma_g2 vk, delta_g2 vk]
        in gt_is_zero h result)))"

subsection \<open>Facts about the decoding\<close>

lemma slice32_eq: "a + 32 = b \<Longrightarrow> b \<le> 256 \<Longrightarrow> slice32 bytes a b = Some (array_of (take 32 (drop a (array_list bytes))))"
  by (auto simp: slice32_def Let_def)

lemma decode_ic_length: "decode_ic h i ps arr = Some out \<Longrightarrow> length out = length arr"
  by (induction h i ps arr rule: decode_ic.induct) (auto split: bind_splits)

text \<open>The 256 bytes of a proof are the eight coordinates, in the order of the comment.\<close>

definition encode_proof :: "G1Point \<Rightarrow> G2Point \<Rightarrow> G1Point \<Rightarrow> bytes256" where
  "encode_proof a b c = array_of (concat (map array_list
     [g1x a, g1y a, x_c0 b, x_c1 b, y_c0 b, y_c1 b, g1x c, g1y c]))"

lemma take_drop_concat32:
  fixes cs :: "bytes32 list"
  assumes "i < length cs"
  shows "take 32 (drop (32 * i) (concat (map array_list cs))) = array_list (cs ! i)"
  using assms
proof (induction cs arbitrary: i)
  case Nil
  then show ?case by simp
next
  case (Cons c cs)
  then show ?case by (cases i) auto
qed

lemma slice32_encode:
  fixes cs :: "bytes32 list"
  assumes "length cs = 8" and "i < 8" and "a = 32 * i" and "b = 32 * i + 32"
  shows "slice32 (array_of (concat (map array_list cs))) a b = Some (cs ! i)"
proof -
  have "length (concat (map array_list cs)) = sum_list (map (\<lambda>_. 32) cs)"
    by (simp add: length_concat comp_def)
  then have "length (concat (map array_list cs)) = 256"
    using assms(1) by (simp add: sum_list_triv)
  with assms take_drop_concat32 [of i cs] show ?thesis
    by (simp add: slice32_eq)
qed

lemma slice32_encode_proof:
  "slice32 (encode_proof a b c) 0 32 = Some (g1x a)"
  "slice32 (encode_proof a b c) 32 64 = Some (g1y a)"
  "slice32 (encode_proof a b c) 64 96 = Some (x_c0 b)"
  "slice32 (encode_proof a b c) 96 128 = Some (x_c1 b)"
  "slice32 (encode_proof a b c) 128 160 = Some (y_c0 b)"
  "slice32 (encode_proof a b c) 160 192 = Some (y_c1 b)"
  "slice32 (encode_proof a b c) 192 224 = Some (g1x c)"
  "slice32 (encode_proof a b c) 224 256 = Some (g1y c)"
proof -
  let ?cs = "[g1x a, g1y a, x_c0 b, x_c1 b, y_c0 b, y_c1 b, g1x c, g1y c]"
  have *: "slice32 (encode_proof a b c) (32 * i) (32 * i + 32) = Some (?cs ! i)" if "i < 8" for i
    unfolding encode_proof_def using that by (intro slice32_encode) simp_all
  from * [of 0] * [of 1] * [of 2] * [of 3] * [of 4] * [of 5] * [of 6] * [of 7]
  show
    "slice32 (encode_proof a b c) 0 32 = Some (g1x a)"
    "slice32 (encode_proof a b c) 32 64 = Some (g1y a)"
    "slice32 (encode_proof a b c) 64 96 = Some (x_c0 b)"
    "slice32 (encode_proof a b c) 96 128 = Some (x_c1 b)"
    "slice32 (encode_proof a b c) 128 160 = Some (y_c0 b)"
    "slice32 (encode_proof a b c) 160 192 = Some (y_c1 b)"
    "slice32 (encode_proof a b c) 192 224 = Some (g1x c)"
    "slice32 (encode_proof a b c) 224 256 = Some (g1y c)"
    by simp_all
qed

lemma point_eta [simp]:
  "\<lparr>g1x = g1x p, g1y = g1y p\<rparr> = p"
  "\<lparr>x_c0 = x_c0 q, x_c1 = x_c1 q, y_c0 = y_c0 q, y_c1 = y_c1 q\<rparr> = q"
  by (cases p; simp) (cases q; simp)

lemma decode_encode_proof:
  "decode_proof h (encode_proof a b c) =
     (case (decode_g1 h a, decode_g2 h b, decode_g1 h c) of
        (Some a', Some b', Some c') \<Rightarrow> Some (a', b', c') | _ \<Rightarrow> None)"
  by (simp add: decode_proof_def slice32_encode_proof split: option.split)

text \<open>The inputs enter the check only through their residues modulo the field order.\<close>

definition same_residues :: "bytes32 list \<Rightarrow> bytes32 list \<Rightarrow> bool" where
  "same_residues xs ys \<longleftrightarrow> list_all2 (\<lambda>x y. array_val x mod bn254_r = array_val y mod bn254_r) xs ys"

lemma verify_proof_residues:
  assumes "fr_laws h" and "same_residues xs ys"
  shows "verify_proof feature_vk h proof xs = verify_proof feature_vk h proof ys"
proof -
  have "map (bytes_to_fr h) xs = map (bytes_to_fr h) ys"
    using assms(2) unfolding same_residues_def
    by (induction rule: list_all2_induct) (simp_all add: bytes_to_fr_eq_iff [OF assms(1)])
  then have "map (\<lambda>b. fr_from_le_bytes_mod_order h (rev (array_list b))) xs =
      map (\<lambda>b. fr_from_le_bytes_mod_order h (rev (array_list b))) ys"
    by (simp only: bytes_to_fr_def [abs_def] Let_def)
  then show ?thesis unfolding verify_proof_def by (simp only:)
qed

lemma verify_proof_needs_key:
  "load_verification_key feature_vk h = None \<Longrightarrow> \<not> verify_proof feature_vk h proof xs"
  by (auto simp: verify_proof_def split: option.splits)

lemma load_without_feature [simp]: "load_verification_key False h = None"
  by (simp add: load_verification_key_def)

end
