(* ===== verification/RootWindow.thy ===== *)
theory RootWindow
  imports Prelude
begin

text \<open>
  The circular buffer behind the contract's root history: the slots after a sequence of
  writes, the window of the last \<open>N\<close> values they hold, and the interface the pool uses.
\<close>

text \<open>The slots after the values of a list were written one after the other, newest first.\<close>

fun ring_rev :: "nat \<Rightarrow> 'r list \<Rightarrow> nat \<Rightarrow> 'r option" where
  "ring_rev N [] = (\<lambda>_. None)"
| "ring_rev N (r # rs) = (ring_rev N rs)(length rs mod N \<mapsto> r)"

definition ring :: "nat \<Rightarrow> 'r list \<Rightarrow> nat \<Rightarrow> 'r option" where
  "ring N rs = ring_rev N (rev rs)"

definition window :: "nat \<Rightarrow> 'r list \<Rightarrow> 'r list" where
  "window N rs = drop (length rs - N) rs"

lemma ring_Nil [simp]: "ring N [] p = None"
  by (simp add: ring_def)

lemma ring_snoc: "ring N (rs @ [r]) = (ring N rs)(length rs mod N \<mapsto> r)"
  by (simp add: ring_def)

text \<open>A slot holds the youngest value written to it, which lies in the window.\<close>

lemma ring_eq_Some:
  assumes "0 < N"
  shows "ring N rs p = Some r \<longleftrightarrow>
    (\<exists>k. length rs - N \<le> k \<and> k < length rs \<and> k mod N = p \<and> rs ! k = r)"
proof (induction rs rule: rev_induct)
  case Nil
  show ?case by simp
next
  case (snoc x rs)
  let ?n = "length rs"
  show ?case
  proof (cases "p = ?n mod N")
    case True
    have "k = ?n" if "?n + 1 - N \<le> k" "k \<le> ?n" "k mod N = ?n mod N" for k
    proof (rule ccontr)
      assume "k \<noteq> ?n"
      with that have "k < ?n" "?n - k < N" by auto
      moreover have "N dvd ?n - k" using that(2,3) by (metis mod_eq_dvd_iff_nat)
      ultimately show False by (metis dvd_imp_le not_less zero_less_diff)
    qed
    then have "(\<exists>k. length (rs @ [x]) - N \<le> k \<and> k < length (rs @ [x]) \<and> k mod N = p \<and> (rs @ [x]) ! k = r)
        \<longleftrightarrow> x = r"
      using True assms by (auto simp: less_Suc_eq_le intro!: exI [of _ ?n]) (metis less_or_eq_imp_le nth_append_length)
    with True show ?thesis by (simp add: ring_snoc)
  next
    case False
    have shift: "?n + 1 - N \<le> k \<longleftrightarrow> ?n - N \<le> k" if "k mod N \<noteq> ?n mod N" "k < ?n" for k
    proof -
      have "k \<noteq> ?n - N" if "N \<le> ?n" using that \<open>k mod N \<noteq> ?n mod N\<close> by (metis le_mod_geq)
      with \<open>k < ?n\<close> show ?thesis by (cases "N \<le> ?n") auto
    qed
    have "(\<exists>k. length (rs @ [x]) - N \<le> k \<and> k < length (rs @ [x]) \<and> k mod N = p \<and> (rs @ [x]) ! k = r)
        \<longleftrightarrow> (\<exists>k. ?n - N \<le> k \<and> k < ?n \<and> k mod N = p \<and> rs ! k = r)"
    proof (rule ex_cong1)
      fix k
      show "length (rs @ [x]) - N \<le> k \<and> k < length (rs @ [x]) \<and> k mod N = p \<and> (rs @ [x]) ! k = r
        \<longleftrightarrow> ?n - N \<le> k \<and> k < ?n \<and> k mod N = p \<and> rs ! k = r"
        using False shift [of k] by (cases k ?n rule: linorder_cases) (auto simp: nth_append)
    qed
    moreover have "ring N (rs @ [x]) p = ring N rs p" using False by (simp add: ring_snoc)
    ultimately show ?thesis by (simp only: snoc.IH)
  qed
qed

lemma ring_slot_less: "0 < N \<Longrightarrow> ring N rs p = Some r \<Longrightarrow> p < N"
  by (auto simp: ring_eq_Some)

text \<open>The slots fill from the first one on, and stay filled.\<close>

lemma ring_filled:
  assumes "0 < N"
  shows "ring N rs p \<noteq> None \<longleftrightarrow> p < min N (length rs)"
proof (induction rs rule: rev_induct)
  case Nil
  then show ?case by simp
next
  case (snoc r rs)
  have "length rs mod N < N" using assms by simp
  then show ?case
    using snoc by (cases "length rs < N") (auto simp: ring_snoc less_Suc_eq simp del: mod_less_divisor)
qed

lemma length_ring_list:
  assumes "0 < N"
  shows "length (List.map_filter (ring N rs) [0..<N]) = min N (length rs)"
proof -
  have "length (List.map_filter (ring N rs) [0..<N]) = length (filter (\<lambda>p. p < min N (length rs)) [0..<N])"
    unfolding List.map_filter_def length_map comp_def ring_filled [OF assms] ..
  also have "\<dots> = card {p. p < N \<and> p < min N (length rs)}"
    by (simp add: distinct_card [symmetric])
  also have "{p. p < N \<and> p < min N (length rs)} = {..<min N (length rs)}" by auto
  finally show ?thesis by simp
qed

lemma set_window: "set (window N rs) = {rs ! k | k. length rs - N \<le> k \<and> k < length rs}"
proof -
  have "set (window N rs) = {rs ! (length rs - N + j) | j. j < length rs - (length rs - N)}"
    by (auto simp: window_def in_set_conv_nth)
  also have "\<dots> = {rs ! k | k. length rs - N \<le> k \<and> k < length rs}"
    by (auto intro: exI [of _ "k - (length rs - N)" for k]) (metis add.commute le_add_diff_inverse2 less_diff_conv)
  finally show ?thesis .
qed

lemma ran_ring: "0 < N \<Longrightarrow> (\<exists>p<N. ring N rs p = Some r) \<longleftrightarrow> r \<in> set (window N rs)"
  by (auto simp: ring_eq_Some set_window intro: mod_less_divisor)

lemma window_all: "length rs \<le> N \<Longrightarrow> window N rs = rs"
  by (simp add: window_def)

lemma length_window: "length (window N rs) = min N (length rs)"
  by (simp add: window_def)

lemma window_append: "window N (rs @ qs) = window (N - length qs) rs @ window N qs"
proof (cases "length qs \<le> N")
  case True
  then have "length rs + length qs - N = length rs - (N - length qs)" by simp
  with True show ?thesis by (simp add: window_def)
next
  case False
  then have "length rs \<le> length rs + length qs - N" and "N - length qs = 0"
    and "length rs + length qs - N - length rs = length qs - N" by simp_all
  then show ?thesis by (simp only: window_def drop_append length_append) simp
qed

subsection \<open>The interface\<close>

fun push_all :: "('r \<Rightarrow> 's \<Rightarrow> ('e, 's) result) \<Rightarrow> 'r list \<Rightarrow> 's \<Rightarrow> ('e, 's) result" where
  "push_all push [] s = Inr s"
| "push_all push (r # rs) s = and_then (push r s) (push_all push rs)"

locale root_window =
  fixes size :: nat and rep :: "'s \<Rightarrow> 'r list \<Rightarrow> bool"
    and push :: "'r \<Rightarrow> 's \<Rightarrow> ('e, 's) result" and known :: "'r \<Rightarrow> 's \<Rightarrow> ('e, bool) result"
  assumes push_rep: "rep s rs \<Longrightarrow> \<exists>s'. push r s = Inr s' \<and> rep s' (rs @ [r])"
    and known_rep: "rep s rs \<Longrightarrow> known r s = Inr (r \<in> set (window size rs))"
begin

lemma push_all_rep: "rep s rs \<Longrightarrow> \<exists>s'. push_all push qs s = Inr s' \<and> rep s' (rs @ qs)"
proof (induction qs arbitrary: s rs)
  case Nil
  then show ?case by simp
next
  case (Cons q qs)
  obtain s1 where "push q s = Inr s1" "rep s1 (rs @ [q])" using push_rep [OF Cons.prems] by blast
  then show ?case using Cons.IH [of s1 "rs @ [q]"] by simp
qed

text \<open>A root stays known while fewer than \<open>size\<close> roots follow it, and is forgotten after.\<close>

lemma known_after:
  assumes "rep s rs" and "length qs < size"
  shows "\<exists>s'. push_all push (r # qs) s = Inr s' \<and> known r s' = Inr True"
proof -
  obtain s' where "push_all push (r # qs) s = Inr s'" "rep s' (rs @ r # qs)"
    using push_all_rep [OF assms(1), of "r # qs"] by blast
  moreover have "r \<in> set (window size (rs @ r # qs))"
    using assms(2) by (auto simp: set_window intro!: exI [of _ "length rs"])
  ultimately show ?thesis by (auto simp: known_rep)
qed

lemma forgotten_after:
  assumes "rep s rs" and "size \<le> length qs" and "r \<notin> set qs"
  shows "\<exists>s'. push_all push qs s = Inr s' \<and> known r s' = Inr False"
proof -
  obtain s' where "push_all push qs s = Inr s'" "rep s' (rs @ qs)"
    using push_all_rep [OF assms(1), of qs] by blast
  moreover have "r \<notin> set (window size (rs @ qs))"
    using assms(2,3) by (auto simp: window_append window_def dest: in_set_dropD)
  ultimately show ?thesis by (auto simp: known_rep)
qed

end

end
