(* ===== verification/Pool.thy ===== *)
theory Pool
  imports PoolMerkle Verifier RootWindow
begin

text \<open>
  \<open>contracts/mixer_pool/src/lib.rs\<close>: the entry points of the pool contract and their internal
  helpers, one definition each, and the circular root history as an instance of the
  interface of \<open>RootWindow\<close>.
\<close>

text \<open>The two events, under their topics \<open>("deposit",)\<close> and \<open>("withdrawal",)\<close>.\<close>

datatype PoolEvent = DepositEvent bytes32 u32 | WithdrawalEvent bytes32

text \<open>The contract's environment, and the ledger of the token contracts it calls.\<close>

record 'l pool_env = "(DataKey, ScVal, PoolEvent) env" +
  ledger :: 'l

type_synonym ('ev, 'z) pstore = "('ev, 'z) pool_store"
type_synonym ('fr, 'fq, 'g1, 'g1p, 'g2, 'gt, 'l) pool_host = "('fr, 'fq, 'g1, 'g1p, 'g2, 'gt, 'l) host"

subsection \<open>Root history\<close>

definition push_root_history :: "bytes32 \<Rightarrow> ('ev, 'z) pool_store \<Rightarrow> (MixerError, ('ev, 'z) pool_store) result" where
  "push_root_history root e =
     and_then (get_root_history_size e) (\<lambda>history_size.
     and_then (get_root_history_index e) (\<lambda>current_index.
       let e = set_root_history_entry current_index root e in
     and_then (checked_add current_index 1) (\<lambda>succ_index.
     and_then (checked_rem succ_index history_size) (\<lambda>next_index.
       Inr (set_root_history_index next_index e)))))"

text \<open>The loop \<open>for i in 0..history_size\<close> of \<open>is_known_root\<close>.\<close>

fun scan_roots :: "bytes32 \<Rightarrow> u32 list \<Rightarrow> ('ev, 'z) pool_store \<Rightarrow> (MixerError, bool) result" where
  "scan_roots root [] e = Inr False"
| "scan_roots root (i # is) e =
     and_then (get_root_history_entry i e) (\<lambda>entry.
       case entry of
         Some stored_root \<Rightarrow> if stored_root = root then Inr True else scan_roots root is e
       | None \<Rightarrow> scan_roots root is e)"

definition is_known_root :: "bytes32 \<Rightarrow> ('ev, 'z) pool_store \<Rightarrow> (MixerError, bool) result" where
  "is_known_root root e =
     and_then (get_root_history_size e) (\<lambda>history_size. scan_roots root (u32_range 0 history_size) e)"

text \<open>The loop of \<open>get_root_history\<close>.\<close>

fun collect_roots :: "u32 list \<Rightarrow> bytes32 list \<Rightarrow> ('ev, 'z) pool_store \<Rightarrow> (MixerError, bytes32 list) result" where
  "collect_roots [] roots e = Inr roots"
| "collect_roots (i # is) roots e =
     and_then (get_root_history_entry i e) (\<lambda>entry.
       collect_roots is (case entry of Some root \<Rightarrow> roots @ [root] | None \<Rightarrow> roots) e)"

definition get_root_history :: "('ev, 'z) pool_store \<Rightarrow> (MixerError, bytes32 list) result" where
  "get_root_history e =
     and_then (get_root_history_size e) (\<lambda>history_size. collect_roots (u32_range 0 history_size) [] e)"

subsection \<open>Public inputs\<close>

text \<open>
  \<open>copy_into_slice\<close> panics when the string and the slice differ in length, so a strkey of
  more than 56 characters aborts.
\<close>

definition address_to_field_bytes :: "('fr, 'fq, 'g1, 'g1p, 'g2, 'gt, 'l) pool_host \<Rightarrow> Address \<Rightarrow> (MixerError, bytes32) result" where
  "address_to_field_bytes h addr =
     (let addr_str = strkey addr;
          copy_len = (if length addr_str > 56 then 56 else length addr_str)
      in if length addr_str \<noteq> copy_len then Inl Panic
         else (let buf = map (\<lambda>ch. word_of_nat (of_char ch)) addr_str @ replicate (56 - copy_len) 0;
                   raw = take copy_len buf
               in Inr (host_sha256 h raw)))"

definition fee_to_bytes :: "i128 \<Rightarrow> bytes32" where
  "fee_to_bytes fee = array_of (replicate 16 0 @ to_be_bytes 16 (unat fee))"

definition build_public_inputs :: "('fr, 'fq, 'g1, 'g1p, 'g2, 'gt, 'l) pool_host \<Rightarrow> bytes32 \<Rightarrow> bytes32 \<Rightarrow>
    Address \<Rightarrow> Address \<Rightarrow> i128 \<Rightarrow> (MixerError, bytes32 list) result" where
  "build_public_inputs h root nullifier_hash recipient relayer fee =
     and_then (address_to_field_bytes h recipient) (\<lambda>recipient_bytes.
     and_then (address_to_field_bytes h relayer) (\<lambda>relayer_bytes.
       Inr [root, nullifier_hash, recipient_bytes, relayer_bytes, fee_to_bytes fee]))"

subsection \<open>Entry points\<close>

text \<open>\<open>token_client.transfer(from, to, amount)\<close>, which traps when the token refuses.\<close>

definition transfer :: "('fr, 'fq, 'g1, 'g1p, 'g2, 'gt, 'l) pool_host \<Rightarrow> Address \<Rightarrow> Address \<Rightarrow> Address \<Rightarrow> i128 \<Rightarrow>
    'l pool_env \<Rightarrow> (MixerError, 'l pool_env) result" where
  "transfer h tok source target amount e =
     and_then (unwrap (token_transfer h tok (ledger e) source target amount))
       (\<lambda>l. Inr (e\<lparr>ledger := l\<rparr>))"

definition initialize :: "('fr, 'fq, 'g1, 'g1p, 'g2, 'gt, 'l) pool_host \<Rightarrow> (Address \<Rightarrow> bool) \<Rightarrow> Address \<Rightarrow> Address \<Rightarrow>
    i128 \<Rightarrow> i128 \<Rightarrow> u32 \<Rightarrow> u32 \<Rightarrow> 'l pool_env \<Rightarrow> (MixerError, 'l pool_env) result" where
  "initialize h auth admin token denomination max_fee tree_depth root_history_size e =
     and_then (is_initialized e) (\<lambda>init.
     if init then Inl (Err AlreadyInitialized)
     else if sint denomination \<le> 0 then Inl (Err InvalidDenomination)
     else if tree_depth = 0 \<or> tree_depth > 32 then Inl (Err InvalidTreeDepth)
     else if root_history_size = 0 then Inl (Err InvalidRootHistorySize)
     else
       and_then (require_auth auth admin) (\<lambda>_.
         let e = set_admin admin e;
             e = set_token token e;
             e = set_denomination denomination e;
             e = set_max_fee max_fee e;
             e = set_tree_depth tree_depth e;
             e = set_root_history_size root_history_size e;
             e = set_next_leaf_index 0 e;
             e = set_root_history_index 0 e
         in
         and_then (get_current_root h e) (\<lambda>initial_root.
         and_then (push_root_history initial_root e) (\<lambda>e.
         Inr (set_initialized e)))))"

definition deposit :: "('fr, 'fq, 'g1, 'g1p, 'g2, 'gt, 'l) pool_host \<Rightarrow> (Address \<Rightarrow> bool) \<Rightarrow> Address \<Rightarrow> bytes32 \<Rightarrow>
    'l pool_env \<Rightarrow> (MixerError, 'l pool_env) result" where
  "deposit h auth depositor commitment e =
     and_then (require_auth auth depositor) (\<lambda>_.
     and_then (is_commitment_inserted commitment e) (\<lambda>inserted.
     if inserted then Inl (Err DuplicateCommitment)
     else
       and_then (get_next_leaf_index e) (\<lambda>next_index.
       and_then (get_tree_depth e) (\<lambda>depth.
       let max_leaves = (case checked_shl_u32 1 depth of Some n \<Rightarrow> n | None \<Rightarrow> - 1) in
       if next_index \<ge> max_leaves then Inl (Err TreeFull)
       else
         and_then (get_denomination e) (\<lambda>denomination.
         and_then (get_token e) (\<lambda>token.
         and_then (transfer h token depositor (current_contract_address h) denomination e) (\<lambda>e.
         let e = set_commitment_inserted commitment e in
         and_then (insert_leaf h commitment e) (\<lambda>(new_root, e).
         and_then (push_root_history new_root e) (\<lambda>e.
         Inr (publish (DepositEvent commitment next_index) e))))))))))"

definition execute_withdrawal :: "('fr, 'fq, 'g1, 'g1p, 'g2, 'gt, 'l) pool_host \<Rightarrow> bytes32 \<Rightarrow> Address \<Rightarrow> Address \<Rightarrow> i128 \<Rightarrow>
    'l pool_env \<Rightarrow> (MixerError, 'l pool_env) result" where
  "execute_withdrawal h nullifier_hash recipient relayer fee e =
     (let e = set_nullifier_spent nullifier_hash e in
      and_then (get_denomination e) (\<lambda>denomination.
      and_then (get_token e) (\<lambda>token.
      and_then (checked_sub_i128 denomination fee) (\<lambda>withdrawal_amount.
      and_then (transfer h token (current_contract_address h) recipient withdrawal_amount e) (\<lambda>e.
      and_then (if sint fee > 0 then transfer h token (current_contract_address h) relayer fee e else Inr e) (\<lambda>e.
      Inr (publish (WithdrawalEvent nullifier_hash) e)))))))"

definition withdraw :: "bool \<Rightarrow> ('fr, 'fq, 'g1, 'g1p, 'g2, 'gt, 'l) pool_host \<Rightarrow> bytes256 \<Rightarrow> bytes32 \<Rightarrow> bytes32 \<Rightarrow>
    Address \<Rightarrow> Address \<Rightarrow> i128 \<Rightarrow> 'l pool_env \<Rightarrow> (MixerError, 'l pool_env) result" where
  "withdraw feature_vk h proof root nullifier_hash recipient relayer fee e =
     and_then (is_known_root root e) (\<lambda>known.
     if \<not> known then Inl (Err InvalidRoot)
     else
       and_then (is_nullifier_spent nullifier_hash e) (\<lambda>spent.
       if spent then Inl (Err NullifierSpentError)
       else
         and_then (get_max_fee e) (\<lambda>max_fee.
         if sint fee < 0 \<or> sint fee > sint max_fee then Inl (Err FeeTooHigh)
         else
           and_then (build_public_inputs h root nullifier_hash recipient relayer fee) (\<lambda>public_inputs.
           let proof_valid = verify_proof feature_vk h proof public_inputs in
           if \<not> proof_valid then Inl (Err InvalidProof)
           else execute_withdrawal h nullifier_hash recipient relayer fee e))))"

subsection \<open>Queries\<close>

definition get_root :: "('fr, 'fq, 'g1, 'g1p, 'g2, 'gt, 'l) pool_host \<Rightarrow> 'l pool_env \<Rightarrow> (MixerError, bytes32) result" where
  "get_root h e = get_current_root h e"

definition query_nullifier_spent :: "bytes32 \<Rightarrow> 'l pool_env \<Rightarrow> (MixerError, bool) result" where
  "query_nullifier_spent nullifier_hash e = is_nullifier_spent nullifier_hash e"

definition query_denomination :: "'l pool_env \<Rightarrow> (MixerError, i128) result" where
  "query_denomination e = get_denomination e"

definition get_deposit_count :: "'l pool_env \<Rightarrow> (MixerError, u32) result" where
  "get_deposit_count e = get_next_leaf_index e"

end
