(* ===== verification/PoolHistory.thy ===== *)
theory PoolHistory
  imports Pool
begin

text \<open>
  The root history of the pool (\<open>push_root_history\<close>, \<open>is_known_root\<close> and \<open>get_root_history\<close> of
  \<open>lib.rs\<close>) provides the interface of \<open>RootWindow\<close>.
\<close>


subsection \<open>The root history is a window of the last roots\<close>

text \<open>The slots hold the ring of the roots pushed so far, and the index is the next slot.\<close>

definition history_rep :: "u32 \<Rightarrow> ('ev, 'z) pool_store \<Rightarrow> bytes32 list \<Rightarrow> bool" where
  "history_rep N e rs \<longleftrightarrow> N \<noteq> 0 \<and>
     inst_get RootHistorySize e = Some (VU32 N) \<and>
     inst_get RootHistoryIndex e = Some (VU32 (word_of_nat (length rs mod unat N))) \<and>
     (\<forall>i. pers_get (RootHistoryEntry i) e = map_option VBytes (ring (unat N) rs (unat i)))"

lemma unat_pos: "(N :: u32) \<noteq> 0 \<Longrightarrow> 0 < unat N"
  by (rule unat_pred(2))

lemma ring_index:
  assumes "(N :: u32) \<noteq> 0"
  shows "unat (word_of_nat (n mod unat N) :: u32) = n mod unat N"
proof -
  have "n mod unat N < unat N" using unat_pos [OF assms] by simp
  moreover have "unat N < 4294967296" by (rule unat_less_2p32)
  ultimately have "n mod unat N < 4294967296" by (rule less_trans)
  then have "n mod unat N < 2 ^ 32" by simp
  then show ?thesis by (rule unat_of_nat_u32)
qed

lemma checked_rem_u32: "N \<noteq> 0 \<Longrightarrow> checked_rem a N = Inr (a mod (N :: u32))"
  by (simp add: checked_rem_def)

lemma push_root_history_eq:
  assumes "history_rep N e rs"
  shows "push_root_history r e =
    Inr (set_root_history_index (word_of_nat (Suc (length rs) mod unat N))
          (set_root_history_entry (word_of_nat (length rs mod unat N)) r e))"
proof -
  let ?i = "word_of_nat (length rs mod unat N) :: u32"
  have N: "N \<noteq> 0" using assms by (simp add: history_rep_def)
  have i: "unat ?i = length rs mod unat N" by (rule ring_index [OF N])
  then have "unat ?i < unat N" using unat_pos [OF N] by simp
  note lt = u32_less_max [OF this]
  have "(?i + 1) mod N = word_of_nat (Suc (length rs) mod unat N)"
    by (rule word_unat_eq_iff [THEN iffD2])
      (simp only: unat_mod unat_add_one [OF lt] i ring_index [OF N] mod_Suc_eq)
  then show ?thesis using assms N
    by (simp add: push_root_history_def history_rep_def get_root_history_size_def
        get_root_history_index_def set_root_history_entry_def checked_add_one [OF lt] checked_rem_u32 Let_def)
qed

lemma history_rep_push:
  assumes "history_rep N e rs"
  shows "history_rep N (set_root_history_index (word_of_nat (Suc (length rs) mod unat N))
          (set_root_history_entry (word_of_nat (length rs mod unat N)) r e)) (rs @ [r])"
proof -
  have N: "N \<noteq> 0" using assms by (simp add: history_rep_def)
  have "i = word_of_nat (length rs mod unat N) \<longleftrightarrow> unat i = length rs mod unat N" for i :: u32
    by (metis ring_index [OF N] word_unat_eq_iff)
  with assms show ?thesis
    by (simp add: history_rep_def set_root_history_index_def set_root_history_entry_def ring_snoc)
qed

lemma get_root_history_entry_rep:
  "history_rep N e rs \<Longrightarrow> get_root_history_entry i e = Inr (ring (unat N) rs (unat i))"
  by (cases "ring (unat N) rs (unat i)") (simp_all add: history_rep_def get_root_history_entry_def)

lemma scan_roots_rep:
  assumes "history_rep N e rs"
  shows "scan_roots r is e = Inr (\<exists>i\<in>set is. ring (unat N) rs (unat i) = Some r)"
  by (induction "is") (auto simp: get_root_history_entry_rep [OF assms] split: option.split)

lemma is_known_root_rep:
  assumes "history_rep N e rs"
  shows "is_known_root r e = Inr (r \<in> set (window (unat N) rs))"
proof -
  have N: "N \<noteq> 0" and size: "get_root_history_size e = Inr N"
    using assms by (simp_all add: history_rep_def get_root_history_size_def)
  have "(\<exists>i\<in>set (u32_range 0 N). ring (unat N) rs (unat i) = Some r) \<longleftrightarrow>
      (\<exists>p<unat N. ring (unat N) rs p = Some r)"
  proof
    assume "\<exists>p<unat N. ring (unat N) rs p = Some r"
    then obtain p where p: "p < unat N" "ring (unat N) rs p = Some r" by blast
    have "unat (word_of_nat p :: u32) = p"
      using ring_index [OF N, of p] p(1) by simp
    with p show "\<exists>i\<in>set (u32_range 0 N). ring (unat N) rs (unat i) = Some r"
      by (intro bexI [of _ "word_of_nat p"]) (simp_all add: set_u32_range)
  qed (auto simp: set_u32_range)
  then show ?thesis
    by (simp add: is_known_root_def size scan_roots_rep [OF assms] ran_ring [OF unat_pos [OF N]])
qed

text \<open>The query returns the roots of the window, in the order of the slots.\<close>

lemma collect_roots_rep:
  assumes "history_rep N e rs"
  shows "collect_roots is acc e = Inr (acc @ List.map_filter (\<lambda>i. ring (unat N) rs (unat i)) is)"
  by (induction "is" arbitrary: acc)
    (auto simp: get_root_history_entry_rep [OF assms] List.map_filter_simps split: option.split)

lemma map_u32_range: "map unat (u32_range 0 N) = [0..<unat N]"
proof (rule nth_equalityI)
  show "length (map unat (u32_range 0 N)) = length [0..<unat N]" by (simp add: u32_range_def)
  fix i assume "i < length (map unat (u32_range 0 N))"
  then have "i < unat N" by (simp add: u32_range_def)
  then have "i < 4294967296" using unat_less_2p32 by (rule less_trans)
  with \<open>i < unat N\<close> show "map unat (u32_range 0 N) ! i = [0..<unat N] ! i"
    by (simp add: u32_range_def unat_of_nat)
qed

lemma get_root_history_rep:
  assumes "history_rep N e rs"
  shows "get_root_history e = Inr (List.map_filter (ring (unat N) rs) [0..<unat N])"
proof -
  have "List.map_filter (\<lambda>i. ring (unat N) rs (unat i)) is = List.map_filter (ring (unat N) rs) (map unat is)"
    for "is" :: "u32 list"
    by (induction "is") (auto simp: List.map_filter_simps split: option.split)
  moreover have "get_root_history_size e = Inr N"
    using assms by (simp add: history_rep_def get_root_history_size_def)
  ultimately show ?thesis
    by (simp add: get_root_history_def collect_roots_rep [OF assms] map_u32_range)
qed

interpretation history: root_window "unat N" "history_rep N" push_root_history is_known_root
  for N :: u32
  by unfold_locales (simp_all add: push_root_history_eq history_rep_push is_known_root_rep)

end
