(* ===== verification/PoolSpec.thy ===== *)
theory PoolSpec
  imports PoolHistory
begin

text \<open>
  What the pool promises, as a small abstract machine over lists and sets, and the proof that
  the contract's entry points of \<open>lib.rs\<close> refine it, every error branch included.
\<close>


subsection \<open>The abstract pool\<close>

record 'l APool =
  p_admin :: Address
  p_token :: Address
  p_denomination :: i128
  p_max_fee :: i128
  p_depth :: u32
  p_history_size :: u32
  p_leaves :: "bytes32 list"
  p_spent :: "bytes32 set"
  p_log :: "PoolEvent list"
  p_ledger :: 'l

text \<open>Every root the tree has had, oldest first.\<close>

definition p_roots :: "('fr, 'c) field_crypto_scheme \<Rightarrow> 'l APool \<Rightarrow> bytes32 list" where
  "p_roots c p = map (\<lambda>n. tree_root c (unat (p_depth p)) (take n (p_leaves p))) [0..<Suc (length (p_leaves p))]"

definition p_known :: "('fr, 'c) field_crypto_scheme \<Rightarrow> 'l APool \<Rightarrow> bytes32 \<Rightarrow> bool" where
  "p_known c p root \<longleftrightarrow> root \<in> set (window (unat (p_history_size p)) (p_roots c p))"

definition a_initialize :: "('fr, 'fq, 'g1, 'g1p, 'g2, 'gt, 'l) pool_host \<Rightarrow> (Address \<Rightarrow> bool) \<Rightarrow> Address \<Rightarrow> Address \<Rightarrow>
    i128 \<Rightarrow> i128 \<Rightarrow> u32 \<Rightarrow> u32 \<Rightarrow> 'l \<Rightarrow> (MixerError, 'l APool) result" where
  "a_initialize h auth admin token denomination max_fee depth sz l =
     (if sint denomination \<le> 0 then Inl (Err InvalidDenomination)
      else if depth = 0 \<or> depth > 32 then Inl (Err InvalidTreeDepth)
      else if sz = 0 then Inl (Err InvalidRootHistorySize)
      else if \<not> auth admin then Inl Panic
      else Inr \<lparr>p_admin = admin, p_token = token, p_denomination = denomination, p_max_fee = max_fee,
                p_depth = depth, p_history_size = sz, p_leaves = [], p_spent = {}, p_log = [], p_ledger = l\<rparr>)"

definition a_deposit :: "('fr, 'fq, 'g1, 'g1p, 'g2, 'gt, 'l) pool_host \<Rightarrow> (Address \<Rightarrow> bool) \<Rightarrow> Address \<Rightarrow> bytes32 \<Rightarrow>
    'l APool \<Rightarrow> (MixerError, 'l APool) result" where
  "a_deposit h auth depositor commitment p =
     (if \<not> auth depositor then Inl Panic
      else if commitment \<in> set (p_leaves p) then Inl (Err DuplicateCommitment)
      else if tree_capacity (p_depth p) \<le> length (p_leaves p) then Inl (Err TreeFull)
      else case token_transfer h (p_token p) (p_ledger p) depositor (current_contract_address h) (p_denomination p) of
        None \<Rightarrow> Inl Panic
      | Some l \<Rightarrow> Inr (p\<lparr>p_leaves := p_leaves p @ [commitment],
                        p_log := p_log p @ [DepositEvent commitment (word_of_nat (length (p_leaves p)))],
                        p_ledger := l\<rparr>))"

text \<open>The payment of a withdrawal: the recipient gets the denomination less the fee.\<close>

definition a_payout :: "('fr, 'fq, 'g1, 'g1p, 'g2, 'gt, 'l) pool_host \<Rightarrow> Address \<Rightarrow> Address \<Rightarrow> i128 \<Rightarrow> 'l APool \<Rightarrow> 'l option" where
  "a_payout h recipient relayer fee p = do {
     l \<leftarrow> token_transfer h (p_token p) (p_ledger p) (current_contract_address h) recipient (p_denomination p - fee);
     if sint fee > 0 then token_transfer h (p_token p) l (current_contract_address h) relayer fee else Some l
   }"

lemma a_payout_cong:
  assumes "p_token q = p_token p" "p_denomination q = p_denomination p" "p_ledger q = p_ledger p"
  shows "a_payout h recipient relayer fee q = a_payout h recipient relayer fee p"
  unfolding a_payout_def assms by (rule refl)

definition a_withdraw :: "bool \<Rightarrow> ('fr, 'fq, 'g1, 'g1p, 'g2, 'gt, 'l) pool_host \<Rightarrow> bytes256 \<Rightarrow> bytes32 \<Rightarrow> bytes32 \<Rightarrow>
    Address \<Rightarrow> Address \<Rightarrow> i128 \<Rightarrow> 'l APool \<Rightarrow> (MixerError, 'l APool) result" where
  "a_withdraw vk h proof root nullifier recipient relayer fee p =
     (if \<not> p_known h p root then Inl (Err InvalidRoot)
      else if nullifier \<in> p_spent p then Inl (Err NullifierSpentError)
      else if sint fee < 0 \<or> sint fee > sint (p_max_fee p) then Inl (Err FeeTooHigh)
      else case build_public_inputs h root nullifier recipient relayer fee of
        Inl f \<Rightarrow> Inl f
      | Inr inputs \<Rightarrow>
          if \<not> verify_proof vk h proof inputs then Inl (Err InvalidProof)
          else (case a_payout h recipient relayer fee p of
            None \<Rightarrow> Inl Panic
          | Some l \<Rightarrow> Inr (p\<lparr>p_spent := insert nullifier (p_spent p),
                            p_log := p_log p @ [WithdrawalEvent nullifier],
                            p_ledger := l\<rparr>)))"

subsection \<open>The relation\<close>

definition config_rep :: "'l pool_env \<Rightarrow> 'l APool \<Rightarrow> bool" where
  "config_rep e p \<longleftrightarrow>
     inst_get Initialized e = Some (VBool True) \<and>
     inst_get Admin e = Some (VAddress (p_admin p)) \<and>
     inst_get Token e = Some (VAddress (p_token p)) \<and>
     inst_get Denomination e = Some (VI128 (p_denomination p)) \<and>
     inst_get MaxFee e = Some (VI128 (p_max_fee p)) \<and>
     0 < sint (p_denomination p) \<and> p_depth p \<noteq> 0 \<and> p_depth p \<le> 32"

definition sets_rep :: "'l pool_env \<Rightarrow> 'l APool \<Rightarrow> bool" where
  "sets_rep e p \<longleftrightarrow>
     (\<forall>n. pers_get (NullifierSpent n) e = (if n \<in> p_spent p then Some (VBool True) else None)) \<and>
     (\<forall>c. pers_get (CommitmentInserted c) e = (if c \<in> set (p_leaves p) then Some (VBool True) else None)) \<and>
     distinct (p_leaves p) \<and> finite (p_spent p)"

definition pool_rep :: "('fr, 'fq, 'g1, 'g1p, 'g2, 'gt, 'l) pool_host \<Rightarrow> 'l pool_env \<Rightarrow> 'l APool \<Rightarrow> bool" where
  "pool_rep h e p \<longleftrightarrow> config_rep e p \<and>
     tree_rep h (p_depth p) e (p_leaves p) \<and> length (p_leaves p) \<le> tree_capacity (p_depth p) \<and>
     history_rep (p_history_size p) e (p_roots h p) \<and>
     sets_rep e p \<and> published e = p_log p \<and> ledger e = p_ledger p"

lemma p_roots_snoc:
  "p_roots c (p\<lparr>p_leaves := p_leaves p @ [x], p_log := lg, p_ledger := l\<rparr>) =
   p_roots c p @ [tree_root c (unat (p_depth p)) (p_leaves p @ [x])]"
  by (simp add: p_roots_def)

lemma length_p_roots [simp]: "length (p_roots c p) = Suc (length (p_leaves p))"
  by (simp add: p_roots_def)

lemma current_root_known:
  assumes "p_history_size p \<noteq> 0"
  shows "p_known c p (tree_root c (unat (p_depth p)) (p_leaves p))"
  using unat_pos [OF assms]
  by (auto simp: p_known_def set_window p_roots_def intro!: exI [of _ "length (p_leaves p)"] simp del: upt_Suc)

subsection \<open>Deposits\<close>

text \<open>The known roots are those of the last \<open>p_history_size\<close> versions of the tree.\<close>

lemma p_known_iff:
  assumes "p_history_size p \<noteq> 0"
  shows "p_known c p r \<longleftrightarrow> (\<exists>k. k \<le> length (p_leaves p) \<and> length (p_leaves p) < k + unat (p_history_size p) \<and>
    r = tree_root c (unat (p_depth p)) (take k (p_leaves p)))"
proof -
  let ?n = "length (p_leaves p)" and ?N = "unat (p_history_size p)"
  have nth: "p_roots c p ! k = tree_root c (unat (p_depth p)) (take k (p_leaves p))" if "k < Suc ?n" for k
    using that by (simp add: p_roots_def del: upt_Suc)
  have range: "Suc ?n - ?N \<le> k \<and> k < Suc ?n \<longleftrightarrow> k \<le> ?n \<and> ?n < k + ?N" for k
    using unat_pos [OF assms] by auto
  have "p_known c p r \<longleftrightarrow> (\<exists>k. Suc ?n - ?N \<le> k \<and> k < Suc ?n \<and> r = p_roots c p ! k)"
    by (auto simp: p_known_def set_window)
  also have "\<dots> \<longleftrightarrow> (\<exists>k. k \<le> ?n \<and> ?n < k + ?N \<and> r = tree_root c (unat (p_depth p)) (take k (p_leaves p)))"
    using nth range by (metis less_Suc_eq_le)
  finally show ?thesis .
qed

lemma max_leaves_capacity:
  assumes "depth \<le> 32"
  shows "unat (case checked_shl_u32 1 depth of Some n \<Rightarrow> n | None \<Rightarrow> - 1) = tree_capacity depth"
proof (cases "unat depth < 32")
  case True
  then have small: "(2 :: nat) ^ unat depth \<le> 2 ^ 31" by (intro power_increasing) auto
  have "push_bit (unat depth) (1 :: u32) = word_of_nat (2 ^ unat depth)" by (simp add: push_bit_eq_mult)
  moreover have "unat (word_of_nat (2 ^ unat depth) :: u32) = 2 ^ unat depth"
    by (rule unat_of_nat_u32) (use small in simp)
  ultimately have "unat (push_bit (unat depth) (1 :: u32)) = 2 ^ unat depth" by (simp only:)
  with small show ?thesis using True by (simp add: checked_shl_u32_def tree_capacity_def)
next
  case False
  moreover have "unat depth \<le> 32" using assms by (simp add: word_le_nat_alt)
  ultimately have "unat depth = 32" by simp
  then show ?thesis
    by (simp add: checked_shl_u32_def tree_capacity_def unsigned_minus_1_eq_mask mask_eq_exp_minus_1)
qed

lemma transfer_eq: "transfer h tok a b x e =
   (case token_transfer h tok (ledger e) a b x of None \<Rightarrow> Inl Panic | Some l \<Rightarrow> Inr (e\<lparr>ledger := l\<rparr>))"
  by (simp add: transfer_def split: option.split)

lemma ledger_frame [simp]:
  "inst_get k (e\<lparr>ledger := l\<rparr>) = inst_get k e" "pers_get k (e\<lparr>ledger := l\<rparr>) = pers_get k e"
  "published (e\<lparr>ledger := l\<rparr>) = published e"
  "ledger (inst_set k v e) = ledger e" "ledger (pers_set k v e) = ledger e" "ledger (publish ev e) = ledger e"
  by (simp_all add: inst_get_def pers_get_def inst_set_def pers_set_def publish_def)


lemma tree_rep_frame:
  assumes "tree_rep c depth e xs"
    and "inst_get TreeDepth e' = inst_get TreeDepth e" "inst_get NextLeafIndex e' = inst_get NextLeafIndex e"
    and "\<And>l i. pers_get (MerkleNode l i) e' = pers_get (MerkleNode l i) e"
  shows "tree_rep c depth e' xs"
  using assms by (simp add: tree_rep_def nodes_rep_def)

lemma history_rep_frame:
  assumes "history_rep N e rs"
    and "inst_get RootHistorySize e' = inst_get RootHistorySize e"
    and "inst_get RootHistoryIndex e' = inst_get RootHistoryIndex e"
    and "\<And>i. pers_get (RootHistoryEntry i) e' = pers_get (RootHistoryEntry i) e"
  shows "history_rep N e' rs"
  using assms by (simp add: history_rep_def)

lemma pool_repD:
  assumes "pool_rep h e p"
  shows "config_rep e p" "tree_rep h (p_depth p) e (p_leaves p)" "length (p_leaves p) \<le> tree_capacity (p_depth p)"
    "history_rep (p_history_size p) e (p_roots h p)" "sets_rep e p" "published e = p_log p" "ledger e = p_ledger p"
  using assms by (simp_all add: pool_rep_def)

text \<open>A read of every setting of the pool.\<close>

lemma pool_reads:
  assumes "pool_rep h e p"
  shows "is_initialized e = Inr True" "get_admin e = Inr (p_admin p)" "get_token e = Inr (p_token p)"
    "get_denomination e = Inr (p_denomination p)" "get_max_fee e = Inr (p_max_fee p)"
    "get_tree_depth e = Inr (p_depth p)" "get_next_leaf_index e = Inr (word_of_nat (length (p_leaves p)))"
    "is_commitment_inserted c e = Inr (c \<in> set (p_leaves p))"
    "PoolStorage.is_nullifier_spent n e = Inr (n \<in> p_spent p)"
    "is_known_root r e = Inr (p_known h p r)"
  using pool_repD [OF assms] is_known_root_rep [of "p_history_size p" e "p_roots h p"]
  by (simp_all add: config_rep_def tree_rep_def sets_rep_def p_known_def
      is_initialized_def get_admin_def get_token_def get_denomination_def get_max_fee_def get_tree_depth_def
      get_next_leaf_index_def is_commitment_inserted_def PoolStorage.is_nullifier_spent_def)

lemma insert_leaf_frame:
  fixes e :: "'l pool_env"
  assumes rep: "tree_rep h depth e xs" and room: "length xs < tree_capacity depth"
  shows "\<exists>e'. insert_leaf h c e = Inr (tree_root h (unat depth) (xs @ [c]), e') \<and>
    tree_rep h depth e' (xs @ [c]) \<and>
    (\<forall>k. k \<noteq> NextLeafIndex \<longrightarrow> inst_get k e' = inst_get k e) \<and>
    (\<forall>k. (\<forall>l i. k \<noteq> MerkleNode l i) \<longrightarrow> pers_get k e' = pers_get k e) \<and>
    published e' = published e \<and> ledger e' = ledger e"
proof -
  obtain m where ins: "insert_leaf h c e = Inr (tree_root h (unat depth) (xs @ [c]),
      set_next_leaf_index (word_of_nat (Suc (length xs))) (e\<lparr>persistent_store := m\<rparr>))"
    and nodes: "nodes_rep h (unat depth) (xs @ [c]) (e\<lparr>persistent_store := m\<rparr>)"
    and frame: "\<forall>k. (\<forall>l i. k \<noteq> MerkleNode l i) \<longrightarrow> m k = persistent_store e k"
    using insert_leaf_ok [OF rep room, of c] by blast
  show ?thesis
    using ins tree_rep_insert [OF rep room nodes] frame
    by (intro exI [of _ "set_next_leaf_index (word_of_nat (Suc (length xs))) (e\<lparr>persistent_store := m\<rparr>)"])
      (simp add: set_next_leaf_index_def inst_get_def inst_set_def pers_get_def)
qed

lemma push_root_history_frame:
  fixes e :: "'l pool_env"
  assumes rep: "history_rep N e rs"
  shows "\<exists>e'. push_root_history r e = Inr e' \<and> history_rep N e' (rs @ [r]) \<and>
    (\<forall>k. k \<noteq> RootHistoryIndex \<longrightarrow> inst_get k e' = inst_get k e) \<and>
    (\<forall>k. (\<forall>i. k \<noteq> RootHistoryEntry i) \<longrightarrow> pers_get k e' = pers_get k e) \<and>
    published e' = published e \<and> ledger e' = ledger e"
  using history_rep_push [OF rep, of r]
  by (simp add: push_root_history_eq [OF rep] set_root_history_index_def set_root_history_entry_def)

lemma deposit_commit:
  assumes rep: "pool_rep h e p" and new: "c \<notin> set (p_leaves p)"
    and room: "length (p_leaves p) < tree_capacity (p_depth p)"
  shows "\<exists>e'. and_then (insert_leaf h c (set_commitment_inserted c (e\<lparr>ledger := l\<rparr>))) (\<lambda>(new_root, e).
         and_then (push_root_history new_root e) (\<lambda>e. Inr (publish ev e))) = Inr e' \<and>
    pool_rep h e' (p\<lparr>p_leaves := p_leaves p @ [c], p_log := p_log p @ [ev], p_ledger := l\<rparr>)"
proof -
  note rep = pool_repD [OF rep]
  let ?d = "p_depth p" and ?xs = "p_leaves p" and ?N = "p_history_size p" and ?rs = "p_roots h p"
  let ?e0 = "set_commitment_inserted c (e\<lparr>ledger := l\<rparr>)" and ?r = "tree_root h (unat (p_depth p)) (p_leaves p @ [c])"
  have tree0: "tree_rep h ?d ?e0 ?xs"
    by (rule tree_rep_frame [OF rep(2)]) (simp_all add: set_commitment_inserted_def)
  have base: "inst_get k ?e0 = inst_get k e" "published ?e0 = published e" "ledger ?e0 = l"
    "pers_get k ?e0 = (if k = CommitmentInserted c then Some (VBool True) else pers_get k e)" for k
    by (simp_all add: set_commitment_inserted_def)
  obtain e1 where ins: "insert_leaf h c ?e0 = Inr (?r, e1)" and tree1: "tree_rep h ?d e1 (?xs @ [c])"
    and inst1: "\<forall>k. k \<noteq> NextLeafIndex \<longrightarrow> inst_get k e1 = inst_get k ?e0"
    and pers1: "\<forall>k. (\<forall>l i. k \<noteq> MerkleNode l i) \<longrightarrow> pers_get k e1 = pers_get k ?e0"
    and rest1: "published e1 = published ?e0" "ledger e1 = ledger ?e0"
    using insert_leaf_frame [OF tree0 room, of c] by blast
  have hist1: "history_rep ?N e1 ?rs"
    by (rule history_rep_frame [OF rep(4)]) (simp_all add: inst1 pers1 base)
  obtain e2 where push: "push_root_history ?r e1 = Inr e2" and hist2: "history_rep ?N e2 (?rs @ [?r])"
    and inst2: "\<forall>k. k \<noteq> RootHistoryIndex \<longrightarrow> inst_get k e2 = inst_get k e1"
    and pers2: "\<forall>k. (\<forall>i. k \<noteq> RootHistoryEntry i) \<longrightarrow> pers_get k e2 = pers_get k e1"
    and rest2: "published e2 = published e1" "ledger e2 = ledger e1"
    using push_root_history_frame [OF hist1, of ?r] by blast
  let ?p = "p\<lparr>p_leaves := ?xs @ [c], p_log := p_log p @ [ev], p_ledger := l\<rparr>"
  have "pool_rep h (publish ev e2) ?p"
    unfolding pool_rep_def
  proof (intro conjI)
    show "config_rep (publish ev e2) ?p"
      using rep(1) by (simp add: config_rep_def inst2 inst1 base)
    show "tree_rep h (p_depth ?p) (publish ev e2) (p_leaves ?p)"
      using tree_rep_frame [OF tree1, of "publish ev e2"] by (simp add: inst2 pers2)
    show "length (p_leaves ?p) \<le> tree_capacity (p_depth ?p)" using room by simp
    show "history_rep (p_history_size ?p) (publish ev e2) (p_roots h ?p)"
      using history_rep_frame [OF hist2, of "publish ev e2"] by (simp add: p_roots_snoc)
    show "sets_rep (publish ev e2) ?p"
      using rep(5) new by (simp add: sets_rep_def pers2 pers1 base)
    show "published (publish ev e2) = p_log ?p" "ledger (publish ev e2) = p_ledger ?p"
      using rep(6) by (simp_all add: rest2 rest1 base)
  qed
  then show ?thesis by (simp add: ins push)
qed

lemma deposit_refines:
  assumes rep: "pool_rep h e p"
  shows "res_rel (pool_rep h) (deposit h auth depositor c e) (a_deposit h auth depositor c p)"
proof -
  note reads = pool_reads [OF rep]
  have depth: "p_depth p \<le> 32" and led: "ledger e = p_ledger p" and len: "length (p_leaves p) < 2 ^ 32"
    using pool_repD [OF rep] by (simp_all add: config_rep_def tree_rep_def)
  have full: "(case checked_shl_u32 1 (p_depth p) of Some n \<Rightarrow> n | None \<Rightarrow> - 1) \<le> (word_of_nat (length (p_leaves p)) :: u32)
      \<longleftrightarrow> tree_capacity (p_depth p) \<le> length (p_leaves p)"
    unfolding word_le_nat_alt max_leaves_capacity [OF depth] unat_of_nat_u32 [OF len] by simp
  show ?thesis
  proof (cases "auth depositor \<and> c \<notin> set (p_leaves p) \<and> length (p_leaves p) < tree_capacity (p_depth p)")
    case False
    then show ?thesis
      unfolding deposit_def a_deposit_def by (auto simp: reads full Let_def require_auth_def)
  next
    case True
    show ?thesis
    proof (cases "token_transfer h (p_token p) (p_ledger p) depositor (current_contract_address h) (p_denomination p)")
      case None
      with True show ?thesis
        unfolding deposit_def a_deposit_def by (simp add: reads full Let_def transfer_eq led)
    next
      case (Some l)
      show ?thesis
        using True Some deposit_commit [OF rep, of c l "DepositEvent c (word_of_nat (length (p_leaves p)))"]
        unfolding deposit_def a_deposit_def by (auto simp: reads full Let_def transfer_eq led)
    qed
  qed
qed


subsection \<open>Withdrawals\<close>

text \<open>The fee is bounded and the denomination positive, so the subtraction never overflows.\<close>

lemma withdrawal_amount:
  assumes "0 < sint (d :: i128)" and "0 \<le> sint (fee :: i128)"
  shows "checked_sub_i128 d fee = Inr (d - fee)" and "sint (d - fee) = sint d - sint fee"
proof -
  have "sint d < 2 ^ 127" "sint fee < 2 ^ 127" using sint_less [of d] sint_less [of fee] by simp_all
  then show "checked_sub_i128 d fee = Inr (d - fee)"
    using assms by (simp add: checked_sub_i128_def)
  from sint_sub_i128 [OF this] show "sint (d - fee) = sint d - sint fee" .
qed

lemma pool_rep_spend:
  assumes "pool_rep h e p"
  shows "pool_rep h (publish ev (set_nullifier_spent n e\<lparr>ledger := l\<rparr>))
    (p\<lparr>p_spent := insert n (p_spent p), p_log := p_log p @ [ev], p_ledger := l\<rparr>)"
proof -
  note rep = pool_repD [OF assms]
  let ?e = "publish ev (set_nullifier_spent n e\<lparr>ledger := l\<rparr>)"
  let ?p = "p\<lparr>p_spent := insert n (p_spent p), p_log := p_log p @ [ev], p_ledger := l\<rparr>"
  have roots: "p_roots h ?p = p_roots h p" by (simp add: p_roots_def)
  show ?thesis
    unfolding pool_rep_def
  proof (intro conjI)
    show "config_rep ?e ?p" using rep(1) by (simp add: config_rep_def set_nullifier_spent_def)
    show "tree_rep h (p_depth ?p) ?e (p_leaves ?p)"
      using tree_rep_frame [OF rep(2), of ?e] by (simp add: set_nullifier_spent_def)
    show "length (p_leaves ?p) \<le> tree_capacity (p_depth ?p)" using rep(3) by simp
    show "history_rep (p_history_size ?p) ?e (p_roots h ?p)"
      using history_rep_frame [OF rep(4), of ?e] by (simp add: set_nullifier_spent_def roots)
    show "sets_rep ?e ?p" using rep(5) by (simp add: sets_rep_def set_nullifier_spent_def)
    show "published ?e = p_log ?p" "ledger ?e = p_ledger ?p"
      using rep(6) by (simp_all add: set_nullifier_spent_def pers_set_def)
  qed
qed

lemma execute_withdrawal_refines:
  assumes rep: "pool_rep h e p" and fee: "0 \<le> sint fee"
  shows "res_rel (pool_rep h) (execute_withdrawal h n recipient relayer fee e)
    (case a_payout h recipient relayer fee p of None \<Rightarrow> Inl Panic
     | Some l \<Rightarrow> Inr (p\<lparr>p_spent := insert n (p_spent p), p_log := p_log p @ [WithdrawalEvent n], p_ledger := l\<rparr>))"
proof -
  note reads = pool_reads [OF rep]
  have pos: "0 < sint (p_denomination p)" and led: "ledger e = p_ledger p"
    using pool_repD [OF rep] by (simp_all add: config_rep_def)
  have base: "get_denomination (set_nullifier_spent n e) = Inr (p_denomination p)"
    "get_token (set_nullifier_spent n e) = Inr (p_token p)" "ledger (set_nullifier_spent n e) = p_ledger p"
    using reads led by (simp_all add: get_denomination_def get_token_def set_nullifier_spent_def)
  let ?t = "\<lambda>l. token_transfer h (p_token p) l (current_contract_address h)"
  have upd: "e\<lparr>ledger := l, ledger := l'\<rparr> = e\<lparr>ledger := l'\<rparr>" for e :: "'g pool_env" and l l' by simp
  show ?thesis
  proof (cases "?t (p_ledger p) recipient (p_denomination p - fee)")
    case None
    then show ?thesis
      by (simp add: execute_withdrawal_def a_payout_def Let_def base transfer_eq withdrawal_amount [OF pos fee])
  next
    case (Some l)
    show ?thesis
    proof (cases "0 < sint fee")
      case True
      with Some show ?thesis
        using pool_rep_spend [OF rep, where ev = "WithdrawalEvent n" and n = n]
        by (cases "?t l relayer fee")
          (simp_all add: execute_withdrawal_def a_payout_def Let_def base transfer_eq withdrawal_amount [OF pos fee])
    next
      case False
      with Some show ?thesis
        using pool_rep_spend [OF rep, where ev = "WithdrawalEvent n" and n = n and l = l]
        by (simp add: execute_withdrawal_def a_payout_def Let_def base transfer_eq withdrawal_amount [OF pos fee])
    qed
  qed
qed

lemma withdraw_refines:
  assumes rep: "pool_rep h e p"
  shows "res_rel (pool_rep h) (withdraw vk h proof root n recipient relayer fee e)
    (a_withdraw vk h proof root n recipient relayer fee p)"
proof (cases "p_known h p root \<and> n \<notin> p_spent p \<and> 0 \<le> sint fee \<and> sint fee \<le> sint (p_max_fee p)")
  case False
  then show ?thesis
    unfolding withdraw_def a_withdraw_def by (auto simp: pool_reads [OF rep] Let_def)
next
  case True
  then show ?thesis
    using execute_withdrawal_refines [OF rep, of fee n recipient relayer]
    unfolding withdraw_def a_withdraw_def
    by (cases "build_public_inputs h root n recipient relayer fee") (auto simp: pool_reads [OF rep] Let_def)
qed

subsection \<open>Initialisation\<close>

definition fresh_env :: "'l \<Rightarrow> 'l pool_env" where
  "fresh_env l = \<lparr>instance_store = Map.empty, persistent_store = Map.empty, published = [], ledger = l\<rparr>"

lemma fresh_env_get [simp]:
  "inst_get k (fresh_env l) = None" "pers_get k (fresh_env l) = None" "published (fresh_env l) = []"
  "ledger (fresh_env l) = l"
  by (simp_all add: fresh_env_def inst_get_def pers_get_def)

lemma initialize_refines:
  "res_rel (pool_rep h) (initialize h auth admin tok d mf depth sz (fresh_env l))
    (a_initialize h auth admin tok d mf depth sz l)"
proof (cases "0 < sint d \<and> depth \<noteq> 0 \<and> depth \<le> 32 \<and> sz \<noteq> 0 \<and> auth admin")
  case False
  then show ?thesis
    unfolding initialize_def a_initialize_def is_initialized_def by (auto simp: require_auth_def)
next
  case True
  let ?e = "set_root_history_index 0 (set_next_leaf_index 0 (set_root_history_size sz (set_tree_depth depth
      (set_max_fee mf (set_denomination d (set_token tok (set_admin admin (fresh_env l))))))))"
  let ?p = "\<lparr>p_admin = admin, p_token = tok, p_denomination = d, p_max_fee = mf,
                p_depth = depth, p_history_size = sz, p_leaves = [], p_spent = {}, p_log = [], p_ledger = l\<rparr>"
  have pers: "pers_get k ?e = None" and rest: "published ?e = []" "ledger ?e = l" for k
    by (simp_all add: pool_storage_defs)
  have tree: "tree_rep h depth ?e []"
    by (simp add: tree_rep_def nodes_rep_def pers) (simp add: pool_storage_defs)
  have hist: "history_rep sz ?e []"
    using True by (simp add: history_rep_def pers) (simp add: pool_storage_defs)
  let ?r = "tree_root h (unat depth) []"
  obtain e2 where push: "push_root_history ?r ?e = Inr e2" and hist2: "history_rep sz e2 ([] @ [?r])"
    and inst2: "\<forall>k. k \<noteq> RootHistoryIndex \<longrightarrow> inst_get k e2 = inst_get k ?e"
    and pers2: "\<forall>k. (\<forall>i. k \<noteq> RootHistoryEntry i) \<longrightarrow> pers_get k e2 = pers_get k ?e"
    and rest2: "published e2 = published ?e" "ledger e2 = ledger ?e"
    using push_root_history_frame [OF hist, of ?r] by blast
  let ?f = "set_initialized e2"
  have inst3: "inst_get k ?f = (if k = Initialized then Some (VBool True) else inst_get k e2)"
    and pers3: "pers_get k ?f = pers_get k e2" and rest3: "published ?f = []" "ledger ?f = l" for k
    using rest2 rest by (simp_all add: set_initialized_def)
  have "pool_rep h ?f ?p"
    unfolding pool_rep_def
  proof (intro conjI)
    show "config_rep ?f ?p"
      using True by (simp add: config_rep_def inst3 inst2) (simp add: pool_storage_defs)
    show "tree_rep h (p_depth ?p) ?f (p_leaves ?p)"
      using tree_rep_frame [OF tree, of ?f] by (simp add: inst3 inst2 pers3 pers2)
    show "length (p_leaves ?p) \<le> tree_capacity (p_depth ?p)" by simp
    show "history_rep (p_history_size ?p) ?f (p_roots h ?p)"
      using history_rep_frame [OF hist2, of ?f] by (simp add: inst3 pers3 p_roots_def)
    show "sets_rep ?f ?p" by (simp add: sets_rep_def pers3 pers2 pers)
    show "published ?f = p_log ?p" "ledger ?f = p_ledger ?p" by (simp_all add: rest3)
  qed
  then show ?thesis
    using True push get_current_root_rep [OF tree]
    unfolding initialize_def a_initialize_def by (simp add: Let_def is_initialized_def)
qed

lemma initialize_twice:
  assumes "pool_rep h e p"
  shows "initialize h' auth admin tok d mf depth sz e = Inl (Err AlreadyInitialized)"
  by (simp add: initialize_def pool_reads [OF assms])

subsection \<open>Queries\<close>

lemma queries_rep:
  assumes "pool_rep h e p"
  shows "get_root h e = Inr (tree_root h (unat (p_depth p)) (p_leaves p))"
    "query_nullifier_spent n e = Inr (n \<in> p_spent p)"
    "query_denomination e = Inr (p_denomination p)"
    "get_deposit_count e = Inr (word_of_nat (length (p_leaves p)))"
    "get_root_history e = Inr (List.map_filter (ring (unat (p_history_size p)) (p_roots h p)) [0..<unat (p_history_size p)])"
  using pool_reads [OF assms] get_current_root_rep get_root_history_rep pool_repD [OF assms]
  by (simp_all add: get_root_def query_nullifier_spent_def query_denomination_def get_deposit_count_def)

end
