(* ===== verification/PoolTrace.thy ===== *)
theory PoolTrace
  imports PoolSpec
begin

text \<open>
  The pool over time: the steps of the contract and of the world around it, the states they
  reach, and what every reachable state keeps (settings, growth, event log, solvency).
\<close>


subsection \<open>Steps\<close>

text \<open>
  One step of the world around a pool: a successful call of an entry point (a failing call
  leaves the state), or a move of the token ledger by others, which \<open>ext\<close> describes. The pool
  signs for no deposit of its own.
\<close>

inductive pool_step :: "bool \<Rightarrow> ('fr, 'fq, 'g1, 'g1p, 'g2, 'gt, 'l) pool_host \<Rightarrow> ('l \<Rightarrow> 'l \<Rightarrow> bool) \<Rightarrow>
    'l pool_env \<Rightarrow> 'l pool_env \<Rightarrow> bool"
  for vk h ext where
  initialize: "initialize h auth admin tok d mf depth sz e = Inr e' \<Longrightarrow> pool_step vk h ext e e'"
| deposit: "\<not> auth (current_contract_address h) \<Longrightarrow> deposit h auth depositor c e = Inr e' \<Longrightarrow> pool_step vk h ext e e'"
| withdraw: "withdraw vk h proof root n recipient relayer fee e = Inr e' \<Longrightarrow> pool_step vk h ext e e'"
| others: "ext (ledger e) l \<Longrightarrow> pool_step vk h ext e (e\<lparr>ledger := l\<rparr>)"

inductive pool_reach :: "bool \<Rightarrow> ('fr, 'fq, 'g1, 'g1p, 'g2, 'gt, 'l) pool_host \<Rightarrow> ('l \<Rightarrow> 'l \<Rightarrow> bool) \<Rightarrow>
    'l pool_env \<Rightarrow> bool"
  for vk h ext where
  start: "initialize h auth admin tok d mf depth sz (fresh_env l) = Inr e \<Longrightarrow> pool_reach vk h ext e"
| step: "pool_reach vk h ext e \<Longrightarrow> pool_step vk h ext e e' \<Longrightarrow> pool_reach vk h ext e'"

text \<open>The same system on the abstract states.\<close>

inductive a_step :: "bool \<Rightarrow> ('fr, 'fq, 'g1, 'g1p, 'g2, 'gt, 'l) pool_host \<Rightarrow> ('l \<Rightarrow> 'l \<Rightarrow> bool) \<Rightarrow>
    'l APool \<Rightarrow> 'l APool \<Rightarrow> bool"
  for vk h ext where
  a_deposit: "\<not> auth (current_contract_address h) \<Longrightarrow> a_deposit h auth depositor c p = Inr p' \<Longrightarrow> a_step vk h ext p p'"
| a_withdraw: "a_withdraw vk h proof root n recipient relayer fee p = Inr p' \<Longrightarrow> a_step vk h ext p p'"
| a_others: "ext (p_ledger p) l \<Longrightarrow> a_step vk h ext p (p\<lparr>p_ledger := l\<rparr>)"

inductive a_reach :: "bool \<Rightarrow> ('fr, 'fq, 'g1, 'g1p, 'g2, 'gt, 'l) pool_host \<Rightarrow> ('l \<Rightarrow> 'l \<Rightarrow> bool) \<Rightarrow> 'l \<Rightarrow>
    'l APool \<Rightarrow> bool"
  for vk h ext l0 where
  a_start: "a_initialize h auth admin tok d mf depth sz l0 = Inr p \<Longrightarrow> a_reach vk h ext l0 p"
| a_step: "a_reach vk h ext l0 p \<Longrightarrow> a_step vk h ext p p' \<Longrightarrow> a_reach vk h ext l0 p'"

lemma pool_rep_ledger:
  assumes "pool_rep h e p"
  shows "pool_rep h (e\<lparr>ledger := l\<rparr>) (p\<lparr>p_ledger := l\<rparr>)"
proof -
  note rep = pool_repD [OF assms]
  have "p_roots h (p\<lparr>p_ledger := l\<rparr>) = p_roots h p" by (simp add: p_roots_def)
  with rep show ?thesis
    using tree_rep_frame [OF rep(2), of "e\<lparr>ledger := l\<rparr>"] history_rep_frame [OF rep(4), of "e\<lparr>ledger := l\<rparr>"]
    by (simp add: pool_rep_def config_rep_def sets_rep_def)
qed

text \<open>Every concrete step is an abstract one.\<close>

lemma pool_step_simulates:
  assumes rep: "pool_rep h e p" and step: "pool_step vk h ext e e'"
  shows "\<exists>p'. pool_rep h e' p' \<and> a_step vk h ext p p'"
  using step
proof cases
  case (initialize auth admin tok d mf depth sz)
  then show ?thesis by (simp add: initialize_twice [OF rep])
next
  case (deposit auth depositor c)
  then show ?thesis
    using deposit_refines [OF rep, of auth depositor c] by (auto dest!: res_rel_InrD intro: a_step.a_deposit)
next
  case (withdraw pf root n recipient relayer fee)
  then show ?thesis
    using withdraw_refines [OF rep, of vk pf root n recipient relayer fee]
    by (auto dest!: res_rel_InrD intro: a_step.a_withdraw)
next
  case (others l)
  moreover have "ledger e = p_ledger p" by (rule pool_repD [OF rep])
  ultimately show ?thesis using pool_rep_ledger [OF rep, of l] by (auto intro: a_step.a_others)
qed

lemma pool_steps_simulate:
  assumes "(pool_step vk h ext)\<^sup>*\<^sup>* e e'" and "pool_rep h e p"
  shows "\<exists>p'. pool_rep h e' p' \<and> (a_step vk h ext)\<^sup>*\<^sup>* p p'"
  using assms
proof (induction rule: rtranclp_induct)
  case base
  then show ?case by blast
next
  case (step y z)
  then show ?case by (meson pool_step_simulates rtranclp.rtrancl_into_rtrancl)
qed

lemma pool_reach_simulates:
  assumes "pool_reach vk h ext e"
  shows "\<exists>p l0. pool_rep h e p \<and> a_reach vk h ext l0 p"
  using assms
proof induction
  case (start auth admin tok d mf depth sz l e)
  then show ?case
    using initialize_refines [of h auth admin tok d mf depth sz l] by (auto dest!: res_rel_InrD intro: a_reach.a_start)
next
  case (step e e')
  then show ?case using pool_step_simulates by (meson a_reach.a_step)
qed

subsection \<open>Successful calls\<close>

lemma a_deposit_Inr:
  "a_deposit h auth d c p = Inr p' \<longleftrightarrow>
     auth d \<and> c \<notin> set (p_leaves p) \<and> length (p_leaves p) < tree_capacity (p_depth p) \<and>
     (\<exists>l. token_transfer h (p_token p) (p_ledger p) d (current_contract_address h) (p_denomination p) = Some l \<and>
       p' = p\<lparr>p_leaves := p_leaves p @ [c],
              p_log := p_log p @ [DepositEvent c (word_of_nat (length (p_leaves p)))], p_ledger := l\<rparr>)"
  by (auto simp: a_deposit_def split: option.splits)

lemma a_withdraw_Inr:
  "a_withdraw vk h proof root n recipient relayer fee p = Inr p' \<longleftrightarrow>
     p_known h p root \<and> n \<notin> p_spent p \<and> 0 \<le> sint fee \<and> sint fee \<le> sint (p_max_fee p) \<and>
     (\<exists>inputs. build_public_inputs h root n recipient relayer fee = Inr inputs \<and> verify_proof vk h proof inputs) \<and>
     (\<exists>l. a_payout h recipient relayer fee p = Some l \<and>
       p' = p\<lparr>p_spent := insert n (p_spent p), p_log := p_log p @ [WithdrawalEvent n], p_ledger := l\<rparr>)"
  by (auto simp: a_withdraw_def split: option.splits sum.splits if_splits)

lemma a_initialize_Inr:
  "a_initialize h auth admin tok d mf depth sz l = Inr p \<longleftrightarrow>
     0 < sint d \<and> depth \<noteq> 0 \<and> depth \<le> 32 \<and> sz \<noteq> 0 \<and> auth admin \<and>
     p = \<lparr>p_admin = admin, p_token = tok, p_denomination = d, p_max_fee = mf, p_depth = depth,
          p_history_size = sz, p_leaves = [], p_spent = {}, p_log = [], p_ledger = l\<rparr>"
  by (auto simp: a_initialize_def)

lemmas a_Inr = a_deposit_Inr a_withdraw_Inr a_initialize_Inr

subsection \<open>What never changes and what only grows\<close>

definition same_config :: "'l APool \<Rightarrow> 'l APool \<Rightarrow> bool" where
  "same_config p p' \<longleftrightarrow> p_admin p' = p_admin p \<and> p_token p' = p_token p \<and>
     p_denomination p' = p_denomination p \<and> p_max_fee p' = p_max_fee p \<and>
     p_depth p' = p_depth p \<and> p_history_size p' = p_history_size p"

definition grown :: "'l APool \<Rightarrow> 'l APool \<Rightarrow> bool" where
  "grown p p' \<longleftrightarrow> same_config p p' \<and> p_spent p \<subseteq> p_spent p' \<and>
     (\<exists>cs. p_leaves p' = p_leaves p @ cs) \<and> (\<exists>evs. p_log p' = p_log p @ evs)"

lemma a_step_grown: "a_step vk h ext p p' \<Longrightarrow> grown p p'"
  by (induction rule: a_step.induct) (auto simp: grown_def same_config_def a_Inr)

lemma grown_trans: "grown p q \<Longrightarrow> grown q r \<Longrightarrow> grown p r"
  by (auto simp: grown_def same_config_def)

lemma grown_refl: "grown p p"
  by (simp add: grown_def same_config_def)

lemma a_steps_grown: "(a_step vk h ext)\<^sup>*\<^sup>* p p' \<Longrightarrow> grown p p'"
  by (induction rule: rtranclp_induct) (auto intro: grown_refl grown_trans a_step_grown)

subsection \<open>The event log\<close>

definition deposits_of :: "PoolEvent list \<Rightarrow> (bytes32 \<times> u32) list" where
  "deposits_of = List.map_filter (\<lambda>ev. case ev of DepositEvent c i \<Rightarrow> Some (c, i) | _ \<Rightarrow> None)"

definition withdrawals_of :: "PoolEvent list \<Rightarrow> bytes32 list" where
  "withdrawals_of = List.map_filter (\<lambda>ev. case ev of WithdrawalEvent n \<Rightarrow> Some n | _ \<Rightarrow> None)"

lemma events_simps [simp]:
  "deposits_of [] = []" "withdrawals_of [] = []"
  "deposits_of (evs @ [DepositEvent c i]) = deposits_of evs @ [(c, i)]"
  "deposits_of (evs @ [WithdrawalEvent n]) = deposits_of evs"
  "withdrawals_of (evs @ [DepositEvent c i]) = withdrawals_of evs"
  "withdrawals_of (evs @ [WithdrawalEvent n]) = withdrawals_of evs @ [n]"
  by (simp_all add: deposits_of_def withdrawals_of_def List.map_filter_def)

definition log_ok :: "'l APool \<Rightarrow> bool" where
  "log_ok p \<longleftrightarrow>
     deposits_of (p_log p) = zip (p_leaves p) (map word_of_nat [0..<length (p_leaves p)]) \<and>
     distinct (withdrawals_of (p_log p)) \<and> set (withdrawals_of (p_log p)) = p_spent p"

lemma log_ok_deposit:
  "log_ok p \<Longrightarrow> log_ok (p\<lparr>p_leaves := p_leaves p @ [c],
     p_log := p_log p @ [DepositEvent c (word_of_nat (length (p_leaves p)))], p_ledger := l\<rparr>)"
  by (simp add: log_ok_def)

lemma log_ok_withdraw:
  "log_ok p \<Longrightarrow> n \<notin> p_spent p \<Longrightarrow>
   log_ok (p\<lparr>p_spent := insert n (p_spent p), p_log := p_log p @ [WithdrawalEvent n], p_ledger := l\<rparr>)"
  by (simp add: log_ok_def)

lemma a_step_log: "a_step vk h ext p p' \<Longrightarrow> log_ok p \<Longrightarrow> log_ok p'"
proof (induction rule: a_step.induct)
  case (a_deposit auth d c p p')
  then show ?case using log_ok_deposit by (metis a_deposit_Inr)
next
  case (a_withdraw pf root n recipient relayer fee p p')
  then show ?case using log_ok_withdraw by (metis a_withdraw_Inr)
next
  case (a_others p l)
  then show ?case by (simp add: log_ok_def)
qed

lemma a_reach_log: "a_reach vk h ext l0 p \<Longrightarrow> log_ok p"
proof (induction rule: a_reach.induct)
  case (a_start auth admin tok d mf depth sz p)
  then show ?case by (auto simp: a_Inr log_ok_def)
qed (rule a_step_log)

subsection \<open>Solvency\<close>

definition pool_balance :: "('fr, 'fq, 'g1, 'g1p, 'g2, 'gt, 'l) pool_host \<Rightarrow> (Address \<Rightarrow> 'l \<Rightarrow> Address \<Rightarrow> int) \<Rightarrow>
    'l APool \<Rightarrow> int" where
  "pool_balance h bal p = bal (p_token p) (p_ledger p) (current_contract_address h)"

text \<open>What the deposits paid in and the withdrawals have not paid out.\<close>

definition escrow :: "'l APool \<Rightarrow> int" where
  "escrow p = sint (p_denomination p) * (int (length (p_leaves p)) - int (card (p_spent p)))"


lemma token_transferD:
  assumes "token_laws h bal" and "token_transfer h tok l a b x = Some l'"
  shows "0 \<le> sint x" and "sint x \<le> bal tok l a"
    and "bal tok l' c = bal tok l c - (if c = a then sint x else 0) + (if c = b then sint x else 0)"
  using assms unfolding token_laws_def by blast+

lemma payout_balance:
  assumes laws: "token_laws h bal" and pay: "a_payout h recipient relayer fee p = Some l"
    and fee: "0 \<le> sint fee" and pos: "0 < sint (p_denomination p)"
  shows "sint fee \<le> sint (p_denomination p)"
    and "bal (p_token p) l c = bal (p_token p) (p_ledger p) c
      - (if c = current_contract_address h then sint (p_denomination p) else 0)
      + (if c = recipient then sint (p_denomination p) - sint fee else 0)
      + (if c = relayer then sint fee else 0)"
proof -
  note amt = withdrawal_amount(2) [OF pos fee]
  obtain l1 where t1: "token_transfer h (p_token p) (p_ledger p) (current_contract_address h) recipient
      (p_denomination p - fee) = Some l1"
    and t2: "(if 0 < sint fee then token_transfer h (p_token p) l1 (current_contract_address h) relayer fee else Some l1) = Some l"
    using pay by (auto simp: a_payout_def split: bind_splits)
  note b1 = token_transferD [OF laws t1]
  show "sint fee \<le> sint (p_denomination p)" using b1(1) amt by simp
  show "bal (p_token p) l c = bal (p_token p) (p_ledger p) c
      - (if c = current_contract_address h then sint (p_denomination p) else 0)
      + (if c = recipient then sint (p_denomination p) - sint fee else 0)
      + (if c = relayer then sint fee else 0)"
  proof (cases "0 < sint fee")
    case True
    then have "token_transfer h (p_token p) l1 (current_contract_address h) relayer fee = Some l" using t2 by simp
    note b2 = token_transferD [OF laws this]
    show ?thesis using b1(3) [of c] b2(3) [of c] amt by simp
  next
    case False
    then have "sint fee = 0" "l = l1" using fee t2 by simp_all
    then show ?thesis using b1(3) [of c] amt by simp
  qed
qed

definition pool_inv :: "'l APool \<Rightarrow> bool" where
  "pool_inv p \<longleftrightarrow> finite (p_spent p) \<and> 0 < sint (p_denomination p)"

lemma pool_rep_inv: "pool_rep h e p \<Longrightarrow> pool_inv p"
  by (auto simp: pool_rep_def pool_inv_def sets_rep_def config_rep_def)

lemma a_step_inv: "a_step vk h ext p p' \<Longrightarrow> pool_inv p \<Longrightarrow> pool_inv p'"
  by (induction rule: a_step.induct) (auto simp: pool_inv_def a_Inr)

definition ext_keeps :: "('fr, 'fq, 'g1, 'g1p, 'g2, 'gt, 'l) pool_host \<Rightarrow> (Address \<Rightarrow> 'l \<Rightarrow> Address \<Rightarrow> int) \<Rightarrow>
    ('l \<Rightarrow> 'l \<Rightarrow> bool) \<Rightarrow> bool" where
  "ext_keeps h bal ext \<longleftrightarrow>
     (\<forall>tok l l'. ext l l' \<longrightarrow> bal tok l (current_contract_address h) \<le> bal tok l' (current_contract_address h))"

text \<open>No step lets the balance fall behind the escrow.\<close>

lemma a_step_solvent:
  assumes laws: "token_laws h bal" and ext: "ext_keeps h bal ext"
    and step: "a_step vk h ext p p'" and inv: "pool_inv p"
  shows "pool_balance h bal p - escrow p \<le> pool_balance h bal p' - escrow p'"
  using step
proof cases
  case (a_deposit auth depositor c)
  then obtain l where t: "token_transfer h (p_token p) (p_ledger p) depositor (current_contract_address h) (p_denomination p) = Some l"
    and p': "p' = p\<lparr>p_leaves := p_leaves p @ [c],
              p_log := p_log p @ [DepositEvent c (word_of_nat (length (p_leaves p)))], p_ledger := l\<rparr>"
    and "depositor \<noteq> current_contract_address h"
    by (auto simp: a_Inr)
  with token_transferD(3) [OF laws t, of "current_contract_address h"]
  show ?thesis by (simp add: pool_balance_def escrow_def algebra_simps)
next
  case (a_withdraw pf root n recipient relayer fee)
  then obtain l where pay: "a_payout h recipient relayer fee p = Some l" and fee: "0 \<le> sint fee" and n: "n \<notin> p_spent p"
    and p': "p' = p\<lparr>p_spent := insert n (p_spent p), p_log := p_log p @ [WithdrawalEvent n], p_ledger := l\<rparr>"
    by (auto simp: a_Inr)
  have pos: "0 < sint (p_denomination p)" and fin: "finite (p_spent p)" using inv by (simp_all add: pool_inv_def)
  note b = payout_balance [OF laws pay fee pos]
  show ?thesis using b(1) b(2) [of "current_contract_address h"] n fin fee
    by (simp add: p' pool_balance_def escrow_def algebra_simps)
next
  case (a_others l)
  then show ?thesis using ext by (auto simp: pool_balance_def escrow_def ext_keeps_def)
qed

lemma a_steps_solvent:
  assumes "(a_step vk h ext)\<^sup>*\<^sup>* p p'" and "token_laws h bal" and "ext_keeps h bal ext" and "pool_inv p"
  shows "pool_inv p' \<and> pool_balance h bal p - escrow p \<le> pool_balance h bal p' - escrow p'"
  using assms
proof (induction rule: rtranclp_induct)
  case base
  then show ?case by simp
next
  case (step y z)
  then have inv: "pool_inv y" and le: "pool_balance h bal p - escrow p \<le> pool_balance h bal y - escrow y"
    by simp_all
  show ?case
    using a_step_inv [OF step.hyps(2) inv] a_step_solvent [OF step.prems(1,2) step.hyps(2) inv] le by simp
qed

end
