(* ===== verification/VkCurve.thy ===== *)
theory VkCurve
  imports VkConstants
begin

text \<open>
  The compiled verification key against the equations of BN254: the seven G1 points satisfy
  the curve equation; none of the three G2 points does as it is stored, and all three do
  once the two coordinates of each \<open>Fq2\<close> element are exchanged.
\<close>

subsection \<open>The curve equations\<close>

text \<open>The order of the base field of BN254.\<close>

definition bn254_q :: int where
  "bn254_q = 21888242871839275222246405745257275088696311157297823662689037894645226208583"

definition g1_equation :: "int \<Rightarrow> int \<Rightarrow> bool" where
  "g1_equation x y \<longleftrightarrow> (y * y - x * x * x - 3) mod bn254_q = 0"

text \<open>
  Multiplication and subtraction in \<open>Fq2 = Fq[u]/(u^2 + 1)\<close> on (real, imaginary) pairs of
  integers, reduced modulo \<open>q\<close> only at the end.
\<close>

definition fq2_mul :: "int \<times> int \<Rightarrow> int \<times> int \<Rightarrow> int \<times> int" where
  "fq2_mul a b = (fst a * fst b - snd a * snd b, fst a * snd b + snd a * fst b)"

definition fq2_sub :: "int \<times> int \<Rightarrow> int \<times> int \<Rightarrow> int \<times> int" where
  "fq2_sub a b = (fst a - fst b, snd a - snd b)"

text \<open>
  The sextic twist \<open>y^2 = x^3 + 3 / (9 + u)\<close>, cleared of its denominator.
\<close>

definition twist :: "int \<times> int \<Rightarrow> int \<times> int \<Rightarrow> int \<times> int" where
  "twist x y = fq2_mul (9, 1) (fq2_sub (fq2_mul y y) (fq2_mul (fq2_mul x x) x))"

definition g2_equation :: "int \<times> int \<Rightarrow> int \<times> int \<Rightarrow> bool" where
  "g2_equation x y \<longleftrightarrow> fst (twist x y) mod bn254_q = 3 \<and> snd (twist x y) mod bn254_q = 0"

definition bytes_int :: "bytes32 \<Rightarrow> int" where
  "bytes_int b = int (array_val b)"

definition g1_point_ok :: "G1Point \<Rightarrow> bool" where
  "g1_point_ok p \<longleftrightarrow> g1_equation (bytes_int (g1x p)) (bytes_int (g1y p))"

definition g2_point_ok :: "G2Point \<Rightarrow> bool" where
  "g2_point_ok p \<longleftrightarrow>
     g2_equation (bytes_int (x_c0 p), bytes_int (x_c1 p)) (bytes_int (y_c0 p), bytes_int (y_c1 p))"

definition swap_g2 :: "G2Point \<Rightarrow> G2Point" where
  "swap_g2 p = \<lparr>x_c0 = x_c1 p, x_c1 = x_c0 p, y_c0 = y_c1 p, y_c1 = y_c0 p\<rparr>"

lemma g1_equation_witness: "y * y - x * x * x - 3 = bn254_q * k \<Longrightarrow> g1_equation x y"
  by (simp add: g1_equation_def)

lemma g2_equation_witness:
  "fst (twist x y) = bn254_q * k + 3 \<Longrightarrow> snd (twist x y) = bn254_q * j \<Longrightarrow> g2_equation x y"
  by (simp add: g2_equation_def) (simp add: bn254_q_def)

lemma g2_off_witness:
  assumes "fst (twist x y) = bn254_q * k + r" and "0 \<le> r" "r < bn254_q" "r \<noteq> 3"
  shows "\<not> g2_equation x y"
  using assms by (simp add: g2_equation_def)

subsection \<open>The values of the constants\<close>

text \<open>Big-endian reading from the front, the order in which the evaluation runs.\<close>

fun be_int :: "int \<Rightarrow> u8 list \<Rightarrow> int" where
  "be_int acc [] = acc"
| "be_int acc (b # bs) = be_int (acc * 256 + uint b) bs"

lemma be_int_eq: "be_int acc bs = acc * 256 ^ length bs + int (be_val bs)"
proof (induction acc bs rule: be_int.induct)
  case (1 acc)
  then show ?case by (simp add: be_val_def)
next
  case (2 acc b bs)
  then show ?case by (simp add: be_val_def le_val_append algebra_simps flip: uint_nat)
qed

lemma bytes_int_array_of: "length bs = 32 \<Longrightarrow> bytes_int (array_of bs) = be_int 0 bs"
  by (simp add: bytes_int_def array_val_def be_int_eq)

lemma vk_alpha_g1_values:
  "bytes_int (g1x vk_alpha_g1) =
     1886724593712249353989255405122290468974204319628857588097503570421628068379"
  "bytes_int (g1y vk_alpha_g1) =
     14742257473660962582137839710821262199620717253606487570008702978510442146160"
  by (simp_all add: vk_alpha_g1_def bytes_int_array_of)

lemma vk_beta_g2_values:
  "bytes_int (x_c0 vk_beta_g2) =
     8449475473696288076731028088095715362987117237987702678832469680955328277870"
  "bytes_int (x_c1 vk_beta_g2) =
     8728215000775859963145572547130450953000348713300099892475461208613115051602"
  "bytes_int (y_c0 vk_beta_g2) =
     13896583394314312896600818376008761840767726927872509219622981852488740538700"
  "bytes_int (y_c1 vk_beta_g2) =
     2357285333260997837792703133891071038589106196072929440241746366346082756543"
  by (simp_all add: vk_beta_g2_def bytes_int_array_of)

lemma vk_gamma_g2_values:
  "bytes_int (x_c0 vk_gamma_g2) =
     11559732032986387107991004021392285783925812861821192530917403151452391805634"
  "bytes_int (x_c1 vk_gamma_g2) =
     10857046999023057135944570762232829481370756359578518086990519993285655852781"
  "bytes_int (y_c0 vk_gamma_g2) =
     4082367875863433681332203403145435568316851327593401208105741076214120093531"
  "bytes_int (y_c1 vk_gamma_g2) =
     8495653923123431417604973247489272438418190587263600148770280649306958101930"
  by (simp_all add: vk_gamma_g2_def bytes_int_array_of)

lemma vk_delta_g2_values:
  "bytes_int (x_c0 vk_delta_g2) =
     10413815869216860249265853751954010941289937086379681924270005079179176150089"
  "bytes_int (x_c1 vk_delta_g2) =
     697521454443987657961736206995903551151637493349044936575137872798996067559"
  "bytes_int (y_c0 vk_delta_g2) =
     9573560977153093229097113070084363616927506995803489707695849063824993100143"
  "bytes_int (y_c1 vk_delta_g2) =
     5320713863074811996111445502974257544578668212280959438200150860685337028116"
  by (simp_all add: vk_delta_g2_def bytes_int_array_of)

lemma vk_ic_0_values:
  "bytes_int (g1x vk_ic_0) =
     20775672473858717890248333110650644462415116027819424738522047354638037845453"
  "bytes_int (g1y vk_ic_0) =
     6172489279185468287677749782435815244355868783490130051180881200277817791071"
  by (simp_all add: vk_ic_0_def bytes_int_array_of)

lemma vk_ic_1_values:
  "bytes_int (g1x vk_ic_1) =
     12785857292399353398392161337024509229806999186247198564960682012071221136317"
  "bytes_int (g1y vk_ic_1) =
     1264917426904667962718476406477247039764341992229850680093295311843411544877"
  by (simp_all add: vk_ic_1_def bytes_int_array_of)

lemma vk_ic_2_values:
  "bytes_int (g1x vk_ic_2) =
     18673045279620345138680258815217897500896007704088049230025202503892507620540"
  "bytes_int (g1y vk_ic_2) =
     2908415437212358228599028193290193328826918376735229172220570965266629936229"
  by (simp_all add: vk_ic_2_def bytes_int_array_of)

lemma vk_ic_3_values:
  "bytes_int (g1x vk_ic_3) =
     14037006976526446098209025403323926839913693834793709514188038545579999092472"
  "bytes_int (g1y vk_ic_3) =
     87212550011047506919424433116079738620808740714737467418422037892652735842"
  by (simp_all add: vk_ic_3_def bytes_int_array_of)

lemma vk_ic_4_values:
  "bytes_int (g1x vk_ic_4) =
     14656656124207496336229035194449627287390567631744685343540273339374015726423"
  "bytes_int (g1y vk_ic_4) =
     1954841349375050613239971049780349485028157224143312142876606758054107230699"
  by (simp_all add: vk_ic_4_def bytes_int_array_of)

lemma vk_ic_5_values:
  "bytes_int (g1x vk_ic_5) =
     12583684535694115120727559333231303513141867673898817056050289364296815195670"
  "bytes_int (g1y vk_ic_5) =
     10940350031060375571028403337763590751290875976060585081846773749003001880188"
  by (simp_all add: vk_ic_5_def bytes_int_array_of)

subsection \<open>The constants against the equations\<close>

text \<open>Each proof gives the quotient, so that the kernel only multiplies.\<close>

lemma vk_alpha_g1_ok: "g1_point_ok vk_alpha_g1"
  unfolding g1_point_ok_def vk_alpha_g1_values
  by (rule g1_equation_witness [where k = "(- 306841878407863175075412997105073091594002629358117749955844015551711386676256311899240543583235299870979069859571596503692711401842013664915906730474)"])
    (simp add: bn254_q_def)

lemma vk_beta_g2_twist_off:
  "twist (8449475473696288076731028088095715362987117237987702678832469680955328277870,
      8728215000775859963145572547130450953000348713300099892475461208613115051602)
     (13896583394314312896600818376008761840767726927872509219622981852488740538700,
      2357285333260997837792703133891071038589106196072929440241746366346082756543) =
   (13155121874783707803577084365264700098726717327454607817251780266284358390345847019713426390154578822948417778577804469648609329766167952660026439399853944678782133079193081328881541888192423874874936970897169832753483246217265311,
    - 9512529467210838116596972137212708634805871503646900302478549901015001860986497932098256462662083334896827254620550835091508787474781684493912518511201821169243028316068154553446353168091459831141946882036698332801501359046191337)"
  by code_simp

lemma vk_beta_g2_off: "\<not> g2_point_ok vk_beta_g2"
  unfolding g2_point_ok_def vk_beta_g2_values
  by (rule g2_off_witness [where k = "601013153582495825163905729592462448146664810696248884887412812894159658292044188910371317069022073832977077400286281380002388444135212258964803812925477"
        and r = "20499507746760225703075980730730083393752097153130221252065073717711980496220"])
    (simp_all add: bn254_q_def vk_beta_g2_twist_off)

lemma vk_beta_g2_twist_swapped:
  "twist (8728215000775859963145572547130450953000348713300099892475461208613115051602,
      8449475473696288076731028088095715362987117237987702678832469680955328277870)
     (2357285333260997837792703133891071038589106196072929440241746366346082756543,
      13896583394314312896600818376008761840767726927872509219622981852488740538700) =
   (12168226233206997436489576701850991372701836977877255669619707766759982925671149535898780292548569776822913206573440118886284100367550834862352242868025239195444649173945122402014652636513494881874150793454672835856811220865854609,
    - 10746149019181726075456356716479844542336971940618590487018640525420471191826024843030763224294298083463377145565916218859495289427998214044689542036537587639340409691309195804430220015251154062444813854252890052420455912573682119)"
  by code_simp

lemma vk_beta_g2_swapped_ok: "g2_point_ok (swap_g2 vk_beta_g2)"
  unfolding g2_point_ok_def swap_g2_def G2Point.select_convs vk_beta_g2_values
  by (rule g2_equation_witness [where k = "555925219966480477653039963761324759413198557357916002319406523851193923719173689285254734067169510819929199744453502918857856249341336216582954685447682"
        and j = "(- 490955307929600113321069380985975938482361755558124006487731665349995016912418837844689307723374008791229721383165679543444311414393246988016289446123393)"])
    (simp_all add: bn254_q_def vk_beta_g2_twist_swapped)

lemma vk_gamma_g2_twist_off:
  "twist (11559732032986387107991004021392285783925812861821192530917403151452391805634,
      10857046999023057135944570762232829481370756359578518086990519993285655852781)
     (4082367875863433681332203403145435568316851327593401208105741076214120093531,
      8495653923123431417604973247489272438418190587263600148770280649306958101930) =
   (25960783323803792660185938580823252847608392291579973879870245633249837943764200066485054312082253831116086965949751273795526942066580988596373717592375435279257002549395087585612169255852743001718563770095795251334183570710779718,
    - 25110428200065152912393419910610392184892866846485885390661420805765161552530037278341901145674158812481849206417320530435253276406882739237269063496249521238499087791364406836559734352367804822851414405889497333669658116948971584)"
  by code_simp

lemma vk_gamma_g2_off: "\<not> g2_point_ok vk_gamma_g2"
  unfolding g2_point_ok_def vk_gamma_g2_values
  by (rule g2_off_witness [where k = "1186060638846625732596944500959604552471280505802470146212353589415484195840393110213948017003331721767494530441168005398749938065776222096043695356506681"
        and r = "19843850822393550949325951556536543292239070357674841407738984881269571736695"])
    (simp_all add: bn254_q_def vk_gamma_g2_twist_off)

lemma vk_gamma_g2_twist_swapped:
  "twist (10857046999023057135944570762232829481370756359578518086990519993285655852781,
      11559732032986387107991004021392285783925812861821192530917403151452391805634)
     (8495653923123431417604973247489272438418190587263600148770280649306958101930,
      4082367875863433681332203403145435568316851327593401208105741076214120093531) =
   (30196687266264396352131957162239633244492444011796467818177781534874512282807922015700067078315483270196037498444750041693870321086342924122644344618713074092475546782503490907836848838033294234316388358007805438253758911643481812,
    - 19815548271989398297460896683839916688787802196215267967777000928734318628726522805189341004849896719124756702365388173237929624387570322515696246746296078687742287065662117884117410706127158797724579484393225964090641194457471216)"
  by code_simp

lemma vk_gamma_g2_swapped_ok: "g2_point_ok (swap_g2 vk_gamma_g2)"
  unfolding g2_point_ok_def swap_g2_def G2Point.select_convs vk_gamma_g2_values
  by (rule g2_equation_witness [where k = "1379584804640234705325595887932360282372673459194568314982909526665738212395468513934421287412622361811835200366341521914261821432538181541707005113046823"
        and j = "(- 905305573773738567213609038698813602749210990128754028996507785651080202947422531040766146140066427203911166069337361461943650652197451178678431516350352)"])
    (simp_all add: bn254_q_def vk_gamma_g2_twist_swapped)

lemma vk_delta_g2_twist_off:
  "twist (10413815869216860249265853751954010941289937086379681924270005079179176150089,
      697521454443987657961736206995903551151637493349044936575137872798996067559)
     (9573560977153093229097113070084363616927506995803489707695849063824993100143,
      5320713863074811996111445502974257544578668212280959438200150860685337028116) =
   (- 9800781398584474663360391129004141135540648214520753164457040120501248721197708414186369086385518465841004582783386093247246006481142273584434599628215198005898626127098064655984461388489450716595314074494399779866615591616630479,
    - 3153500024069973372564827294506884831406867271091840979615347912348281811662210423579445172857272614243588994543088760296210039335353151276981298811592762010856242019818827018554844579405056595040824503302821818294620193779608707)"
  by code_simp

lemma vk_delta_g2_off: "\<not> g2_point_ok vk_delta_g2"
  unfolding g2_point_ok_def vk_delta_g2_values
  by (rule g2_off_witness [where k = "(- 447764649541323014297364211471697504328806024483159832637238626259239470907387798549216382753610228628329413564242838658828926597619313877917447848418226)"
        and r = "4241761043946616768921069645145382254516816832199120647697487951264078203279"])
    (simp_all add: bn254_q_def vk_delta_g2_twist_off)

lemma vk_delta_g2_twist_swapped:
  "twist (697521454443987657961736206995903551151637493349044936575137872798996067559,
      10413815869216860249265853751954010941289937086379681924270005079179176150089)
     (5320713863074811996111445502974257544578668212280959438200150860685337028116,
      9573560977153093229097113070084363616927506995803489707695849063824993100143) =
   (925194350622894217862184673639954220400216022267972212304891595351708145749182585376165961686607414751088269651118193081888561796351034933050626924935875467938529188854526115943938170229921711954742694802225249394798023583909087,
    10253969662439237728963392458798234363519213024894065741337066732467914272022701858886019953233668127301388111425989446127014236197615019053742645922727470781882354041208046824835024225790023131275401965913893582718477909789341107)"
  by code_simp

lemma vk_delta_g2_swapped_ok: "g2_point_ok (swap_g2 vk_delta_g2)"
  unfolding g2_point_ok_def swap_g2_def G2Point.select_convs vk_delta_g2_values
  by (rule g2_equation_witness [where k = "42269009716317620319884046437536241334621997558316713637406162359182192606712070453016665087403056056877649801735331375755187061871287732133709672583748"
        and j = "468469292966027554226772227206935596237316124545860089021585978446536451016650538136881010057452651917009288032062582842217413713637678043280654267173429"])
    (simp_all add: bn254_q_def vk_delta_g2_twist_swapped)

lemma vk_ic_0_ok: "g1_point_ok vk_ic_0"
  unfolding g1_point_ok_def vk_ic_0_values
  by (rule g1_equation_witness [where k = "(- 409689063917975844695088985863588054941668537221336398610857485963365869387110642224861214265722909068504993145494458906177701885944354095555180356406833)"])
    (simp add: bn254_q_def)

lemma vk_ic_1_ok: "g1_point_ok vk_ic_1"
  unfolding g1_point_ok_def vk_ic_1_values
  by (rule g1_equation_witness [where k = "(- 95494566027581953640615430423181192576326338406710087020426393282455123521843661143206518285458527007431253995998383887105237824912654117046073643926089)"])
    (simp add: bn254_q_def)

lemma vk_ic_2_ok: "g1_point_ok vk_ic_2"
  unfolding g1_point_ok_def vk_ic_2_values
  by (rule g1_equation_witness [where k = "(- 297464094759699388527469579915442560334332268304089380935369587776920900287895698384479876371020505127657598264212536054430084373234315053493474775439814)"])
    (simp add: bn254_q_def)

lemma vk_ic_3_ok: "g1_point_ok vk_ic_3"
  unfolding g1_point_ok_def vk_ic_3_values
  by (rule g1_equation_witness [where k = "(- 126360881901703984464546836944603733216382654410181097627450888177290223401421903723735495891517940515424227518728102949580185251474683339405738388724489)"])
    (simp add: bn254_q_def)

lemma vk_ic_4_ok: "g1_point_ok vk_ic_4"
  unfolding g1_point_ok_def vk_ic_4_values
  by (rule g1_equation_witness [where k = "(- 143844677388844692904651173879156398887100034972519436284926287164850018626302145159574860800202627533892512710456651408211746275847686951612248499671143)"])
    (simp add: bn254_q_def)

lemma vk_ic_5_ok: "g1_point_ok vk_ic_5"
  unfolding g1_point_ok_def vk_ic_5_values
  by (rule g1_equation_witness [where k = "(- 91035874379315255517585619332188860733502617464405264555492530178542982704667377553949412566824040401933839662033344827443268630968513809142748984911773)"])
    (simp add: bn254_q_def)

lemmas vk_g1_points_ok =
  vk_alpha_g1_ok vk_ic_0_ok vk_ic_1_ok vk_ic_2_ok vk_ic_3_ok vk_ic_4_ok vk_ic_5_ok

lemmas vk_g2_points_off = vk_beta_g2_off vk_gamma_g2_off vk_delta_g2_off
lemmas vk_g2_points_swapped = vk_beta_g2_swapped_ok vk_gamma_g2_swapped_ok vk_delta_g2_swapped_ok

end
