(* ===== verification/Instances.thy ===== *)
theory Instances
  imports PoolTrace VkCurve
begin

text \<open>
  Concrete instances of the parameters of the model, at which the theorems with hypotheses
  are applied: the field of integers modulo the BN254 order, the curve points as pairs of
  integers with BN254's equations, and a token ledger that moves balances.
\<close>

subsection \<open>The field\<close>

typedef bn_fr = "{n :: nat. n < bn254_r}"
  by (rule exI [of _ 0]) (simp add: bn254_r_def)

lemma bn254_r_pos: "0 < bn254_r"
  by (simp add: bn254_r_def)

lemma bn254_r_less: "bn254_r < 256 ^ 32"
  by (simp add: bn254_r_def)

definition fr_of :: "nat \<Rightarrow> bn_fr" where
  "fr_of n = Abs_bn_fr (n mod bn254_r)"

lemma Rep_fr_of [simp]: "Rep_bn_fr (fr_of n) = n mod bn254_r"
  unfolding fr_of_def by (rule Abs_bn_fr_inverse) (simp add: bn254_r_pos)

lemma fr_of_Rep [simp]: "fr_of (Rep_bn_fr x) = x"
  using Rep_bn_fr [of x] by (simp add: fr_of_def Rep_bn_fr_inverse)

subsection \<open>The host\<close>

type_synonym demo_ledger = "Address \<Rightarrow> Address \<Rightarrow> int"
type_synonym demo_g2 = "(int \<times> int) \<times> (int \<times> int)"

definition demo_transfer :: "Address \<Rightarrow> demo_ledger \<Rightarrow> Address \<Rightarrow> Address \<Rightarrow> i128 \<Rightarrow> demo_ledger option" where
  "demo_transfer tok l a b x =
     (if 0 \<le> sint x \<and> sint x \<le> l tok a
      then (let l1 = l(tok := (l tok)(a := l tok a - sint x))
            in Some (l1(tok := (l1 tok)(b := l1 tok b + sint x))))
      else None)"

definition demo_bal :: "Address \<Rightarrow> demo_ledger \<Rightarrow> Address \<Rightarrow> int" where
  "demo_bal tok l a = l tok a"

definition pool_address :: Address where
  "pool_address = Address ''CPOOL''"

definition demo_host :: "(bn_fr, int, int \<times> int, int \<times> int, demo_g2, bool, demo_ledger) pool_host" where
  "demo_host =
    \<lparr>fr_from_le_bytes_mod_order = (\<lambda>bs. fr_of (le_val bs)),
     fr_to_bytes_le = (\<lambda>x. to_le_bytes 32 (Rep_bn_fr x)),
     poseidon1 = (\<lambda>x. fr_of (Rep_bn_fr x + 7)),
     poseidon2 = (\<lambda>x y. fr_of (3 * Rep_bn_fr x + 5 * Rep_bn_fr y + 1)),
     fq_from_le_bytes_mod_order = (\<lambda>bs. int (le_val bs)),
     g1_new_unchecked = Pair,
     g1_is_on_curve = (\<lambda>(x, y). g1_equation x y),
     g1_in_subgroup = (\<lambda>_. True),
     g1_identity = (0, 0),
     g1_neg = (\<lambda>(x, y). (x, - y)),
     g1_into_projective = id,
     g1_mul = (\<lambda>(x, y) k. (x * int (Rep_bn_fr k), y)),
     g1p_add = (\<lambda>(a, b) (c, d). (a + c, b + d)),
     g1p_into_affine = id,
     g2_new_unchecked = Pair,
     g2_is_on_curve = (\<lambda>(x, y). g2_equation x y),
     g2_in_subgroup = (\<lambda>_. True),
     multi_pairing = (\<lambda>ps qs. length ps = length qs),
     gt_is_zero = id,
     host_sha256 = (\<lambda>bs. be_array (be_val bs)),
     current_contract_address = pool_address,
     token_transfer = demo_transfer\<rparr>"

text \<open>The same host with a curve library that accepts every pair of coordinates.\<close>

definition lax_host :: "(bn_fr, int, int \<times> int, int \<times> int, demo_g2, bool, demo_ledger) pool_host" where
  "lax_host = demo_host\<lparr>g1_is_on_curve := \<lambda>_. True, g2_is_on_curve := \<lambda>_. True\<rparr>"

lemma demo_fr_laws: "fr_laws demo_host"
proof -
  have small: "Rep_bn_fr x mod 256 ^ 32 = Rep_bn_fr x" for x
    using Rep_bn_fr [of x] bn254_r_less by simp
  have below: "n mod bn254_r mod 256 ^ 32 = n mod bn254_r" for n
    using small [of "fr_of n"] by simp
  show ?thesis
    unfolding fr_laws_def demo_host_def
    by (simp add: le_val_to_le_bytes small below del: power_numeral numeral_power_eq_of_nat_cancel_iff)
qed

lemma lax_fr_laws: "fr_laws lax_host"
  using demo_fr_laws by (simp add: fr_laws_def lax_host_def)

lemma demo_token_laws: "token_laws demo_host demo_bal"
  by (auto simp: token_laws_def demo_host_def demo_transfer_def demo_bal_def Let_def split: if_splits)

lemma lax_token_laws: "token_laws lax_host demo_bal"
  using demo_token_laws by (simp add: token_laws_def lax_host_def)

subsection \<open>A pool\<close>

definition demo_auth :: "Address \<Rightarrow> bool" where
  "demo_auth a \<longleftrightarrow> a \<noteq> pool_address"

definition demo_token :: Address where "demo_token = Address ''CTOKEN''"
definition alice :: Address where "alice = Address ''GALICE''"
definition bob :: Address where "bob = Address ''GBOB''"
definition carol :: Address where "carol = Address ''GCAROL''"

lemmas demo_names = demo_token_def alice_def bob_def carol_def pool_address_def

definition demo_start :: demo_ledger where
  "demo_start tok a = (if tok = demo_token then 1000 else 0)"

text \<open>A pool of denomination 100 and depth 2 that keeps 3 roots, whose maximal fee is 150.\<close>

definition demo_pool :: "demo_ledger APool" where
  "demo_pool = \<lparr>p_admin = carol, p_token = demo_token, p_denomination = 100, p_max_fee = 150,
     p_depth = 2, p_history_size = 3, p_leaves = [], p_spent = {}, p_log = [], p_ledger = demo_start\<rparr>"

lemma demo_initialize:
  "a_initialize h demo_auth carol demo_token 100 150 2 3 demo_start = Inr demo_pool"
  by (simp add: a_initialize_def demo_pool_def demo_auth_def demo_names)

definition demo_env :: "('fr, 'fq, 'g1, 'g1p, 'g2, 'gt, demo_ledger) pool_host \<Rightarrow> demo_ledger pool_env" where
  "demo_env h = state_after (fresh_env demo_start)
     (initialize h demo_auth carol demo_token 100 150 2 3 (fresh_env demo_start))"

lemma demo_env_ok:
  "initialize h demo_auth carol demo_token 100 150 2 3 (fresh_env demo_start) = Inr (demo_env h)"
  "pool_rep h (demo_env h) demo_pool"
  using initialize_refines [of h demo_auth carol demo_token 100 150 2 3 demo_start]
  unfolding demo_env_def demo_initialize by (blast dest: state_after_Inr)+

lemma demo_reach: "pool_reach vk h ext (demo_env h)"
  by (rule pool_reach.start [OF demo_env_ok(1)])

lemma demo_self [simp]:
  "current_contract_address demo_host = pool_address" "current_contract_address lax_host = pool_address"
  "token_transfer demo_host = demo_transfer" "token_transfer lax_host = demo_transfer"
  "p_token demo_pool = demo_token" "p_denomination demo_pool = 100" "p_max_fee demo_pool = 150"
  "p_ledger demo_pool = demo_start" "p_leaves demo_pool = []" "p_spent demo_pool = {}"
  "p_depth demo_pool = 2" "p_history_size demo_pool = 3" "p_log demo_pool = []" "p_admin demo_pool = carol"
  by (simp_all add: demo_host_def lax_host_def demo_pool_def)

definition demo_root :: "('fr, 'c) field_crypto_scheme \<Rightarrow> bytes32" where
  "demo_root c = tree_root c 2 []"

lemma demo_known: "p_known c demo_pool (demo_root c)"
  by (simp add: p_known_def p_roots_def window_def demo_root_def)

subsection \<open>Calls on the demo pool\<close>

definition demo_commitment :: bytes32 where "demo_commitment = be_array 11"
definition demo_nullifier :: bytes32 where "demo_nullifier = be_array 5"
definition demo_proof :: bytes256 where "demo_proof = array_of []"

lemma lax_decode [simp]:
  "decode_g1 lax_host p \<noteq> None" "decode_g2 lax_host q \<noteq> None"
  by (simp_all add: decode_g1_def decode_g2_def lax_host_def demo_host_def Let_def)

lemma lax_decode_ic: "decode_ic lax_host i ps arr \<noteq> None"
  by (induction ps arbitrary: i arr) (auto split: bind_splits)

lemma lax_load: "load_verification_key True lax_host \<noteq> None"
  using lax_decode lax_decode_ic [of 0 "raw_ic verification_key" "replicate (NUM_PUBLIC_INPUTS + 1) (g1_identity lax_host)"]
  by (auto simp: load_verification_key_def Let_def split: bind_splits)

lemma lax_decode_proof: "decode_proof lax_host pf \<noteq> None"
  using lax_decode by (auto simp: decode_proof_def slice32_eq split: bind_splits)

lemma lax_verify: "verify_proof True lax_host pf inputs"
  using lax_load lax_decode_proof [of pf]
  by (auto simp: verify_proof_def Let_def split: option.split)
    (simp_all add: lax_host_def demo_host_def)

lemma demo_address_bytes:
  "length (strkey a) \<le> 56 \<Longrightarrow> \<exists>b. address_to_field_bytes h a = Inr b"
  by (simp add: address_to_field_bytes_def Let_def)

lemma demo_inputs: "\<exists>i. build_public_inputs h r n bob carol fee = Inr i"
  using demo_address_bytes [of bob h] demo_address_bytes [of carol h]
  by (auto simp: build_public_inputs_def demo_names)


subsection \<open>A deposit of alice's\<close>

definition demo_deposited :: "demo_ledger APool" where
  "demo_deposited = demo_pool\<lparr>p_leaves := [demo_commitment], p_log := [DepositEvent demo_commitment 0],
     p_ledger := \<lambda>tok a. if tok = demo_token then
        (if a = pool_address then 1100 else if a = alice then 900 else 1000) else 0\<rparr>"

lemma a_deposit_any:
  assumes "token_transfer h = demo_transfer" and "current_contract_address h = pool_address"
  shows "a_deposit h demo_auth alice c demo_pool = Inr (demo_pool\<lparr>p_leaves := [c], p_log := [DepositEvent c 0],
    p_ledger := p_ledger demo_deposited\<rparr>)"
proof -
  have "demo_transfer demo_token demo_start alice pool_address 100 = Some (p_ledger demo_deposited)"
    by (rule sym) (simp add: demo_deposited_def demo_transfer_def demo_start_def demo_names Let_def fun_eq_iff)
  moreover have "demo_auth alice" by (simp add: demo_auth_def demo_names)
  ultimately show ?thesis by (simp add: a_deposit_def tree_capacity_def assms)
qed

lemma demo_a_deposit: "a_deposit demo_host demo_auth alice demo_commitment demo_pool = Inr demo_deposited"
  by (simp add: a_deposit_any) (simp add: demo_deposited_def)

definition demo_env_deposited :: "demo_ledger pool_env" where
  "demo_env_deposited = state_after (demo_env demo_host)
     (deposit demo_host demo_auth alice demo_commitment (demo_env demo_host))"

lemma demo_deposit:
  "deposit demo_host demo_auth alice demo_commitment (demo_env demo_host) = Inr demo_env_deposited"
  "pool_rep demo_host demo_env_deposited demo_deposited"
  using deposit_refines [OF demo_env_ok(2) [of demo_host], of demo_auth alice demo_commitment]
  unfolding demo_env_deposited_def demo_a_deposit by (blast dest: state_after_Inr)+

subsection \<open>A withdrawal of bob's, relayed by carol for a fee of 3\<close>

definition demo_paid :: "demo_ledger APool" where
  "demo_paid = demo_pool\<lparr>p_spent := {demo_nullifier}, p_log := [WithdrawalEvent demo_nullifier],
     p_ledger := \<lambda>tok a. if tok = demo_token then
        (if a = pool_address then 900 else if a = bob then 1097 else if a = carol then 1003 else 1000) else 0\<rparr>"

lemma demo_pay: "a_payout lax_host bob carol 3 demo_pool = Some (p_ledger demo_paid)"
  by (rule sym) (simp add: demo_paid_def a_payout_def demo_transfer_def demo_start_def demo_names Let_def fun_eq_iff)

lemma demo_a_withdraw:
  "a_withdraw True lax_host demo_proof (demo_root lax_host) demo_nullifier bob carol 3 demo_pool = Inr demo_paid"
  using demo_inputs [of lax_host "demo_root lax_host" demo_nullifier 3]
  by (auto simp: a_withdraw_Inr demo_known lax_verify demo_pay) (simp add: demo_paid_def)

definition demo_env_paid :: "demo_ledger pool_env" where
  "demo_env_paid = state_after (demo_env lax_host)
     (withdraw True lax_host demo_proof (demo_root lax_host) demo_nullifier bob carol 3 (demo_env lax_host))"

lemma demo_withdraw:
  "withdraw True lax_host demo_proof (demo_root lax_host) demo_nullifier bob carol 3 (demo_env lax_host)
     = Inr demo_env_paid"
  "pool_rep lax_host demo_env_paid demo_paid"
  using withdraw_refines [OF demo_env_ok(2) [of lax_host], of True demo_proof "demo_root lax_host"
      demo_nullifier bob carol 3]
  unfolding demo_env_paid_def demo_a_withdraw by (blast dest: state_after_Inr)+

end
