(* ===== verification/PoolProperties.thy ===== *)
theory PoolProperties
  imports Instances
begin

text \<open>
  The properties of the pool contract (\<open>contracts/mixer_pool/src\<close>), each with its witness on
  the concrete hosts of \<open>Instances\<close>.
\<close>

subsection \<open>The entry points refine the abstract pool\<close>

text \<open>(C6) \<open>deposit\<close> refines the abstract deposit: on every state that represents an abstract
  pool it fails exactly when the abstract one does, with the same error (missing signature,
  duplicate commitment, full tree, refused token transfer) in the code's order of checks, and
  otherwise stores the tree, the root history, the commitment set, the event and the ledger of
  the abstract pool with the commitment appended.\<close>

theorem pool_deposit_refines:
  assumes "pool_rep h e p"
  shows "res_rel (pool_rep h) (deposit h auth depositor c e) (a_deposit h auth depositor c p)"
  by (rule deposit_refines [OF assms])

lemma pool_deposit_refines_witness:
  "res_rel (pool_rep demo_host) (deposit demo_host demo_auth alice demo_commitment (demo_env demo_host))
     (a_deposit demo_host demo_auth alice demo_commitment demo_pool)"
  by (rule pool_deposit_refines [OF demo_env_ok(2)])

text \<open>(C5) \<open>withdraw\<close> refines the abstract withdrawal: known root, unspent nullifier, fee
  between 0 and the maximum, accepted proof, then both payments, each check with its own error
  and in the code's order; on success the nullifier is spent, the event published and the
  ledger changed by exactly the two transfers.\<close>

theorem pool_withdraw_refines:
  assumes "pool_rep h e p"
  shows "res_rel (pool_rep h) (withdraw vk h pf root n recipient relayer fee e)
    (a_withdraw vk h pf root n recipient relayer fee p)"
  by (rule withdraw_refines [OF assms])

lemma pool_withdraw_refines_witness:
  "res_rel (pool_rep lax_host)
     (withdraw True lax_host demo_proof (demo_root lax_host) demo_nullifier bob carol 3 (demo_env lax_host))
     (a_withdraw True lax_host demo_proof (demo_root lax_host) demo_nullifier bob carol 3 demo_pool)"
  by (rule pool_withdraw_refines [OF demo_env_ok(2)])

text \<open>\<open>initialize\<close> on a fresh contract checks its parameters in the code's order and
  builds exactly the empty abstract pool, whose history holds the root of the empty tree.\<close>

lemma pool_initialize_refines:
  "res_rel (pool_rep h) (initialize h auth admin tok d mf depth sz (fresh_env l))
    (a_initialize h auth admin tok d mf depth sz l)"
  by (rule initialize_refines)

subsection \<open>Reachable states\<close>

text \<open>(C11) Every state reached from an initialisation by any sequence of successful calls and
  of outside moves of the token ledger represents an abstract pool whose event log lists the
  deposits in the order of the leaves with their indices, and each spent nullifier exactly
  once: an observer who replays the deposit events rebuilds the tree.\<close>

theorem pool_reachable_invariant:
  assumes "pool_reach vk h ext e"
  shows "\<exists>p. pool_rep h e p \<and>
    deposits_of (published e) = zip (p_leaves p) (map word_of_nat [0..<length (p_leaves p)]) \<and>
    distinct (withdrawals_of (published e)) \<and> set (withdrawals_of (published e)) = p_spent p"
proof -
  obtain p l0 where rep: "pool_rep h e p" and reach: "a_reach vk h ext l0 p"
    using pool_reach_simulates [OF assms] by blast
  with a_reach_log [OF reach] show ?thesis
    by (intro exI [of _ p]) (simp add: log_ok_def pool_repD(6))
qed

lemma pool_reachable_invariant_witness:
  "\<exists>p. pool_rep demo_host (demo_env demo_host) p \<and>
    deposits_of (published (demo_env demo_host)) = zip (p_leaves p) (map word_of_nat [0..<length (p_leaves p)]) \<and>
    distinct (withdrawals_of (published (demo_env demo_host))) \<and>
    set (withdrawals_of (published (demo_env demo_host))) = p_spent p"
  by (rule pool_reachable_invariant [OF demo_reach [of True _ "\<lambda>_ _. False"]])

text \<open>(C1) No double spend: once a withdrawal with a nullifier has succeeded, every later
  withdrawal with the same 32 bytes fails, whatever its proof, root, recipient, relayer and
  fee, in every state the system can then reach; the error is \<open>InvalidRoot\<close> or
  \<open>NullifierSpent\<close>.\<close>

theorem no_double_spend:
  assumes reach: "pool_reach vk h ext e"
    and first: "withdraw vk h pf root n recipient relayer fee e = Inr e'"
    and later: "(pool_step vk h ext)\<^sup>*\<^sup>* e' e''"
  shows "withdraw vk h pf' root' n recipient' relayer' fee' e'' \<in> {Inl (Err InvalidRoot), Inl (Err NullifierSpentError)}"
proof -
  obtain p where rep: "pool_rep h e p" using pool_reach_simulates [OF reach] by blast
  obtain p' where p': "a_withdraw vk h pf root n recipient relayer fee p = Inr p'" and rep': "pool_rep h e' p'"
    using withdraw_refines [OF rep, of vk pf root n recipient relayer fee] first by (auto dest: res_rel_InrD)
  then have spent: "n \<in> p_spent p'" by (auto simp: a_Inr)
  obtain p'' where rep'': "pool_rep h e'' p''" and "(a_step vk h ext)\<^sup>*\<^sup>* p' p''"
    using pool_steps_simulate [OF later rep'] by blast
  then have "grown p' p''" by (simp add: a_steps_grown)
  then have "n \<in> p_spent p''" using spent by (auto simp: grown_def)
  then show ?thesis
    using withdraw_refines [OF rep'', of vk pf' root' n recipient' relayer' fee']
    by (auto simp: a_withdraw_def dest!: res_rel_Inl_abs split: if_splits)
qed

lemma no_double_spend_witness:
  "withdraw True lax_host demo_proof (demo_root lax_host) demo_nullifier carol bob 0 demo_env_paid
     \<in> {Inl (Err InvalidRoot), Inl (Err NullifierSpentError)}"
  by (rule no_double_spend [OF demo_reach [of True _ "\<lambda>_ _. False"] demo_withdraw(1)]) simp


subsection \<open>What the nullifier set does not prevent\<close>

text \<open>(C9) The same note can be withdrawn twice. The contract remembers the 32 bytes of a
  nullifier hash, while the verifier only sees their value modulo the field order: after a
  successful withdrawal with a canonical nullifier hash (below the order), the identical proof
  is accepted again under the hash plus the order, as long as that alias is unspent and the
  pool can still pay.\<close>

theorem nullifier_alias_withdraws_again:
  assumes laws: "fr_laws h" and rep: "pool_rep h e p"
    and first: "withdraw vk h pf root n recipient relayer fee e = Inr e'"
    and canonical: "array_val n < bn254_r" and twin: "n' = be_array (array_val n + bn254_r)"
    and unspent: "n' \<notin> p_spent p"
    and funds: "a_payout h recipient relayer fee (p\<lparr>p_ledger := ledger e'\<rparr>) = Some l"
  shows "\<exists>e''. withdraw vk h pf root n' recipient relayer fee e' = Inr e''"
proof -
  have val: "array_val n' = array_val n + bn254_r"
    using canonical by (simp add: twin array_val_be_array bn254_r_def)
  then have other: "n' \<noteq> n" by (auto simp: bn254_r_def)
  obtain p' where p': "a_withdraw vk h pf root n recipient relayer fee p = Inr p'" and rep': "pool_rep h e' p'"
    using withdraw_refines [OF rep, of vk pf root n recipient relayer fee] first by (auto dest: res_rel_InrD)
  from p' obtain inputs l1 where known: "p_known h p root" and fee: "0 \<le> sint fee" "sint fee \<le> sint (p_max_fee p)"
    and inputs: "build_public_inputs h root n recipient relayer fee = Inr inputs" "verify_proof vk h pf inputs"
    and eq: "p' = p\<lparr>p_spent := insert n (p_spent p), p_log := p_log p @ [WithdrawalEvent n], p_ledger := l1\<rparr>"
    by (auto simp: a_Inr)
  obtain b1 b2 where addr: "address_to_field_bytes h recipient = Inr b1" "address_to_field_bytes h relayer = Inr b2"
    and inputs_eq: "inputs = [root, n, b1, b2, fee_to_bytes fee]"
    using inputs(1) by (auto simp: build_public_inputs_def and_then_eq_Inr)
  have "same_residues inputs [root, n', b1, b2, fee_to_bytes fee]"
    by (simp add: same_residues_def inputs_eq val)
  then have "verify_proof vk h pf [root, n', b1, b2, fee_to_bytes fee]"
    using inputs(2) verify_proof_residues [OF laws] by blast
  moreover have "build_public_inputs h root n' recipient relayer fee = Inr [root, n', b1, b2, fee_to_bytes fee]"
    by (simp add: build_public_inputs_def addr)
  moreover have "p_known h p' root" using known by (simp add: eq p_known_def p_roots_def)
  moreover have "a_payout h recipient relayer fee p' = Some l"
    using funds pool_repD(7) [OF rep'] by (subst a_payout_cong [of _ "p\<lparr>p_ledger := ledger e'\<rparr>"]) (simp_all add: eq)
  ultimately have "\<exists>q. a_withdraw vk h pf root n' recipient relayer fee p' = Inr q"
    using fee unspent other by (auto simp: a_withdraw_Inr eq)
  then show ?thesis
    using withdraw_refines [OF rep', of vk pf root n' recipient relayer fee] by (auto dest!: res_rel_Inr_abs)
qed

lemma nullifier_alias_withdraws_again_witness:
  "\<exists>e''. withdraw True lax_host demo_proof (demo_root lax_host) (be_array (array_val demo_nullifier + bn254_r))
     bob carol 3 demo_env_paid = Inr e''"
proof -
  have "array_val demo_nullifier = 5" by (simp add: demo_nullifier_def array_val_be_array)
  moreover have "ledger demo_env_paid = p_ledger demo_paid" by (rule pool_repD [OF demo_withdraw(2)])
  moreover have "a_payout lax_host bob carol 3 (demo_pool\<lparr>p_ledger := p_ledger demo_paid\<rparr>) \<noteq> None"
    by (simp add: a_payout_def demo_transfer_def demo_paid_def demo_names Let_def)
  ultimately show ?thesis
    using nullifier_alias_withdraws_again [OF lax_fr_laws demo_env_ok(2) demo_withdraw(1) _ refl]
    by (auto simp: bn254_r_def)
qed

subsection \<open>Money\<close>

text \<open>(C8) A successful withdrawal moves exactly the denomination out of the pool: the
  recipient receives the denomination less the fee, the relayer the fee, and no other balance
  of the pool's token changes; in particular the fee never exceeds the denomination.\<close>

theorem withdraw_pays_exactly:
  assumes laws: "token_laws h bal" and rep: "pool_rep h e p"
    and ok: "withdraw vk h pf root n recipient relayer fee e = Inr e'"
  shows "0 \<le> sint fee \<and> sint fee \<le> sint (p_denomination p) \<and>
    bal (p_token p) (ledger e') c = bal (p_token p) (ledger e) c
      - (if c = current_contract_address h then sint (p_denomination p) else 0)
      + (if c = recipient then sint (p_denomination p) - sint fee else 0)
      + (if c = relayer then sint fee else 0)"
proof -
  obtain p' where p': "a_withdraw vk h pf root n recipient relayer fee p = Inr p'" and rep': "pool_rep h e' p'"
    using withdraw_refines [OF rep, of vk pf root n recipient relayer fee] ok by (auto dest: res_rel_InrD)
  from p' obtain l where fee: "0 \<le> sint fee" and pay: "a_payout h recipient relayer fee p = Some l"
    and l: "p_ledger p' = l"
    by (auto simp: a_Inr)
  have pos: "0 < sint (p_denomination p)" using pool_rep_inv [OF rep] by (simp add: pool_inv_def)
  have led: "ledger e = p_ledger p" "ledger e' = l" using pool_repD(7) [OF rep] pool_repD(7) [OF rep'] l by simp_all
  note b = payout_balance [OF laws pay fee pos]
  show ?thesis using fee b(1) b(2) [of c] by (simp only: led)
qed

lemma withdraw_pays_exactly_witness:
  "demo_bal demo_token (ledger demo_env_paid) bob = demo_bal demo_token (ledger (demo_env lax_host)) bob + 97"
  using withdraw_pays_exactly [OF lax_token_laws demo_env_ok(2) demo_withdraw(1), of bob]
  by (simp add: demo_names)

text \<open>(C7) Solvency: along every run from an initialised pool, as long as outsiders cannot
  reduce the pool's own balance, the balance grows by at least the denomination times the
  number of deposits less the number of spent nullifiers: no sequence of calls pays out money
  the deposits and the initial balance did not provide.\<close>

theorem pool_solvent:
  assumes laws: "token_laws h bal" and ext: "ext_keeps h bal ext"
    and rep: "pool_rep h e p" and steps: "(pool_step vk h ext)\<^sup>*\<^sup>* e e'"
  shows "\<exists>p'. pool_rep h e' p' \<and>
    bal (p_token p) (ledger e) (current_contract_address h)
      + sint (p_denomination p) * (int (length (p_leaves p')) - int (length (p_leaves p)))
      - sint (p_denomination p) * (int (card (p_spent p')) - int (card (p_spent p)))
    \<le> bal (p_token p) (ledger e') (current_contract_address h)"
proof -
  obtain p' where rep': "pool_rep h e' p'" and a: "(a_step vk h ext)\<^sup>*\<^sup>* p p'"
    using pool_steps_simulate [OF steps rep] by blast
  have "p_token p' = p_token p" "p_denomination p' = p_denomination p"
    using a_steps_grown [OF a] by (simp_all add: grown_def same_config_def)
  then show ?thesis
    using a_steps_solvent [OF a laws ext pool_rep_inv [OF rep]] pool_repD(7) [OF rep] pool_repD(7) [OF rep'] rep'
    by (intro exI [of _ p']) (simp add: pool_balance_def escrow_def algebra_simps)
qed

lemma pool_solvent_witness:
  "\<exists>p'. pool_rep lax_host demo_env_paid p' \<and>
    demo_bal (p_token demo_pool) (ledger (demo_env lax_host)) (current_contract_address lax_host)
      + sint (p_denomination demo_pool) * (int (length (p_leaves p')) - int (length (p_leaves demo_pool)))
      - sint (p_denomination demo_pool) * (int (card (p_spent p')) - int (card (p_spent demo_pool)))
    \<le> demo_bal (p_token demo_pool) (ledger demo_env_paid) (current_contract_address lax_host)"
  by (rule pool_solvent [OF lax_token_laws _ demo_env_ok(2), of "\<lambda>_ _. False" True])
    (auto simp: ext_keeps_def intro!: pool_step.withdraw [OF demo_withdraw(1)])


subsection \<open>The root history\<close>

text \<open>(C17) The contract accepts exactly the roots of the last \<open>root_history_size\<close> versions of
  the tree: a root is known if and only if it is the root after some number of deposits that
  fewer than \<open>root_history_size\<close> later deposits have followed.\<close>

theorem known_roots_are_the_window:
  assumes "pool_rep h e p"
  shows "is_known_root r e = Inr (\<exists>k. k \<le> length (p_leaves p) \<and> length (p_leaves p) < k + unat (p_history_size p) \<and>
    r = tree_root h (unat (p_depth p)) (take k (p_leaves p)))"
proof -
  have nz: "p_history_size p \<noteq> 0" using pool_repD(4) [OF assms] by (simp add: history_rep_def)
  show ?thesis by (simp only: pool_reads(10) [OF assms] p_known_iff [OF nz])
qed

lemma known_roots_are_the_window_witness:
  "is_known_root (demo_root demo_host) (demo_env demo_host) = Inr True"
  using known_roots_are_the_window [OF demo_env_ok(2), of "demo_root demo_host" demo_host]
  by (simp add: demo_root_def)

subsection \<open>Settings and growth\<close>

text \<open>Immutability: no step changes the administrator, token, denomination, maximal fee,
  tree depth or history size; an inserted commitment and a spent nullifier stay so; events
  are only appended.\<close>

lemma pool_settings_immutable:
  assumes rep: "pool_rep h e p" and steps: "(pool_step vk h ext)\<^sup>*\<^sup>* e e'"
  shows "get_admin e' = get_admin e \<and> get_token e' = get_token e \<and> get_denomination e' = get_denomination e \<and>
    get_max_fee e' = get_max_fee e \<and> get_tree_depth e' = get_tree_depth e \<and>
    get_root_history_size e' = get_root_history_size e \<and>
    (is_commitment_inserted c e = Inr True \<longrightarrow> is_commitment_inserted c e' = Inr True) \<and>
    (PoolStorage.is_nullifier_spent n e = Inr True \<longrightarrow> PoolStorage.is_nullifier_spent n e' = Inr True) \<and>
    (\<exists>evs. published e' = published e @ evs)"
proof -
  obtain p' where rep': "pool_rep h e' p'" and a: "(a_step vk h ext)\<^sup>*\<^sup>* p p'"
    using pool_steps_simulate [OF steps rep] by blast
  have size: "get_root_history_size e = Inr (p_history_size p)" "get_root_history_size e' = Inr (p_history_size p')"
    using pool_repD(4) [OF rep] pool_repD(4) [OF rep'] by (simp_all add: history_rep_def get_root_history_size_def)
  from a_steps_grown [OF a] show ?thesis
    by (auto simp: grown_def same_config_def pool_reads [OF rep] pool_reads [OF rep'] size
        pool_repD(6) [OF rep] pool_repD(6) [OF rep'])
qed

subsection \<open>What a proof is bound to\<close>

lemma fee_to_bytes_inject: "fee_to_bytes a = fee_to_bytes b \<longleftrightarrow> a = b"
proof
  assume "fee_to_bytes a = fee_to_bytes b"
  then have "to_be_bytes 16 (unat a) = to_be_bytes 16 (unat b)"
    by (simp add: fee_to_bytes_def array_eq_iff)
  then have "unat a mod 256 ^ 16 = unat b mod 256 ^ 16" by (metis be_val_to_be_bytes)
  moreover have "unat x mod 256 ^ 16 = unat x" for x :: i128 
  proof -
    have "unat x < 2 ^ 128" using unsigned_less [of x, where ?'a = nat] by simp
    then show ?thesis by simp
  qed
  ultimately show "a = b" by (simp add: word_unat_eq_iff)
qed simp

text \<open>The characters of a strkey, as the bytes that are hashed.\<close>

definition strkey_bytes :: "Address \<Rightarrow> u8 list" where
  "strkey_bytes a = map (\<lambda>ch. word_of_nat (of_char ch)) (strkey a)"

lemma strkey_bytes_inject: "strkey_bytes a = strkey_bytes b \<longleftrightarrow> a = b"
proof
  have "inj (\<lambda>ch. word_of_nat (of_char ch) :: u8)"
  proof (rule injI)
    fix c d :: char
    assume "(word_of_nat (of_char c) :: u8) = word_of_nat (of_char d)"
    then have "unat (word_of_nat (of_char c) :: u8) = unat (word_of_nat (of_char d) :: u8)" by simp
    moreover have "(of_char x :: nat) < 256" for x
      by (metis of_char_mod_256 mod_less_divisor zero_less_numeral)
    ultimately have "(of_char c :: nat) = of_char d" by (simp add: unat_of_nat)
    then show "c = d" by simp
  qed
  then show "strkey_bytes a = strkey_bytes b \<Longrightarrow> a = b"
    by (auto simp: strkey_bytes_def inj_map_eq_map intro: Address.expand)
qed simp

lemma address_to_field_bytes_eq:
  "address_to_field_bytes h a = (if length (strkey a) \<le> 56 then Inr (host_sha256 h (strkey_bytes a)) else Inl Panic)"
  by (simp add: address_to_field_bytes_def strkey_bytes_def Let_def)

text \<open>(C23) Binding: two withdrawal requests that give the verifier the same public inputs have
  the same root, nullifier hash and fee, and the same recipient and relayer unless the two
  strkeys are a SHA-256 collision: a relayer cannot redirect a proof or change its fee.\<close>

theorem public_inputs_bind:
  assumes "build_public_inputs h root n recipient relayer fee = Inr xs"
    and "build_public_inputs h root' n' recipient' relayer' fee' = Inr xs"
  shows "root = root' \<and> n = n' \<and> fee = fee' \<and>
    (recipient = recipient' \<or> strkey_bytes recipient \<noteq> strkey_bytes recipient' \<and>
       host_sha256 h (strkey_bytes recipient) = host_sha256 h (strkey_bytes recipient')) \<and>
    (relayer = relayer' \<or> strkey_bytes relayer \<noteq> strkey_bytes relayer' \<and>
       host_sha256 h (strkey_bytes relayer) = host_sha256 h (strkey_bytes relayer'))"
  using assms
  by (auto simp: build_public_inputs_def and_then_eq_Inr address_to_field_bytes_eq fee_to_bytes_inject
      strkey_bytes_inject split: if_splits)

lemma public_inputs_bind_witness:
  "build_public_inputs demo_host (be_array 1) (be_array 2) bob carol 3 \<noteq>
   build_public_inputs demo_host (be_array 1) (be_array 2) bob carol 4"
proof
  let ?inputs = "\<lambda>fee. [be_array 1, be_array 2, host_sha256 demo_host (strkey_bytes bob),
    host_sha256 demo_host (strkey_bytes carol), fee_to_bytes fee]"
  have b: "build_public_inputs demo_host (be_array 1) (be_array 2) bob carol fee = Inr (?inputs fee)" for fee
    by (simp add: build_public_inputs_def address_to_field_bytes_eq demo_names)
  assume "build_public_inputs demo_host (be_array 1) (be_array 2) bob carol 3 =
    build_public_inputs demo_host (be_array 1) (be_array 2) bob carol 4"
  with public_inputs_bind [OF b [of 3], of _ _ _ _ 4] have "(3 :: i128) = 4" by (metis b)
  then show False by simp
qed

subsection \<open>The compiled key\<close>

text \<open>What arkworks documents of \<open>is_on_curve\<close> for G2: it decides the equation of the twist on
  the coordinates.\<close>

definition g2_laws :: "('fr, 'fq, 'g1, 'g1p, 'g2, 'gt, 'z) bn254 \<Rightarrow> bool" where
  "g2_laws h \<longleftrightarrow> (\<forall>a b c d.
     g2_is_on_curve h (g2_new_unchecked h
       (fq_from_le_bytes_mod_order h a, fq_from_le_bytes_mod_order h b)
       (fq_from_le_bytes_mod_order h c, fq_from_le_bytes_mod_order h d))
     \<longleftrightarrow> g2_equation (int (le_val a), int (le_val b)) (int (le_val c), int (le_val d)))"

lemma decode_g2_off: "g2_laws h \<Longrightarrow> \<not> g2_point_ok q \<Longrightarrow> decode_g2 h q = None"
  by (simp add: decode_g2_def bytes_to_fq_def Let_def g2_laws_def g2_point_ok_def bytes_int_def
      array_val_def be_val_def)

text \<open>(C10) The verification key compiled in by the feature \<open>vk\<close> cannot be decoded: its G2
  points do not lie on the BN254 twist in the coordinate order they are stored in, so
  \<open>load_verification_key\<close> returns \<open>None\<close> with and without the feature, and no withdrawal
  succeeds in any reachable state of the deployed contract: deposits are paid in for good.\<close>

theorem compiled_key_blocks_withdrawals:
  assumes laws: "g2_laws h" and reach: "pool_reach vk h ext e"
  shows "load_verification_key vk h = None \<and> (\<exists>f. withdraw vk h pf root n recipient relayer fee e = Inl f)"
proof -
  have "decode_g2 h (raw_beta_g2 verification_key) = None"
    using decode_g2_off [OF laws vk_beta_g2_off] by (simp add: verification_key_def)
  then have none: "load_verification_key vk h = None"
    by (auto simp: load_verification_key_def Let_def split: bind_splits)
  obtain p where rep: "pool_rep h e p" using pool_reach_simulates [OF reach] by blast
  have "a_withdraw vk h pf root n recipient relayer fee p \<noteq> Inr q" for q
    using verify_proof_needs_key [OF none] by (simp add: a_withdraw_Inr)
  then show ?thesis
    using none withdraw_refines [OF rep, of vk pf root n recipient relayer fee]
    by (cases "withdraw vk h pf root n recipient relayer fee e") (auto dest: res_rel_InrD)
qed

lemma compiled_key_blocks_withdrawals_witness:
  "load_verification_key True demo_host = None \<and>
   (\<exists>f. withdraw True demo_host demo_proof (demo_root demo_host) demo_nullifier bob carol 3 (demo_env demo_host) = Inl f)"
  by (rule compiled_key_blocks_withdrawals [OF _ demo_reach [of _ _ "\<lambda>_ _. False"]])
    (simp add: g2_laws_def demo_host_def)

end
