(* ===== verification/PoolSafety.thy ===== *)
theory PoolSafety
  imports Instances
begin

text \<open>
  What holds of the storage of a pool whatever calls it has seen: every slot holds a value of
  the type its key is read with, in the tier the code keeps it in; the only aborts left come
  from outside the contract (a missing signature, a token that refuses, an address whose text
  is too long); and every index stays within the bounds the settings give.
\<close>

subsection \<open>Types of the slots\<close>

text \<open>\<open>storage.rs\<close> keeps the settings in the instance tier and everything keyed by an index or
  by 32 bytes in the persistent tier.\<close>

fun on_instance :: "DataKey \<Rightarrow> bool" where
  "on_instance (MerkleNode level index) = False"
| "on_instance (RootHistoryEntry i) = False"
| "on_instance (NullifierSpent n) = False"
| "on_instance (CommitmentInserted c) = False"
| "on_instance _ = True"

fun slot_ok :: "DataKey \<Rightarrow> ScVal \<Rightarrow> bool" where
  "slot_ok Denomination (VI128 _) = True"
| "slot_ok MaxFee (VI128 _) = True"
| "slot_ok Admin (VAddress _) = True"
| "slot_ok Token (VAddress _) = True"
| "slot_ok TreeDepth (VU32 _) = True"
| "slot_ok NextLeafIndex (VU32 _) = True"
| "slot_ok RootHistorySize (VU32 _) = True"
| "slot_ok RootHistoryIndex (VU32 _) = True"
| "slot_ok Initialized (VBool b) = b"
| "slot_ok (MerkleNode level index) (VBytes _) = True"
| "slot_ok (RootHistoryEntry i) (VBytes _) = True"
| "slot_ok (NullifierSpent n) (VBool b) = b"
| "slot_ok (CommitmentInserted c) (VBool b) = b"
| "slot_ok _ _ = False"

definition storage_typed :: "('ev, 'z) pool_store \<Rightarrow> bool" where
  "storage_typed e \<longleftrightarrow>
     (\<forall>k v. inst_get k e = Some v \<longrightarrow> on_instance k \<and> slot_ok k v) \<and>
     (\<forall>k v. pers_get k e = Some v \<longrightarrow> \<not> on_instance k \<and> slot_ok k v)"

named_theorems typed_simps

lemma storage_typed_setters:
  assumes "storage_typed e"
  shows "on_instance k \<Longrightarrow> slot_ok k v \<Longrightarrow> storage_typed (inst_set k v e)"
    and "\<not> on_instance k \<Longrightarrow> slot_ok k v \<Longrightarrow> storage_typed (pers_set k v e)"
  using assms by (auto simp: storage_typed_def)

text \<open>Each setter of \<open>storage.rs\<close> keeps the types.\<close>

lemma setters_typed [typed_simps]:
  assumes "storage_typed e"
  shows "storage_typed (set_merkle_node l i b e)" "storage_typed (set_root_history_entry i b e)"
    "storage_typed (set_nullifier_spent b e)" "storage_typed (set_commitment_inserted b e)"
    "storage_typed (set_denomination a e)" "storage_typed (set_max_fee a e)"
    "storage_typed (set_admin ad e)" "storage_typed (set_token ad e)"
    "storage_typed (set_tree_depth n e)" "storage_typed (set_next_leaf_index n e)"
    "storage_typed (set_root_history_size n e)" "storage_typed (set_root_history_index n e)"
    "storage_typed (set_initialized e)"
  using assms by (simp_all add: pool_storage_defs storage_typed_setters)

lemma others_typed [typed_simps]:
  "storage_typed (e\<lparr>ledger := l\<rparr>) = storage_typed e" "storage_typed (publish ev e') = storage_typed e'"
  "storage_typed (fresh_env l)"
  by (simp_all add: storage_typed_def)

subsection \<open>Every operation keeps the types\<close>

lemma insert_levels_typed:
  "insert_levels c ls i x e = Inr (r, e') \<Longrightarrow> storage_typed e \<Longrightarrow> storage_typed e'"
proof (induction ls arbitrary: i x e)
  case Nil
  then show ?case by simp
next
  case (Cons l ls)
  then obtain up y where "insert_levels c ls (i div 2) y (set_merkle_node up (i div 2) y e) = Inr (r, e')"
    by (auto simp: and_then_eq_Inr Let_def simp del: split_paired_Ex split: prod.splits)
  from Cons.IH [OF this] Cons.prems(2) show ?case by (simp add: typed_simps)
qed

lemma insert_leaf_typed:
  assumes "insert_leaf c x e = Inr (r, e')" and "storage_typed e"
  shows "storage_typed e'"
  using assms by (auto simp: insert_leaf_def and_then_eq_Inr typed_simps dest!: insert_levels_typed)

lemma push_root_history_typed:
  assumes "push_root_history r e = Inr e'" and "storage_typed e"
  shows "storage_typed e'"
  using assms by (auto simp: push_root_history_def and_then_eq_Inr Let_def typed_simps)

lemma transfer_typed:
  assumes "transfer h tok a b x e = Inr e'" and "storage_typed e"
  shows "storage_typed e'"
  using assms by (auto simp: transfer_eq typed_simps split: option.splits)

lemmas helper_typed = insert_leaf_typed push_root_history_typed transfer_typed

lemma initialize_typed:
  assumes "initialize h auth admin tok d mf depth sz e = Inr e'" and "storage_typed e"
  shows "storage_typed e'"
  using assms unfolding initialize_def
  by (auto simp: and_then_eq_Inr Let_def typed_simps split: if_splits dest!: helper_typed)

lemma deposit_typed:
  assumes "deposit h auth d c e = Inr e'" and "storage_typed e"
  shows "storage_typed e'"
  using assms unfolding deposit_def
  by (auto simp: and_then_eq_Inr Let_def typed_simps split: if_splits dest!: helper_typed)

lemma withdraw_typed:
  assumes "withdraw vk h pf root n recipient relayer fee e = Inr e'" and "storage_typed e"
  shows "storage_typed e'"
  using assms unfolding withdraw_def execute_withdrawal_def
  by (auto simp: and_then_eq_Inr Let_def typed_simps split: if_splits dest!: helper_typed)

lemma pool_step_typed: "pool_step vk h ext e e' \<Longrightarrow> storage_typed e \<Longrightarrow> storage_typed e'"
  by (induction rule: pool_step.induct) (auto simp: typed_simps dest: initialize_typed deposit_typed withdraw_typed)

lemma pool_reach_typed: "pool_reach vk h ext e \<Longrightarrow> storage_typed e"
  by (induction rule: pool_reach.induct) (auto simp: typed_simps dest: initialize_typed pool_step_typed)


text \<open>(C26) Along every run each slot holds a value of the type its key is read with, in the tier
  the code reads it from, and every setting is present: no getter of \<open>storage.rs\<close> ever fails.\<close>

theorem storage_stays_typed:
  assumes "pool_reach vk h ext e" and "(pool_step vk h ext)\<^sup>*\<^sup>* e e'"
  shows "storage_typed e' \<and>
    (\<exists>d mf admin tok depth n sz i. get_denomination e' = Inr d \<and> get_max_fee e' = Inr mf \<and>
      get_admin e' = Inr admin \<and> get_token e' = Inr tok \<and> get_tree_depth e' = Inr depth \<and>
      get_next_leaf_index e' = Inr n \<and> get_root_history_size e' = Inr sz \<and>
      get_root_history_index e' = Inr i \<and> is_initialized e' = Inr True) \<and>
    (\<forall>l i. \<exists>b. get_merkle_node l i e' = Inr b) \<and> (\<forall>i. \<exists>b. get_root_history_entry i e' = Inr b) \<and>
    (\<forall>x. \<exists>b. PoolStorage.is_nullifier_spent x e' = Inr b) \<and> (\<forall>x. \<exists>b. is_commitment_inserted x e' = Inr b)"
proof -
  have reach: "pool_reach vk h ext e'"
    using assms(2,1) by (induction rule: rtranclp_induct) (auto intro: pool_reach.step)
  obtain p where rep: "pool_rep h e' p" using pool_reach_simulates [OF reach] by blast
  note tree = pool_repD(2) [OF rep] and hist = pool_repD(4) [OF rep]
  have "get_merkle_node l i e' =
      Inr (if unat l \<le> unat (p_depth p) \<and> occupied (length (p_leaves p)) (unat l) (unat i)
           then Some (tree_node h (p_leaves p) (unat l) (unat i)) else None)" for l i
    using tree by (simp add: get_merkle_node_def tree_rep_def nodes_rep_def)
  moreover have "get_root_history_size e' = Inr (p_history_size p)"
    "get_root_history_index e' = Inr (word_of_nat (length (p_roots h p) mod unat (p_history_size p)))"
    using hist by (simp_all add: history_rep_def get_root_history_size_def get_root_history_index_def)
  ultimately show ?thesis
    using pool_reach_typed [OF reach] by (simp add: pool_reads [OF rep] get_root_history_entry_rep [OF hist])
qed

theorem storage_stays_typed_witness: "storage_typed demo_env_deposited"
proof -
  have "pool_step True demo_host (\<lambda>_ _. False) (demo_env demo_host) demo_env_deposited"
    by (rule pool_step.deposit [OF _ demo_deposit(1)]) (simp add: demo_auth_def)
  from storage_stays_typed [OF demo_reach r_into_rtranclp, OF this] show ?thesis by (rule conjunct1)
qed

subsection \<open>What aborts a call\<close>

lemma res_rel_Panic: "res_rel R r a \<Longrightarrow> r = Inl Panic \<longleftrightarrow> a = Inl Panic"
  by (cases r; cases a) auto

lemma build_public_inputs_Panic:
  "build_public_inputs h root n recipient relayer fee = Inl f \<longleftrightarrow>
     f = Panic \<and> (56 < length (strkey recipient) \<or> 56 < length (strkey relayer))"
  by (auto simp: build_public_inputs_def and_then_eq_Inl address_to_field_bytes_def Let_def)

lemma a_deposit_Panic:
  "a_deposit h auth d c p = Inl Panic \<longleftrightarrow> \<not> auth d \<or> (c \<notin> set (p_leaves p) \<and>
      length (p_leaves p) < tree_capacity (p_depth p) \<and>
      token_transfer h (p_token p) (p_ledger p) d (current_contract_address h) (p_denomination p) = None)"
  by (auto simp: a_deposit_def split: option.split)

lemma a_withdraw_Panic:
  "a_withdraw vk h pf root n recipient relayer fee p = Inl Panic \<longleftrightarrow>
      p_known h p root \<and> n \<notin> p_spent p \<and> 0 \<le> sint fee \<and> sint fee \<le> sint (p_max_fee p) \<and>
      (56 < length (strkey recipient) \<or> 56 < length (strkey relayer) \<or>
       ((\<exists>inputs. build_public_inputs h root n recipient relayer fee = Inr inputs \<and> verify_proof vk h pf inputs) \<and>
        a_payout h recipient relayer fee p = None))"
proof (cases "p_known h p root \<and> n \<notin> p_spent p \<and> 0 \<le> sint fee \<and> sint fee \<le> sint (p_max_fee p)")
  case False
  then show ?thesis unfolding a_withdraw_def by auto
next
  case True
  show ?thesis
  proof (cases "build_public_inputs h root n recipient relayer fee")
    case (Inl f)
    with True show ?thesis by (auto simp: a_withdraw_def dest!: build_public_inputs_Panic [THEN iffD1])
  next
    case (Inr inputs)
    then have "\<not> 56 < length (strkey recipient)" "\<not> 56 < length (strkey relayer)"
      using build_public_inputs_Panic [of h root n recipient relayer fee Panic] by auto
    with True Inr show ?thesis
      by (cases "a_payout h recipient relayer fee p") (simp_all add: a_withdraw_def)
  qed
qed

text \<open>(C24) In every reachable state \<open>deposit\<close> aborts exactly when the depositor has not signed or
  the token refuses the payment of an admissible deposit, and \<open>withdraw\<close> exactly when, all
  checks before passed, an address is longer than 56 characters or the token refuses the
  payout of a verified proof: no index, conversion or subtraction of the contract overflows.\<close>

theorem pool_aborts_only_from_outside:
  assumes "pool_reach vk h ext e"
  shows "\<exists>tok den mf cnt depth. get_token e = Inr tok \<and> get_denomination e = Inr den \<and> get_max_fee e = Inr mf \<and>
      get_next_leaf_index e = Inr cnt \<and> get_tree_depth e = Inr depth \<and>
    (deposit h auth d c e = Inl Panic \<longleftrightarrow>
      \<not> auth d \<or> (is_commitment_inserted c e = Inr False \<and> unat cnt < tree_capacity depth \<and>
        token_transfer h tok (ledger e) d (current_contract_address h) den = None)) \<and>
    (withdraw vk h pf root n recipient relayer fee e = Inl Panic \<longleftrightarrow>
      is_known_root root e = Inr True \<and> PoolStorage.is_nullifier_spent n e = Inr False \<and>
      0 \<le> sint fee \<and> sint fee \<le> sint mf \<and>
      (56 < length (strkey recipient) \<or> 56 < length (strkey relayer) \<or>
       ((\<exists>inputs. build_public_inputs h root n recipient relayer fee = Inr inputs \<and> verify_proof vk h pf inputs) \<and>
        (case token_transfer h tok (ledger e) (current_contract_address h) recipient (den - fee) of
           None \<Rightarrow> True
         | Some l \<Rightarrow> 0 < sint fee \<and> token_transfer h tok l (current_contract_address h) relayer fee = None))))"
proof -
  obtain p where rep: "pool_rep h e p" using pool_reach_simulates [OF assms] by blast
  note reads = pool_reads [OF rep] and led = pool_repD(7) [OF rep]
  have "length (p_leaves p) < 2 ^ 32" using pool_repD(2) [OF rep] by (simp add: tree_rep_def)
  then have cnt: "unat (word_of_nat (length (p_leaves p)) :: u32) = length (p_leaves p)" by (rule unat_of_nat_u32)
  have dep: "deposit h auth d c e = Inl Panic \<longleftrightarrow> a_deposit h auth d c p = Inl Panic"
    by (rule res_rel_Panic [OF deposit_refines [OF rep]])
  have wd: "withdraw vk h pf root n recipient relayer fee e = Inl Panic \<longleftrightarrow>
      a_withdraw vk h pf root n recipient relayer fee p = Inl Panic"
    by (rule res_rel_Panic [OF withdraw_refines [OF rep]])
  have payout: "a_payout h recipient relayer fee p = None \<longleftrightarrow>
      (case token_transfer h (p_token p) (p_ledger p) (current_contract_address h) recipient (p_denomination p - fee) of
         None \<Rightarrow> True
       | Some l \<Rightarrow> 0 < sint fee \<and> token_transfer h (p_token p) l (current_contract_address h) relayer fee = None)"
    by (simp add: a_payout_def split: option.split)
  show ?thesis
    by (simp add: reads led cnt dep wd a_deposit_Panic a_withdraw_Panic payout)
qed

theorem pool_aborts_only_from_outside_witness:
  "deposit demo_host (\<lambda>_. False) alice demo_commitment (demo_env demo_host) = Inl Panic"
  using pool_aborts_only_from_outside [OF demo_reach [of True demo_host "\<lambda>_ _. False"], of "\<lambda>_. False" alice demo_commitment]
  by blast

subsection \<open>Bounds\<close>

text \<open>A node over a leaf lies inside its level.\<close>

lemma occupied_bound:
  assumes "occupied n l i" and "n \<le> 2 ^ d" and "l \<le> d"
  shows "i < 2 ^ (d - l)"
proof -
  have "i * 2 ^ l < 2 ^ (d - l) * 2 ^ l"
    using assms by (simp add: occupied_def power_add [symmetric])
  then show ?thesis by simp
qed

lemma tree_capacity_le: "tree_capacity d \<le> 2 ^ unat d"
  by (simp add: tree_capacity_def)

text \<open>(C25) In every reachable state the depth is between 1 and 32, the leaf count at most the
  capacity (\<open>2 ^ depth\<close>, one less for depth 32), a stored tree node lies inside the tree and
  over at least one leaf, a stored root in a slot below the history size, where the write
  index also lies, and the history query returns as many roots as there are, up to that
  size.\<close>

theorem pool_storage_bounds:
  assumes "pool_reach vk h ext e"
  shows "\<exists>depth cnt size next roots. get_tree_depth e = Inr depth \<and> get_next_leaf_index e = Inr cnt \<and>
      get_root_history_size e = Inr size \<and> get_root_history_index e = Inr next \<and> get_root_history e = Inr roots \<and>
    0 < unat depth \<and> unat depth \<le> 32 \<and>
    unat cnt \<le> tree_capacity depth \<and> tree_capacity depth \<le> 2 ^ unat depth \<and>
    unat next < unat size \<and>
    length roots = min (unat size) (Suc (unat cnt)) \<and>
    {(l, i). pers_get (MerkleNode l i) e \<noteq> None} \<subseteq>
      {(l, i). unat l \<le> unat depth \<and> unat i < 2 ^ (unat depth - unat l) \<and> unat i * 2 ^ unat l < unat cnt} \<and>
    {i. pers_get (RootHistoryEntry i) e \<noteq> None} = {i. unat i < length roots}"
proof -
  obtain p where rep: "pool_rep h e p" using pool_reach_simulates [OF assms] by blast
  note tree = pool_repD(2) [OF rep] and hist = pool_repD(4) [OF rep]
  let ?n = "length (p_leaves p)" and ?d = "unat (p_depth p)" and ?N = "unat (p_history_size p)"
  let ?roots = "List.map_filter (ring ?N (p_roots h p)) [0..<?N]"
  have N: "0 < ?N" using hist by (simp add: history_rep_def unat_pos)
  have n: "unat (word_of_nat ?n :: u32) = ?n" and cap: "?n \<le> tree_capacity (p_depth p)"
    using tree pool_repD(3) [OF rep] by (simp_all add: tree_rep_def unat_of_nat_u32)
  have depth: "0 < ?d" "?d \<le> 32"
    using pool_repD(1) [OF rep] unat_pos [of "p_depth p"] by (simp_all add: config_rep_def word_le_nat_alt)
  have slots: "get_root_history_size e = Inr (p_history_size p)"
    "get_root_history_index e = Inr (word_of_nat (Suc ?n mod ?N))"
    using hist by (simp_all add: history_rep_def get_root_history_size_def get_root_history_index_def)
  have "unat (word_of_nat (Suc ?n mod ?N) :: u32) < ?N"
    using ring_index [of "p_history_size p" "Suc ?n"] N hist by (simp add: history_rep_def)
  moreover have len: "length ?roots = min ?N (Suc ?n)"
    using length_ring_list [OF N, of "p_roots h p"] by simp
  moreover have "{i. pers_get (RootHistoryEntry i) e \<noteq> None} = {i. unat i < length ?roots}"
    using hist ring_filled [OF N, of "p_roots h p"] unfolding len by (auto simp: history_rep_def)
  moreover have "{(l, i). pers_get (MerkleNode l i) e \<noteq> None} \<subseteq>
      {(l, i). unat l \<le> ?d \<and> unat i < 2 ^ (?d - unat l) \<and> unat i * 2 ^ unat l < ?n}"
  proof (intro subsetI, clarify)
    fix l i v assume "pers_get (MerkleNode l i) e = Some v"
    with tree have "unat l \<le> ?d" "occupied ?n (unat l) (unat i)"
      by (auto simp: tree_rep_def nodes_rep_def split: if_splits)
    then show "unat l \<le> ?d \<and> unat i < 2 ^ (?d - unat l) \<and> unat i * 2 ^ unat l < ?n"
      using occupied_bound [of ?n "unat l" "unat i" ?d] cap tree_capacity_le [of "p_depth p"]
      by (simp add: occupied_def)
  qed
  ultimately show ?thesis
    using depth cap tree_capacity_le
    by (intro exI [of _ "p_depth p"] exI [of _ "word_of_nat ?n"] exI [of _ "p_history_size p"]
        exI [of _ "word_of_nat (Suc ?n mod ?N)"] exI [of _ ?roots] conjI)
      (simp_all only: pool_reads [OF rep] slots queries_rep [OF rep] n)
qed

theorem pool_storage_bounds_witness:
  "\<exists>roots. get_root_history (demo_env demo_host) = Inr roots \<and> length roots = 1"
  using pool_storage_bounds [OF demo_reach [of True demo_host "\<lambda>_ _. False"]] demo_env_ok(2) [of demo_host]
  by (auto simp: pool_reads)

end
