(* ===== verification/VerifierProperties.thy ===== *)
theory VerifierProperties
  imports PoolProperties
begin

text \<open>
  The properties of the proof verifier, the field conversions and the compiled key
  (\<open>contracts/mixer_pool/src/verifier.rs\<close>, \<open>poseidon.rs\<close>, \<open>vk_constants.rs\<close>).
\<close>

subsection \<open>The Groth16 equation\<close>

text \<open>What arkworks documents of the pairing: a product of pairings in a commutative target
  group (written additively), with a bilinear pairing \<open>e\<close> and a test for the identity.\<close>

definition pairing_laws :: "('fr, 'fq, 'g1, 'g1p, 'g2, 'gt :: ab_group_add, 'z) bn254 \<Rightarrow> ('g1 \<Rightarrow> 'g2 \<Rightarrow> 'gt) \<Rightarrow> bool" where
  "pairing_laws h e \<longleftrightarrow>
     (\<forall>ps qs. length ps = length qs \<longrightarrow> multi_pairing h ps qs = sum_list (map2 e ps qs)) \<and>
     (\<forall>p q. e (g1_neg h p) q = - e p q) \<and> (\<forall>x. gt_is_zero h x \<longleftrightarrow> x = 0)"

text \<open>(C18) \<open>verify_proof\<close> decides the Groth16 equation: with a key that decodes, a 256-byte proof
  is accepted exactly when its three points decode and
  \<open>e(A, B) = e(alpha, beta) + e(vk_x, gamma) + e(C, delta)\<close>, where \<open>vk_x\<close> combines the key's
  \<open>IC\<close> points with the public inputs read modulo the field order.\<close>

theorem verify_proof_is_groth16:
  fixes e :: "'g1 \<Rightarrow> 'g2 \<Rightarrow> 'gt :: ab_group_add"
  assumes laws: "pairing_laws h e" and key: "load_verification_key feature_vk h = Some vk"
  shows "verify_proof feature_vk h pf inputs \<longleftrightarrow>
    (\<exists>a b c. decode_proof h pf = Some (a, b, c) \<and>
       e a b = e (alpha_g1 vk) (beta_g2 vk)
         + e (g1p_into_affine h (combine_ic h (ic vk) (map (bytes_to_fr h) inputs))) (gamma_g2 vk)
         + e c (delta_g2 vk))"
proof -
  have inputs: "map (\<lambda>b. fr_from_le_bytes_mod_order h (rev (array_list b))) inputs = map (bytes_to_fr h) inputs"
    by (simp add: bytes_to_fr_def Let_def)
  have sum: "multi_pairing h [a, g1_neg h x, g1_neg h y, g1_neg h c] [b, x', y', c'] =
      e a b - (e x x' + e y y' + e c c')" for a b c x y x' y' c'
    using laws by (simp add: pairing_laws_def)
  have zero: "gt_is_zero h (x - y) \<longleftrightarrow> x = y" for x y
    using laws by (simp add: pairing_laws_def)
  show ?thesis
  proof (cases "decode_proof h pf")
    case None
    then show ?thesis by (simp add: verify_proof_def)
  next
    case (Some p)
    then show ?thesis
      by (cases p) (simp only: verify_proof_def key inputs Let_def sum zero option.case prod.case option.inject prod.inject simp_thms
          ex_simps, blast)
  qed
qed

text \<open>A host whose pairing is bilinear on pairs of integers.\<close>

definition pair_host :: "(bn_fr, int, int \<times> int, int \<times> int, demo_g2, int, demo_ledger) pool_host" where
  "pair_host =
    \<lparr>fr_from_le_bytes_mod_order = (\<lambda>bs. fr_of (le_val bs)),
     fr_to_bytes_le = (\<lambda>x. to_le_bytes 32 (Rep_bn_fr x)),
     poseidon1 = (\<lambda>x. fr_of (Rep_bn_fr x + 7)),
     poseidon2 = (\<lambda>x y. fr_of (3 * Rep_bn_fr x + 5 * Rep_bn_fr y + 1)),
     fq_from_le_bytes_mod_order = (\<lambda>bs. int (le_val bs)),
     g1_new_unchecked = Pair,
     g1_is_on_curve = (\<lambda>_. True),
     g1_in_subgroup = (\<lambda>_. True),
     g1_identity = (0, 0),
     g1_neg = (\<lambda>(x, y). (x, - y)),
     g1_into_projective = id,
     g1_mul = (\<lambda>(x, y) k. (x, y * int (Rep_bn_fr k))),
     g1p_add = (\<lambda>(a, b) (c, d). (a, b + d)),
     g1p_into_affine = id,
     g2_new_unchecked = Pair,
     g2_is_on_curve = (\<lambda>_. True),
     g2_in_subgroup = (\<lambda>_. True),
     multi_pairing = (\<lambda>ps qs. sum_list (map2 (\<lambda>p q. snd p * fst (fst q)) ps qs)),
     gt_is_zero = (\<lambda>x. x = 0),
     host_sha256 = (\<lambda>bs. be_array (be_val bs)),
     current_contract_address = pool_address,
     token_transfer = demo_transfer\<rparr>"

lemma pair_decode:
  "decode_g1 pair_host p = Some (bytes_to_fq pair_host (g1x p), bytes_to_fq pair_host (g1y p))"
  "decode_g2 pair_host q = Some ((bytes_to_fq pair_host (x_c0 q), bytes_to_fq pair_host (x_c1 q)),
     (bytes_to_fq pair_host (y_c0 q), bytes_to_fq pair_host (y_c1 q)))"
  by (simp_all add: decode_g1_def decode_g2_def pair_host_def Let_def)

lemma pair_load: "\<exists>vk. load_verification_key True pair_host = Some vk"
proof -
  have "\<exists>out. decode_ic pair_host i ps arr = Some out" for i ps arr
    by (induction ps arbitrary: i arr) (simp_all add: pair_decode)
  then obtain out where "decode_ic pair_host 0 (raw_ic verification_key)
      (replicate (NUM_PUBLIC_INPUTS + 1) (g1_identity pair_host)) = Some out" by blast
  then show ?thesis unfolding load_verification_key_def by (simp add: pair_decode Let_def)
qed

definition pair_e :: "int \<times> int \<Rightarrow> demo_g2 \<Rightarrow> int" where
  "pair_e p q = snd p * fst (fst q)"

definition pair_key :: "(int \<times> int, demo_g2) DecodedVK" where
  "pair_key = the (load_verification_key True pair_host)"

lemma verify_proof_is_groth16_witness:
  "verify_proof True pair_host demo_proof [be_array 1, be_array 2, be_array 3, be_array 4, be_array 5] \<longleftrightarrow>
    (\<exists>a b c. decode_proof pair_host demo_proof = Some (a, b, c) \<and>
       pair_e a b = pair_e (alpha_g1 pair_key) (beta_g2 pair_key)
         + pair_e (g1p_into_affine pair_host (combine_ic pair_host (ic pair_key)
             (map (bytes_to_fr pair_host) [be_array 1, be_array 2, be_array 3, be_array 4, be_array 5]))) (gamma_g2 pair_key)
         + pair_e c (delta_g2 pair_key))"
proof (rule verify_proof_is_groth16)
  show "pairing_laws pair_host pair_e"
    by (simp add: pairing_laws_def pair_host_def pair_e_def split_beta)
  show "load_verification_key True pair_host = Some pair_key"
    using pair_load by (auto simp: pair_key_def)
qed

subsection \<open>The compiled key\<close>

text \<open>The constants of \<open>vk_constants.rs\<close>: \<open>alpha\<close> and the six \<open>IC\<close> points satisfy the
  equation of BN254; \<open>beta\<close>, \<open>gamma\<close> and \<open>delta\<close> do not satisfy that of its twist as stored, and
  all three do when the two coordinates of each \<open>Fq2\<close> element are exchanged: the generator
  wrote them in the wrong order.\<close>

lemma compiled_key_points:
  "g1_point_ok (raw_alpha_g1 verification_key) \<and> list_all g1_point_ok (raw_ic verification_key) \<and>
   list_all (\<lambda>q. \<not> g2_point_ok q \<and> g2_point_ok (swap_g2 q))
     [raw_beta_g2 verification_key, raw_gamma_g2 verification_key, raw_delta_g2 verification_key]"
  by (simp add: verification_key_def vk_g1_points_ok vk_g2_points_off vk_g2_points_swapped)

end
