(* ===== verification/Registry.thy ===== *)
theory Registry
  imports Soroban
begin

text \<open>
  \<open>contracts/relayer_registry/src\<close> (\<open>lib.rs\<close>, \<open>storage.rs\<close>, \<open>errors.rs\<close>): the storage, the entry
  points and the queries of the relayer registry.
\<close>

datatype RegistryError =
  RegAlreadyInitialized | RegFeeTooHigh | InvalidEndpoint | RelayerNotFound | RegUnauthorized

fun registry_error_code :: "RegistryError \<Rightarrow> u32" where
  "registry_error_code RegAlreadyInitialized = 1"
| "registry_error_code RegFeeTooHigh = 2"
| "registry_error_code InvalidEndpoint = 3"
| "registry_error_code RelayerNotFound = 4"
| "registry_error_code RegUnauthorized = 5"

record RelayerInfo =
  ri_address :: Address
  ri_endpoint :: string
  ri_fee_bps :: u32
  ri_active :: bool

subsection \<open>Storage\<close>

datatype RegKey = RegInitialized | RegAdmin | MaxFeeBps | RelayerCount | Relayer Address | RelayerIndex u32

datatype RegVal = RVBool bool | RVAddress Address | RVU32 u32 | RVInfo RelayerInfo

datatype RegEvent = RegisterEvent Address | DeactivateEvent Address | ReactivateEvent Address

type_synonym reg_env = "(RegKey, RegVal, RegEvent) env"

definition rv_address :: "RegVal \<Rightarrow> (RegistryError, Address) result" where
  "rv_address v = (case v of RVAddress x \<Rightarrow> Inr x | _ \<Rightarrow> Inl Panic)"

definition rv_u32 :: "RegVal \<Rightarrow> (RegistryError, u32) result" where
  "rv_u32 v = (case v of RVU32 x \<Rightarrow> Inr x | _ \<Rightarrow> Inl Panic)"

definition rv_info :: "RegVal \<Rightarrow> (RegistryError, RelayerInfo) result" where
  "rv_info v = (case v of RVInfo x \<Rightarrow> Inr x | _ \<Rightarrow> Inl Panic)"

lemma rv_simps [simp, res_simps]:
  "rv_address (RVAddress a) = Inr a" "rv_u32 (RVU32 n) = Inr n" "rv_info (RVInfo i) = Inr i"
  by (simp_all add: rv_address_def rv_u32_def rv_info_def)

named_theorems registry_storage_defs

definition reg_is_initialized :: "reg_env \<Rightarrow> bool" where
  [registry_storage_defs]: "reg_is_initialized e \<longleftrightarrow> inst_get RegInitialized e \<noteq> None"

definition reg_set_initialized :: "reg_env \<Rightarrow> reg_env" where
  [registry_storage_defs]: "reg_set_initialized e = inst_set RegInitialized (RVBool True) e"

definition reg_set_admin :: "Address \<Rightarrow> reg_env \<Rightarrow> reg_env" where
  [registry_storage_defs]: "reg_set_admin admin e = inst_set RegAdmin (RVAddress admin) e"

definition reg_get_admin :: "reg_env \<Rightarrow> (RegistryError, Address) result" where
  [registry_storage_defs]: "reg_get_admin e = read_req rv_address (inst_get RegAdmin e)"

definition set_max_fee_bps :: "u32 \<Rightarrow> reg_env \<Rightarrow> reg_env" where
  [registry_storage_defs]: "set_max_fee_bps max_fee_bps e = inst_set MaxFeeBps (RVU32 max_fee_bps) e"

definition get_max_fee_bps :: "reg_env \<Rightarrow> (RegistryError, u32) result" where
  [registry_storage_defs]: "get_max_fee_bps e = read_req rv_u32 (inst_get MaxFeeBps e)"

definition set_relayer_count :: "u32 \<Rightarrow> reg_env \<Rightarrow> reg_env" where
  [registry_storage_defs]: "set_relayer_count count e = inst_set RelayerCount (RVU32 count) e"

definition get_relayer_count :: "reg_env \<Rightarrow> (RegistryError, u32) result" where
  [registry_storage_defs]: "get_relayer_count e = read_or 0 rv_u32 (inst_get RelayerCount e)"

definition has_relayer :: "Address \<Rightarrow> reg_env \<Rightarrow> bool" where
  [registry_storage_defs]: "has_relayer relayer e \<longleftrightarrow> pers_get (Relayer relayer) e \<noteq> None"

definition set_relayer :: "Address \<Rightarrow> RelayerInfo \<Rightarrow> reg_env \<Rightarrow> reg_env" where
  [registry_storage_defs]: "set_relayer relayer info e = pers_set (Relayer relayer) (RVInfo info) e"

definition get_relayer :: "Address \<Rightarrow> reg_env \<Rightarrow> (RegistryError, RelayerInfo option) result" where
  [registry_storage_defs]: "get_relayer relayer e = read_opt rv_info (pers_get (Relayer relayer) e)"

definition set_relayer_index :: "u32 \<Rightarrow> Address \<Rightarrow> reg_env \<Rightarrow> reg_env" where
  [registry_storage_defs]: "set_relayer_index index relayer e = pers_set (RelayerIndex index) (RVAddress relayer) e"

definition get_relayer_index :: "u32 \<Rightarrow> reg_env \<Rightarrow> (RegistryError, Address option) result" where
  [registry_storage_defs]: "get_relayer_index index e = read_opt rv_address (pers_get (RelayerIndex index) e)"

subsection \<open>Entry points\<close>

definition registry_initialize :: "(Address \<Rightarrow> bool) \<Rightarrow> Address \<Rightarrow> u32 \<Rightarrow> reg_env \<Rightarrow> (RegistryError, reg_env) result" where
  "registry_initialize auth admin max_fee_bps e =
     (if reg_is_initialized e then Inl (Err RegAlreadyInitialized)
      else and_then (require_auth auth admin) (\<lambda>_.
        let e = reg_set_admin admin e;
            e = set_max_fee_bps max_fee_bps e;
            e = set_relayer_count 0 e
        in Inr (reg_set_initialized e)))"

definition register :: "(Address \<Rightarrow> bool) \<Rightarrow> Address \<Rightarrow> string \<Rightarrow> u32 \<Rightarrow> reg_env \<Rightarrow> (RegistryError, reg_env) result" where
  "register auth relayer endpoint fee_bps e =
     and_then (require_auth auth relayer) (\<lambda>_.
     and_then (get_max_fee_bps e) (\<lambda>max_fee.
     if fee_bps > max_fee then Inl (Err RegFeeTooHigh)
     else if length endpoint = 0 then Inl (Err InvalidEndpoint)
     else
       let info = \<lparr>ri_address = relayer, ri_endpoint = endpoint, ri_fee_bps = fee_bps, ri_active = True\<rparr>;
           is_new = \<not> has_relayer relayer e;
           e = set_relayer relayer info e
       in and_then
            (if is_new
             then and_then (get_relayer_count e) (\<lambda>count.
                  let e = set_relayer_index count relayer e in
                  and_then (checked_add count 1) (\<lambda>next. Inr (set_relayer_count next e)))
             else Inr e)
            (\<lambda>e. Inr (publish (RegisterEvent relayer) e))))"

definition deactivate :: "(Address \<Rightarrow> bool) \<Rightarrow> Address \<Rightarrow> Address \<Rightarrow> reg_env \<Rightarrow> (RegistryError, reg_env) result" where
  "deactivate auth caller relayer e =
     and_then (require_auth auth caller) (\<lambda>_.
     and_then (reg_get_admin e) (\<lambda>admin.
     if caller \<noteq> relayer \<and> caller \<noteq> admin then Inl (Err RegUnauthorized)
     else
       and_then (get_relayer relayer e) (\<lambda>found.
       and_then (ok_or RelayerNotFound found) (\<lambda>info.
       let info = info\<lparr>ri_active := False\<rparr>;
           e = set_relayer relayer info e
       in Inr (publish (DeactivateEvent relayer) e)))))"

definition reactivate :: "(Address \<Rightarrow> bool) \<Rightarrow> Address \<Rightarrow> reg_env \<Rightarrow> (RegistryError, reg_env) result" where
  "reactivate auth relayer e =
     and_then (require_auth auth relayer) (\<lambda>_.
     and_then (get_relayer relayer e) (\<lambda>found.
     and_then (ok_or RelayerNotFound found) (\<lambda>info.
       let info = info\<lparr>ri_active := True\<rparr>;
           e = set_relayer relayer info e
       in Inr (publish (ReactivateEvent relayer) e))))"

definition registry_set_max_fee :: "(Address \<Rightarrow> bool) \<Rightarrow> Address \<Rightarrow> u32 \<Rightarrow> reg_env \<Rightarrow> (RegistryError, reg_env) result" where
  "registry_set_max_fee auth admin max_fee_bps e =
     and_then (require_auth auth admin) (\<lambda>_.
     and_then (reg_get_admin e) (\<lambda>stored.
     if admin \<noteq> stored then Inl (Err RegUnauthorized)
     else Inr (set_max_fee_bps max_fee_bps e)))"

subsection \<open>Queries\<close>

text \<open>The loop \<open>for i in 0..count\<close> of \<open>get_active_relayers\<close>.\<close>

fun collect_active :: "u32 list \<Rightarrow> RelayerInfo list \<Rightarrow> reg_env \<Rightarrow> (RegistryError, RelayerInfo list) result" where
  "collect_active [] result e = Inr result"
| "collect_active (i # is) result e =
     and_then (get_relayer_index i e) (\<lambda>entry. case entry of
       None \<Rightarrow> collect_active is result e
     | Some addr \<Rightarrow>
         and_then (get_relayer addr e) (\<lambda>found. case found of
           None \<Rightarrow> collect_active is result e
         | Some info \<Rightarrow> collect_active is (if ri_active info then result @ [info] else result) e))"

definition get_active_relayers :: "reg_env \<Rightarrow> (RegistryError, RelayerInfo list) result" where
  "get_active_relayers e =
     and_then (get_relayer_count e) (\<lambda>count. collect_active (u32_range 0 count) [] e)"

definition registry_get_relayer :: "Address \<Rightarrow> reg_env \<Rightarrow> (RegistryError, RelayerInfo option) result" where
  "registry_get_relayer relayer e = get_relayer relayer e"

definition registry_get_max_fee :: "reg_env \<Rightarrow> (RegistryError, u32) result" where
  "registry_get_max_fee e = get_max_fee_bps e"

definition registry_get_relayer_count :: "reg_env \<Rightarrow> (RegistryError, u32) result" where
  "registry_get_relayer_count e = get_relayer_count e"

end
