(* ===== verification/RegistrySpec.thy ===== *)
theory RegistrySpec
  imports Registry
begin

text \<open>
  What the registry promises, as an abstract machine over the list of relayers in the order of
  their first registration, and the proof that the contract refines it.
\<close>

subsection \<open>The abstract registry\<close>

record ARegistry =
  r_admin :: Address
  r_max_fee :: u32
  r_relayers :: "RelayerInfo list"
  r_log :: "RegEvent list"

definition r_find :: "ARegistry \<Rightarrow> Address \<Rightarrow> RelayerInfo option" where
  "r_find r a = find (\<lambda>i. ri_address i = a) (r_relayers r)"

text \<open>Replace the entry of a relayer, or add it at the end.\<close>

definition r_put :: "RelayerInfo \<Rightarrow> RelayerInfo list \<Rightarrow> RelayerInfo list" where
  "r_put info is =
     (if \<exists>i\<in>set is. ri_address i = ri_address info
      then map (\<lambda>i. if ri_address i = ri_address info then info else i) is
      else is @ [info])"

definition a_register :: "(Address \<Rightarrow> bool) \<Rightarrow> Address \<Rightarrow> string \<Rightarrow> u32 \<Rightarrow> ARegistry \<Rightarrow> (RegistryError, ARegistry) result" where
  "a_register auth a endpoint fee r =
     (if \<not> auth a then Inl Panic
      else if r_max_fee r < fee then Inl (Err RegFeeTooHigh)
      else if endpoint = [] then Inl (Err InvalidEndpoint)
      else if r_find r a = None \<and> length (r_relayers r) = 2 ^ 32 - 1 then Inl Panic
      else Inr (r\<lparr>r_relayers := r_put \<lparr>ri_address = a, ri_endpoint = endpoint, ri_fee_bps = fee, ri_active = True\<rparr> (r_relayers r),
                  r_log := r_log r @ [RegisterEvent a]\<rparr>))"

definition a_set_active :: "bool \<Rightarrow> Address \<Rightarrow> RegEvent \<Rightarrow> ARegistry \<Rightarrow> (RegistryError, ARegistry) result" where
  "a_set_active b a ev r =
     (case r_find r a of None \<Rightarrow> Inl (Err RelayerNotFound)
      | Some info \<Rightarrow> Inr (r\<lparr>r_relayers := r_put (info\<lparr>ri_active := b\<rparr>) (r_relayers r), r_log := r_log r @ [ev]\<rparr>))"

definition a_deactivate :: "(Address \<Rightarrow> bool) \<Rightarrow> Address \<Rightarrow> Address \<Rightarrow> ARegistry \<Rightarrow> (RegistryError, ARegistry) result" where
  "a_deactivate auth caller a r =
     (if \<not> auth caller then Inl Panic
      else if caller \<noteq> a \<and> caller \<noteq> r_admin r then Inl (Err RegUnauthorized)
      else a_set_active False a (DeactivateEvent a) r)"

definition a_reactivate :: "(Address \<Rightarrow> bool) \<Rightarrow> Address \<Rightarrow> ARegistry \<Rightarrow> (RegistryError, ARegistry) result" where
  "a_reactivate auth a r =
     (if \<not> auth a then Inl Panic else a_set_active True a (ReactivateEvent a) r)"

definition a_set_max_fee :: "(Address \<Rightarrow> bool) \<Rightarrow> Address \<Rightarrow> u32 \<Rightarrow> ARegistry \<Rightarrow> (RegistryError, ARegistry) result" where
  "a_set_max_fee auth admin m r =
     (if \<not> auth admin then Inl Panic
      else if admin \<noteq> r_admin r then Inl (Err RegUnauthorized)
      else Inr (r\<lparr>r_max_fee := m\<rparr>))"

subsection \<open>The relation\<close>

definition reg_rep :: "reg_env \<Rightarrow> ARegistry \<Rightarrow> bool" where
  "reg_rep e r \<longleftrightarrow>
     inst_get RegInitialized e = Some (RVBool True) \<and>
     inst_get RegAdmin e = Some (RVAddress (r_admin r)) \<and>
     inst_get MaxFeeBps e = Some (RVU32 (r_max_fee r)) \<and>
     inst_get RelayerCount e = Some (RVU32 (word_of_nat (length (r_relayers r)))) \<and>
     length (r_relayers r) < 2 ^ 32 \<and> distinct (map ri_address (r_relayers r)) \<and>
     (\<forall>a. pers_get (Relayer a) e = map_option RVInfo (r_find r a)) \<and>
     (\<forall>i. pers_get (RelayerIndex i) e =
        (if unat i < length (r_relayers r) then Some (RVAddress (ri_address (r_relayers r ! unat i))) else None)) \<and>
     published e = r_log r"

lemma r_find_None: "r_find r a = None \<longleftrightarrow> (\<forall>i\<in>set (r_relayers r). ri_address i \<noteq> a)"
  by (auto simp: r_find_def find_None_iff)

lemma r_find_address: "r_find r a = Some info \<Longrightarrow> ri_address info = a \<and> info \<in> set (r_relayers r)"
  by (auto simp: r_find_def find_Some_iff)

lemma find_put:
  "find (\<lambda>i. ri_address i = a) (r_put info is) =
     (if a = ri_address info then Some info else find (\<lambda>i. ri_address i = a) is)"
proof -
  have "find (\<lambda>i. ri_address i = a) (map (\<lambda>i. if ri_address i = ri_address info then info else i) is) =
      (if a = ri_address info then (if \<exists>i\<in>set is. ri_address i = a then Some info else None)
       else find (\<lambda>i. ri_address i = a) is)"
    by (induction "is") auto
  moreover have "find (\<lambda>i. ri_address i = a) (is @ [info]) =
      (case find (\<lambda>i. ri_address i = a) is of None \<Rightarrow> if ri_address info = a then Some info else None | Some i \<Rightarrow> Some i)"
    by (induction "is") auto
  moreover have "find (\<lambda>i. ri_address i = a) is = None" if "\<forall>i\<in>set is. ri_address i \<noteq> a"
    using that by (simp add: find_None_iff)
  ultimately show ?thesis
    unfolding r_put_def by (auto split: option.splits)
qed

lemma addresses_put:
  "map ri_address (r_put info is) =
     (if \<exists>i\<in>set is. ri_address i = ri_address info then map ri_address is else map ri_address is @ [ri_address info])"
  by (auto simp: r_put_def)

lemma distinct_put: "distinct (map ri_address is) \<Longrightarrow> distinct (map ri_address (r_put info is))"
  by (auto simp: addresses_put)

lemma length_put_old: "\<exists>i\<in>set is. ri_address i = ri_address info \<Longrightarrow> length (r_put info is) = length is"
  by (auto simp: r_put_def)

lemma nth_address_put:
  "j < length is \<Longrightarrow> ri_address (r_put info is ! j) = ri_address (is ! j)"
  by (auto simp: r_put_def nth_append)

text \<open>Writing an entry that exists already, and adding a new one.\<close>

lemma reg_rep_update:
  assumes rep: "reg_rep e r" and old: "r_find r (ri_address info) \<noteq> None"
  shows "reg_rep (publish ev (set_relayer (ri_address info) info e))
    (r\<lparr>r_relayers := r_put info (r_relayers r), r_log := r_log r @ [ev]\<rparr>)"
proof -
  have ex: "\<exists>i\<in>set (r_relayers r). ri_address i = ri_address info" using old by (auto simp: r_find_None)
  have "r_find (r\<lparr>r_relayers := r_put info (r_relayers r), r_log := r_log r @ [ev]\<rparr>) a =
      (if a = ri_address info then Some info else r_find r a)" for a
    by (simp add: r_find_def find_put)
  with rep show ?thesis
    by (auto simp: reg_rep_def set_relayer_def distinct_put length_put_old [OF ex] nth_address_put)
qed

lemma reg_rep_add:
  assumes rep: "reg_rep e r" and new: "r_find r (ri_address info) = None"
    and room: "length (r_relayers r) < 2 ^ 32 - 1"
  shows "reg_rep (publish ev (set_relayer_count (word_of_nat (Suc (length (r_relayers r))))
        (set_relayer_index (word_of_nat (length (r_relayers r))) (ri_address info) (set_relayer (ri_address info) info e))))
    (r\<lparr>r_relayers := r_put info (r_relayers r), r_log := r_log r @ [ev]\<rparr>)"
proof -
  let ?n = "length (r_relayers r)"
  have none: "\<not> (\<exists>i\<in>set (r_relayers r). ri_address i = ri_address info)" using new by (auto simp: r_find_None)
  then have put: "r_put info (r_relayers r) = r_relayers r @ [info]" by (simp add: r_put_def)
  have find: "r_find (r\<lparr>r_relayers := r_put info (r_relayers r), r_log := r_log r @ [ev]\<rparr>) a =
      (if a = ri_address info then Some info else r_find r a)" for a
    by (simp add: r_find_def find_put)
  have "unat (word_of_nat ?n :: u32) = ?n" using room by (simp add: unat_of_nat_u32)
  then have idx: "i = word_of_nat ?n \<longleftrightarrow> unat i = ?n" for i :: u32 by (metis word_unat_eq_iff)
  have dist: "distinct (map ri_address (r_put info (r_relayers r)))"
    using rep distinct_put by (auto simp: reg_rep_def)
  show ?thesis
    using rep room find dist none
    by (auto simp: reg_rep_def put set_relayer_def set_relayer_index_def set_relayer_count_def idx nth_append less_Suc_eq)
qed

lemma reg_reads:
  assumes "reg_rep e r"
  shows "reg_is_initialized e" "reg_get_admin e = Inr (r_admin r)" "get_max_fee_bps e = Inr (r_max_fee r)"
    "get_relayer_count e = Inr (word_of_nat (length (r_relayers r)))"
    "has_relayer a e = (r_find r a \<noteq> None)" "get_relayer a e = Inr (r_find r a)"
    "get_relayer_index i e = Inr (if unat i < length (r_relayers r) then Some (ri_address (r_relayers r ! unat i)) else None)"
proof -
  have opt: "read_opt rv_info (map_option RVInfo v) = Inr v" for v by (cases v) simp_all
  show "reg_is_initialized e" "reg_get_admin e = Inr (r_admin r)" "get_max_fee_bps e = Inr (r_max_fee r)"
    "get_relayer_count e = Inr (word_of_nat (length (r_relayers r)))"
    "has_relayer a e = (r_find r a \<noteq> None)" "get_relayer a e = Inr (r_find r a)"
    "get_relayer_index i e = Inr (if unat i < length (r_relayers r) then Some (ri_address (r_relayers r ! unat i)) else None)"
    using assms by (simp_all add: reg_rep_def registry_storage_defs opt)
qed

subsection \<open>Refinement\<close>

lemma register_refines:
  assumes rep: "reg_rep e r"
  shows "res_rel reg_rep (register auth a endpoint fee e) (a_register auth a endpoint fee r)"
proof (cases "auth a \<and> fee \<le> r_max_fee r \<and> endpoint \<noteq> []")
  case False
  then show ?thesis by (auto simp: register_def a_register_def reg_reads [OF rep])
next
  case True
  let ?info = "\<lparr>ri_address = a, ri_endpoint = endpoint, ri_fee_bps = fee, ri_active = True\<rparr>"
  show ?thesis
  proof (cases "r_find r a")
    case (Some i)
    with True show ?thesis
      using reg_rep_update [OF rep, of ?info "RegisterEvent a"]
      by (simp add: register_def a_register_def reg_reads [OF rep] Let_def)
  next
    case None
    let ?n = "length (r_relayers r)"
    have lt: "?n < 2 ^ 32" using rep by (simp add: reg_rep_def)
    then have n: "unat (word_of_nat ?n :: u32) = ?n" by (rule unat_of_nat_u32)
    have count: "get_relayer_count (set_relayer a ?info e) = Inr (word_of_nat ?n)"
      using reg_reads(4) [OF rep] by (simp add: get_relayer_count_def set_relayer_def)
    show ?thesis
    proof (cases "?n = 2 ^ 32 - 1")
      case True
      with \<open>auth a \<and> fee \<le> r_max_fee r \<and> endpoint \<noteq> []\<close> None True show ?thesis
        by (simp add: register_def a_register_def reg_reads [OF rep] count Let_def checked_add_def)
    next
      case False
      then have room: "?n < 2 ^ 32 - 1" using lt by simp
      then have "unat (word_of_nat ?n :: u32) < 4294967295" using n by simp
      note add = checked_add_one [OF this]
      show ?thesis
        using \<open>auth a \<and> fee \<le> r_max_fee r \<and> endpoint \<noteq> []\<close> None False
          reg_rep_add [OF rep _ room, of ?info "RegisterEvent a"]
        by (simp add: register_def a_register_def reg_reads [OF rep] count Let_def add add.commute)
    qed
  qed
qed

lemma set_active_refines:
  assumes rep: "reg_rep e r"
  shows "res_rel reg_rep
    (and_then (ok_or RelayerNotFound (r_find r a)) (\<lambda>info.
       Inr (publish ev (set_relayer a (info\<lparr>ri_active := b\<rparr>) e)))) (a_set_active b a ev r)"
proof (cases "r_find r a")
  case None
  then show ?thesis by (simp add: a_set_active_def)
next
  case (Some info)
  with r_find_address [OF Some] reg_rep_update [OF rep, of "info\<lparr>ri_active := b\<rparr>" ev]
  show ?thesis by (simp add: a_set_active_def)
qed

lemma deactivate_refines:
  assumes rep: "reg_rep e r"
  shows "res_rel reg_rep (deactivate auth caller a e) (a_deactivate auth caller a r)"
  using set_active_refines [OF rep, of a "DeactivateEvent a" False]
  by (auto simp: deactivate_def a_deactivate_def reg_reads [OF rep] Let_def require_auth_def)

lemma reactivate_refines:
  assumes rep: "reg_rep e r"
  shows "res_rel reg_rep (reactivate auth a e) (a_reactivate auth a r)"
  using set_active_refines [OF rep, of a "ReactivateEvent a" True]
  by (auto simp: reactivate_def a_reactivate_def reg_reads [OF rep] Let_def require_auth_def)

lemma set_max_fee_refines:
  assumes rep: "reg_rep e r"
  shows "res_rel reg_rep (registry_set_max_fee auth admin m e) (a_set_max_fee auth admin m r)"
  using rep by (auto simp: registry_set_max_fee_def a_set_max_fee_def reg_reads [OF rep] require_auth_def
      set_max_fee_bps_def reg_rep_def r_find_def)

lemma registry_initialize_refines:
  "res_rel reg_rep (registry_initialize auth admin m empty_env)
     (if auth admin then Inr \<lparr>r_admin = admin, r_max_fee = m, r_relayers = [], r_log = []\<rparr> else Inl Panic)"
  by (simp add: registry_initialize_def reg_rep_def registry_storage_defs Let_def r_find_def)

lemma registry_initialize_twice:
  "reg_rep e r \<Longrightarrow> registry_initialize auth admin m e = Inl (Err RegAlreadyInitialized)"
  by (simp add: registry_initialize_def reg_reads(1))

subsection \<open>Queries\<close>

lemma find_distinct:
  "distinct (map ri_address is) \<Longrightarrow> i \<in> set is \<Longrightarrow> find (\<lambda>j. ri_address j = ri_address i) is = Some i"
  by (induction "is") (auto intro: rev_image_eqI)

lemma collect_active_rep:
  assumes rep: "reg_rep e r" and "\<forall>i\<in>set is. unat i < length (r_relayers r)"
  shows "collect_active is acc e = Inr (acc @ filter ri_active (map (\<lambda>i. r_relayers r ! unat i) is))"
  using assms(2)
proof (induction "is" arbitrary: acc)
  case Nil
  then show ?case by simp
next
  case (Cons i "is")
  have "r_find r (ri_address (r_relayers r ! unat i)) = Some (r_relayers r ! unat i)"
    using rep Cons.prems by (auto simp: r_find_def reg_rep_def intro!: find_distinct)
  then show ?case
    using Cons by (simp add: reg_reads [OF rep])
qed

lemma map_nth_u32_range:
  assumes "length xs < 2 ^ 32"
  shows "map (\<lambda>i. xs ! unat i) (u32_range 0 (word_of_nat (length xs))) = xs"
  using assms by (intro nth_equalityI) (simp_all add: u32_range_def unat_of_nat)

lemma get_active_relayers_rep:
  assumes rep: "reg_rep e r"
  shows "get_active_relayers e = Inr (filter ri_active (r_relayers r))"
proof -
  have len: "length (r_relayers r) < 2 ^ 32" using rep by (simp add: reg_rep_def)
  then have "\<forall>i\<in>set (u32_range 0 (word_of_nat (length (r_relayers r)))). unat i < length (r_relayers r)"
    by (simp add: set_u32_range unat_of_nat)
  from collect_active_rep [OF rep this, of "[]"] show ?thesis
    by (simp add: get_active_relayers_def reg_reads [OF rep] map_nth_u32_range [OF len])
qed

end
