(* ===== verification/RegistryProperties.thy ===== *)
theory RegistryProperties
  imports RegistrySpec
begin

text \<open>
  The registry over time (\<open>contracts/relayer_registry/src/lib.rs\<close>): its steps, the states they
  reach, and the properties of the registry with their witnesses.
\<close>

subsection \<open>Steps\<close>

text \<open>One successful call signed by the addresses of \<open>auth\<close>; caps above \<open>M\<close> are never set.\<close>

inductive reg_step :: "u32 \<Rightarrow> (Address \<Rightarrow> bool) \<Rightarrow> reg_env \<Rightarrow> reg_env \<Rightarrow> bool"
  for M auth where
  reg_register: "register auth a endpoint fee e = Inr e' \<Longrightarrow> reg_step M auth e e'"
| reg_deactivate: "deactivate auth caller a e = Inr e' \<Longrightarrow> reg_step M auth e e'"
| reg_reactivate: "reactivate auth a e = Inr e' \<Longrightarrow> reg_step M auth e e'"
| reg_set_max_fee: "m \<le> M \<Longrightarrow> registry_set_max_fee auth admin m e = Inr e' \<Longrightarrow> reg_step M auth e e'"

inductive reg_reach :: "u32 \<Rightarrow> reg_env \<Rightarrow> bool"
  for M where
  reg_start: "m \<le> M \<Longrightarrow> registry_initialize auth admin m empty_env = Inr e \<Longrightarrow> reg_reach M e"
| reg_next: "reg_reach M e \<Longrightarrow> reg_step M auth e e' \<Longrightarrow> reg_reach M e'"

text \<open>The abstract effect of a step: one entry is written, or the cap is changed.\<close>

inductive a_reg_step :: "u32 \<Rightarrow> (Address \<Rightarrow> bool) \<Rightarrow> ARegistry \<Rightarrow> ARegistry \<Rightarrow> bool"
  for M auth where
  a_put_own: "auth a \<Longrightarrow> ri_address info = a \<Longrightarrow> ri_fee_bps info \<le> r_max_fee r \<Longrightarrow> ri_endpoint info \<noteq> [] \<Longrightarrow> ri_active info \<Longrightarrow>
     a_reg_step M auth r (r\<lparr>r_relayers := r_put info (r_relayers r), r_log := r_log r @ [ev]\<rparr>)"
| a_switch_on: "auth a \<Longrightarrow> r_find r a = Some info \<Longrightarrow>
     a_reg_step M auth r (r\<lparr>r_relayers := r_put (info\<lparr>ri_active := True\<rparr>) (r_relayers r), r_log := r_log r @ [ev]\<rparr>)"
| a_switch_off: "auth a \<or> auth (r_admin r) \<Longrightarrow> r_find r a = Some info \<Longrightarrow>
     a_reg_step M auth r (r\<lparr>r_relayers := r_put (info\<lparr>ri_active := False\<rparr>) (r_relayers r), r_log := r_log r @ [ev]\<rparr>)"
| a_cap: "auth (r_admin r) \<Longrightarrow> m \<le> M \<Longrightarrow> a_reg_step M auth r (r\<lparr>r_max_fee := m\<rparr>)"

lemma reg_step_simulates:
  assumes rep: "reg_rep e r" and step: "reg_step M auth e e'"
  shows "\<exists>r'. reg_rep e' r' \<and> a_reg_step M auth r r'"
  using step
proof cases
  case (reg_register a endpoint fee)
  then obtain r' where r': "a_register auth a endpoint fee r = Inr r'" "reg_rep e' r'"
    using register_refines [OF rep, of auth a endpoint fee] by (auto dest: res_rel_InrD)
  then show ?thesis
    by (intro exI [of _ r']) (auto simp: a_register_def not_less split: if_splits intro!: a_put_own)
next
  case (reg_deactivate caller a)
  then obtain r' where r': "a_deactivate auth caller a r = Inr r'" "reg_rep e' r'"
    using deactivate_refines [OF rep, of auth caller a] by (auto dest: res_rel_InrD)
  then show ?thesis
    by (intro exI [of _ r'])
      (auto simp: a_deactivate_def a_set_active_def split: if_splits option.splits intro!: a_switch_off)
next
  case (reg_reactivate a)
  then obtain r' where r': "a_reactivate auth a r = Inr r'" "reg_rep e' r'"
    using reactivate_refines [OF rep, of auth a] by (auto dest: res_rel_InrD)
  then show ?thesis
    by (intro exI [of _ r'])
      (auto simp: a_reactivate_def a_set_active_def split: if_splits option.splits intro!: a_switch_on)
next
  case (reg_set_max_fee m admin)
  then obtain r' where r': "a_set_max_fee auth admin m r = Inr r'" "reg_rep e' r'"
    using set_max_fee_refines [OF rep, of auth admin m] by (auto dest: res_rel_InrD)
  then show ?thesis using reg_set_max_fee
    by (intro exI [of _ r']) (auto simp: a_set_max_fee_def split: if_splits intro!: a_cap)
qed

lemma r_find_put [simp]:
  "r_find (r\<lparr>r_relayers := r_put info (r_relayers r), r_log := lg\<rparr>) a =
     (if a = ri_address info then Some info else r_find r a)"
  "r_find (r\<lparr>r_max_fee := m\<rparr>) a = r_find r a"
  by (simp_all add: r_find_def find_put)

subsection \<open>Invariant\<close>

definition reg_inv :: "u32 \<Rightarrow> ARegistry \<Rightarrow> bool" where
  "reg_inv M r \<longleftrightarrow> r_max_fee r \<le> M \<and>
     (\<forall>a info. r_find r a = Some info \<longrightarrow> ri_fee_bps info \<le> M \<and> ri_endpoint info \<noteq> [] \<and> ri_address info = a)"

lemma a_reg_step_inv: "a_reg_step M auth r r' \<Longrightarrow> reg_inv M r \<Longrightarrow> reg_inv M r'"
  by (induction rule: a_reg_step.induct) (auto simp: reg_inv_def)

lemma reg_reach_inv: "reg_reach M e \<Longrightarrow> \<exists>r. reg_rep e r \<and> reg_inv M r"
proof (induction rule: reg_reach.induct)
  case (reg_start m auth admin e)
  then show ?case
    using registry_initialize_refines [of auth admin m]
    by (auto simp: reg_inv_def r_find_def split: if_splits dest!: res_rel_InrD)
next
  case (reg_next e auth e')
  then show ?case by (meson reg_step_simulates a_reg_step_inv)
qed

subsection \<open>A registry to apply the theorems to\<close>

definition admin1 :: Address where "admin1 = Address ''GADMIN''"
definition rel1 :: Address where "rel1 = Address ''GREL1''"
definition rel2 :: Address where "rel2 = Address ''GREL2''"

definition everyone :: "Address \<Rightarrow> bool" where "everyone a \<longleftrightarrow> True"

definition demo_reg0 :: reg_env where
  "demo_reg0 = state_after empty_env (registry_initialize everyone admin1 500 empty_env)"

definition demo_aregistry0 :: ARegistry where
  "demo_aregistry0 = \<lparr>r_admin = admin1, r_max_fee = 500, r_relayers = [], r_log = []\<rparr>"

definition demo_reg1 :: reg_env where
  "demo_reg1 = state_after demo_reg0 (register everyone rel1 ''http'' 400 demo_reg0)"

definition demo_aregistry1 :: ARegistry where
  "demo_aregistry1 = \<lparr>r_admin = admin1, r_max_fee = 500,
     r_relayers = [\<lparr>ri_address = rel1, ri_endpoint = ''http'', ri_fee_bps = 400, ri_active = True\<rparr>],
     r_log = [RegisterEvent rel1]\<rparr>"

lemma demo_reg0: "registry_initialize everyone admin1 500 empty_env = Inr demo_reg0" "reg_rep demo_reg0 demo_aregistry0"
proof -
  have "res_rel reg_rep (registry_initialize everyone admin1 500 empty_env) (Inr demo_aregistry0)"
    using registry_initialize_refines [of everyone admin1 500] by (simp add: demo_aregistry0_def everyone_def)
  from state_after_Inr [OF this, of empty_env]
  show "registry_initialize everyone admin1 500 empty_env = Inr demo_reg0" "reg_rep demo_reg0 demo_aregistry0"
    by (simp_all only: demo_reg0_def)
qed

lemma demo_reg1: "register everyone rel1 ''http'' 400 demo_reg0 = Inr demo_reg1" "reg_rep demo_reg1 demo_aregistry1"
proof -
  have "a_register everyone rel1 ''http'' 400 demo_aregistry0 = Inr demo_aregistry1"
    by (simp add: a_register_def demo_aregistry0_def demo_aregistry1_def everyone_def r_find_def r_put_def)
  then have "res_rel reg_rep (register everyone rel1 ''http'' 400 demo_reg0) (Inr demo_aregistry1)"
    using register_refines [OF demo_reg0(2), of everyone rel1 "''http''" 400] by simp
  from state_after_Inr [OF this, of demo_reg0]
  show "register everyone rel1 ''http'' 400 demo_reg0 = Inr demo_reg1" "reg_rep demo_reg1 demo_aregistry1"
    by (simp_all only: demo_reg1_def)
qed

subsection \<open>Properties\<close>

text \<open>(C27) The registry's entry points refine the abstract registry, an ordered list with one
  entry per relayer: registration adds at the end or replaces in place, (de)activation flips
  the flag of an existing entry, the cap is the administrator's; every error (missing
  signature, fee above the cap, empty endpoint, unknown relayer, foreign caller, counter
  overflow) is the abstract one, in the code's order.\<close>

theorem registry_refines:
  assumes "reg_rep e r"
  shows "res_rel reg_rep (register auth a endpoint fee e) (a_register auth a endpoint fee r) \<and>
    res_rel reg_rep (deactivate auth caller a e) (a_deactivate auth caller a r) \<and>
    res_rel reg_rep (reactivate auth a e) (a_reactivate auth a r) \<and>
    res_rel reg_rep (registry_set_max_fee auth admin m e) (a_set_max_fee auth admin m r) \<and>
    registry_initialize auth admin m e = Inl (Err RegAlreadyInitialized)"
  using register_refines [OF assms] deactivate_refines [OF assms] reactivate_refines [OF assms]
    set_max_fee_refines [OF assms] registry_initialize_twice [OF assms] by blast

lemma registry_refines_witness:
  "res_rel reg_rep (register everyone rel2 ''http'' 600 demo_reg1) (Inl (Err RegFeeTooHigh)) \<and>
   registry_initialize everyone rel2 9 demo_reg1 = Inl (Err RegAlreadyInitialized)"
  using registry_refines [OF demo_reg1(2), of everyone rel2 "''http''" 600 rel2 rel2 9]
  by (simp add: a_register_def everyone_def demo_aregistry1_def)

text \<open>\<open>get_active_relayers\<close> returns, without panicking, exactly the active entries, each
  once and in the order of first registration.\<close>

lemma active_relayers_listed:
  assumes "reg_rep e r"
  shows "get_active_relayers e = Inr (filter ri_active (r_relayers r)) \<and>
    distinct (map ri_address (filter ri_active (r_relayers r)))"
  using get_active_relayers_rep [OF assms] assms by (simp add: reg_rep_def distinct_map_filter)

text \<open>In every reachable state each stored relayer has a non-empty endpoint, is stored
  under its own address, and charges no more than the largest cap the administrator ever set.\<close>

lemma registry_fees_below_largest_cap:
  assumes reach: "reg_reach M e" and found: "registry_get_relayer a e = Inr (Some info)"
  shows "ri_fee_bps info \<le> M \<and> ri_endpoint info \<noteq> [] \<and> ri_address info = a"
proof -
  obtain r where rep: "reg_rep e r" and inv: "reg_inv M r" using reg_reach_inv [OF reach] by blast
  have "r_find r a = Some info" using found by (simp add: registry_get_relayer_def reg_reads [OF rep])
  with inv show ?thesis by (simp add: reg_inv_def)
qed

text \<open>(C28) Consent: a step changes the entry of a relayer only with that relayer's signature,
  except that the administrator may switch it off and nothing else; a relayer that becomes
  active has signed.\<close>

theorem registry_changes_are_signed:
  assumes rep: "reg_rep e r" and step: "reg_step M auth e e'"
    and changed: "registry_get_relayer a e' \<noteq> registry_get_relayer a e"
  shows "auth a \<or> auth (r_admin r) \<and>
    (\<exists>info. registry_get_relayer a e = Inr (Some info) \<and>
       registry_get_relayer a e' = Inr (Some (info\<lparr>ri_active := False\<rparr>)))"
proof -
  obtain r' where rep': "reg_rep e' r'" and a: "a_reg_step M auth r r'"
    using reg_step_simulates [OF rep step] by blast
  have get: "registry_get_relayer a e = Inr (r_find r a)" "registry_get_relayer a e' = Inr (r_find r' a)"
    by (simp_all add: registry_get_relayer_def reg_reads [OF rep] reg_reads [OF rep'])
  from a changed show ?thesis
    unfolding get by cases (auto split: if_splits dest: r_find_address)
qed

text \<open>The registration of \<open>rel1\<close> is no step that \<open>rel2\<close> alone can sign.\<close>

lemma registry_changes_are_signed_witness: "\<not> reg_step 0 (\<lambda>a. a = rel2) demo_reg0 demo_reg1"
proof
  assume step: "reg_step 0 (\<lambda>a. a = rel2) demo_reg0 demo_reg1"
  have "registry_get_relayer rel1 demo_reg1 \<noteq> registry_get_relayer rel1 demo_reg0"
    by (simp add: registry_get_relayer_def reg_reads [OF demo_reg1(2)] reg_reads [OF demo_reg0(2)]
        r_find_def demo_aregistry1_def demo_aregistry0_def)
  from registry_changes_are_signed [OF demo_reg0(2) step this]
  show False by (simp add: demo_aregistry0_def rel1_def rel2_def admin1_def)
qed

text \<open>Lowering the cap binds nobody who is registered: after the administrator sets a cap
  below the fee of a relayer, that relayer keeps its entry, can be deactivated by the
  administrator and then reactivate itself at the same fee, above the cap in force.\<close>

lemma lowered_cap_not_enforced:
  assumes rep: "reg_rep e r" and found: "r_find r a = Some info" and lower: "m < ri_fee_bps info"
    and signed: "auth (r_admin r)" "auth a"
  shows "\<exists>e1 e2 e3. registry_set_max_fee auth (r_admin r) m e = Inr e1 \<and>
    deactivate auth (r_admin r) a e1 = Inr e2 \<and> reactivate auth a e2 = Inr e3 \<and>
    registry_get_max_fee e3 = Inr m \<and>
    registry_get_relayer a e3 = Inr (Some (info\<lparr>ri_active := True\<rparr>)) \<and> m < ri_fee_bps (info\<lparr>ri_active := True\<rparr>)"
proof -
  let ?r1 = "r\<lparr>r_max_fee := m\<rparr>"
  have addr: "ri_address info = a" using r_find_address [OF found] by simp
  obtain e1 where e1: "registry_set_max_fee auth (r_admin r) m e = Inr e1" "reg_rep e1 ?r1"
    using set_max_fee_refines [OF rep, of auth "r_admin r" m] signed
    by (auto simp: a_set_max_fee_def dest!: res_rel_Inr_abs)
  let ?r2 = "?r1\<lparr>r_relayers := r_put (info\<lparr>ri_active := False\<rparr>) (r_relayers ?r1), r_log := r_log ?r1 @ [DeactivateEvent a]\<rparr>"
  have "a_deactivate auth (r_admin r) a ?r1 = Inr ?r2"
    using signed found by (simp add: a_deactivate_def a_set_active_def)
  then obtain e2 where e2: "deactivate auth (r_admin r) a e1 = Inr e2" "reg_rep e2 ?r2"
    using deactivate_refines [OF e1(2), of auth "r_admin r" a] by (auto dest!: res_rel_Inr_abs)
  let ?r3 = "?r2\<lparr>r_relayers := r_put (info\<lparr>ri_active := True\<rparr>) (r_relayers ?r2), r_log := r_log ?r2 @ [ReactivateEvent a]\<rparr>"
  have "r_find ?r2 a = Some (info\<lparr>ri_active := False\<rparr>)" using addr by (simp add: r_find_def find_put)
  then have "a_reactivate auth a ?r2 = Inr ?r3"
    using signed by (simp add: a_reactivate_def a_set_active_def)
  then obtain e3 where e3: "reactivate auth a e2 = Inr e3" "reg_rep e3 ?r3"
    using reactivate_refines [OF e2(2), of auth a] by (auto dest!: res_rel_Inr_abs)
  have "r_find ?r3 a = Some (info\<lparr>ri_active := True\<rparr>)" using addr by (simp add: r_find_def find_put)
  then show ?thesis
    using e1(1) e2(1) e3(1) lower
    by (intro exI [of _ e1] exI [of _ e2] exI [of _ e3])
      (simp add: registry_get_relayer_def registry_get_max_fee_def reg_reads [OF e3(2)])
qed

end
