(* ===== verification/IndexerMerkle.thy ===== *)
theory IndexerMerkle
  imports Poseidon MerkleSpec
begin

text \<open>
  \<open>indexer/src/poseidon.rs\<close> and \<open>indexer/src/merkle.rs\<close>: the indexer's own Poseidon wrappers and
  its in-memory Merkle tree, which is rebuilt layer by layer after every insertion, and the
  proof that it provides the interface of an append-only tree and serves authentication paths.
\<close>

subsection \<open>Poseidon\<close>

definition idx_bytes_to_fr :: "('fr, 'z) field_crypto_scheme \<Rightarrow> bytes32 \<Rightarrow> 'fr" where
  "idx_bytes_to_fr c bytes = (let le = rev (array_list bytes) in fr_from_le_bytes_mod_order c le)"

text \<open>\<open>for (i, &b) in le_bytes.iter().enumerate().take(32) { result[31 - i] = b; }\<close>\<close>

definition idx_fr_to_bytes :: "('fr, 'z) field_crypto_scheme \<Rightarrow> 'fr \<Rightarrow> bytes32" where
  "idx_fr_to_bytes c fr =
     (let le_bytes = fr_to_bytes_le c fr
      in array_of (fold (\<lambda>(i, b) result. result[31 - i := b])
           (take 32 (zip [0..<length le_bytes] le_bytes)) (replicate 32 0)))"

definition idx_hash_pair :: "('fr, 'z) field_crypto_scheme \<Rightarrow> bytes32 \<Rightarrow> bytes32 \<Rightarrow> bytes32" where
  "idx_hash_pair c left right =
     (let l = idx_bytes_to_fr c left; r = idx_bytes_to_fr c right in idx_fr_to_bytes c (poseidon2 c l r))"

definition idx_hash_single :: "('fr, 'z) field_crypto_scheme \<Rightarrow> bytes32 \<Rightarrow> bytes32" where
  "idx_hash_single c input = (let inp = idx_bytes_to_fr c input in idx_fr_to_bytes c (poseidon1 c inp))"

text \<open>They are the contract's functions (\<open>contracts/mixer_pool/src/poseidon.rs\<close>).\<close>

lemma idx_fr_to_bytes_eq: "idx_fr_to_bytes c = fr_to_bytes c"
proof
  fix x
  let ?le = "fr_to_bytes_le c x"
  have "take 32 (zip [0..<length ?le] ?le) = map (\<lambda>i. (i, ?le ! i)) [0..<min (length ?le) 32]"
    by (rule nth_equalityI) auto
  then show "idx_fr_to_bytes c x = fr_to_bytes c x"
    by (simp add: idx_fr_to_bytes_def fr_to_bytes_def Let_def fold_map comp_def)
qed

lemma idx_hash_eq: "idx_hash_pair c = hash_pair_bytes c" "idx_hash_single c = hash_single_bytes c"
  by (simp_all add: fun_eq_iff idx_hash_pair_def idx_hash_single_def hash_pair_bytes_def hash_single_bytes_def
      hash_pair_def hash_single_def idx_fr_to_bytes_eq idx_bytes_to_fr_def bytes_to_fr_def Let_def)

subsection \<open>The tree\<close>

record MerkleProof =
  mp_root :: bytes32
  mp_path_elements :: "bytes32 list"
  mp_path_indices :: "u32 list"
  mp_leaf_index :: u32

record MerkleTree =
  mt_depth :: u32
  mt_leaves :: "bytes32 list"
  mt_layers :: "bytes32 list list"
  mt_zero_values :: "bytes32 list"

text \<open>\<open>for i in 1..=depth { zero_values[i] = hash_pair(&zero_values[i - 1], &zero_values[i - 1]) }\<close>\<close>

fun fill_zeros :: "('fr, 'z) field_crypto_scheme \<Rightarrow> nat list \<Rightarrow> bytes32 list \<Rightarrow> bytes32 list run" where
  "fill_zeros c [] zs = Inr zs"
| "fill_zeros c (i # is) zs =
     and_then (vec_index zs (i - 1)) (\<lambda>z. and_then (vec_set zs i (idx_hash_pair c z z)) (fill_zeros c is))"

definition tree_new :: "('fr, 'z) field_crypto_scheme \<Rightarrow> u32 \<Rightarrow> MerkleTree run" where
  "tree_new c depth =
     and_then (vec_set (replicate (unat (depth + 1)) (array_of (replicate 32 0))) 0
                (idx_hash_single c (array_of (replicate 32 0)))) (\<lambda>zs.
     and_then (fill_zeros c [1..<Suc (unat depth)] zs) (\<lambda>zs.
     Inr \<lparr>mt_depth = depth, mt_leaves = [], mt_layers = map (\<lambda>_. []) [0..<Suc (unat depth)], mt_zero_values = zs\<rparr>))"

text \<open>The inner loop \<open>for i in 0..layer_size\<close> of \<open>rebuild\<close>.\<close>

fun push_parents :: "('fr, 'z) field_crypto_scheme \<Rightarrow> nat \<Rightarrow> nat list \<Rightarrow> MerkleTree \<Rightarrow> MerkleTree run" where
  "push_parents c level [] t = Inr t"
| "push_parents c level (i # is) t =
     and_then (vec_index (mt_layers t) level) (\<lambda>layer.
     and_then (vec_index (mt_zero_values t) level) (\<lambda>z.
       let left = (case vec_get layer (i * 2) of Some x \<Rightarrow> x | None \<Rightarrow> z);
           right = (case vec_get layer (i * 2 + 1) of Some x \<Rightarrow> x | None \<Rightarrow> z)
       in
     and_then (vec_index (mt_layers t) (level + 1)) (\<lambda>up.
     and_then (vec_set (mt_layers t) (level + 1) (up @ [idx_hash_pair c left right])) (\<lambda>layers.
       push_parents c level is (t\<lparr>mt_layers := layers\<rparr>)))))"

text \<open>The outer loop \<open>for level in 0..depth\<close> of \<open>rebuild\<close>.\<close>

fun rebuild_levels :: "('fr, 'z) field_crypto_scheme \<Rightarrow> nat list \<Rightarrow> MerkleTree \<Rightarrow> MerkleTree run" where
  "rebuild_levels c [] t = Inr t"
| "rebuild_levels c (level # levels) t =
     and_then (vec_index (mt_layers t) level) (\<lambda>layer.
       let layer_size = (length layer + 1) div 2 in
     and_then (vec_set (mt_layers t) (level + 1) []) (\<lambda>layers.
     and_then (push_parents c level [0..<layer_size] (t\<lparr>mt_layers := layers\<rparr>))
       (rebuild_levels c levels)))"

definition rebuild :: "('fr, 'z) field_crypto_scheme \<Rightarrow> MerkleTree \<Rightarrow> MerkleTree run" where
  "rebuild c t = rebuild_levels c [0..<unat (mt_depth t)] t"

definition tree_insert :: "('fr, 'z) field_crypto_scheme \<Rightarrow> bytes32 \<Rightarrow> MerkleTree \<Rightarrow> (u32 \<times> MerkleTree) run" where
  "tree_insert c commitment t =
     (let index = word_of_nat (length (mt_leaves t)); leaves = mt_leaves t @ [commitment] in
      and_then (vec_set (mt_layers t) 0 leaves) (\<lambda>layers.
      and_then (rebuild c (t\<lparr>mt_leaves := leaves, mt_layers := layers\<rparr>)) (\<lambda>t. Inr (index, t))))"

definition mt_root :: "MerkleTree \<Rightarrow> bytes32 run" where
  "mt_root t =
     and_then (vec_index (mt_layers t) (unat (mt_depth t))) (\<lambda>top.
       if top = [] then vec_index (mt_zero_values t) (unat (mt_depth t)) else vec_index top 0)"

text \<open>The loop \<open>for level in 0..self.depth\<close> of \<open>proof\<close>.\<close>

fun proof_levels :: "MerkleTree \<Rightarrow> nat list \<Rightarrow> u32 \<Rightarrow> bytes32 list \<Rightarrow> u32 list \<Rightarrow> (bytes32 list \<times> u32 list) run" where
  "proof_levels t [] current_index path_elements path_indices = Inr (path_elements, path_indices)"
| "proof_levels t (level # levels) current_index path_elements path_indices =
     and_then (if current_index mod 2 = 0 then checked_add current_index 1 else checked_sub current_index 1) (\<lambda>sibling_index.
     and_then (vec_index (mt_layers t) level) (\<lambda>layer.
     and_then (vec_index (mt_zero_values t) level) (\<lambda>z.
       let sib = (case vec_get layer (unat sibling_index) of Some x \<Rightarrow> x | None \<Rightarrow> z)
       in proof_levels t levels (current_index div 2) (path_elements @ [sib]) (path_indices @ [current_index mod 2]))))"

definition tree_proof :: "u32 \<Rightarrow> MerkleTree \<Rightarrow> MerkleProof option run" where
  "tree_proof index t =
     (if index \<ge> word_of_nat (length (mt_leaves t)) then Inr None
      else and_then (proof_levels t [0..<unat (mt_depth t)] index [] []) (\<lambda>(path_elements, path_indices).
           and_then (mt_root t) (\<lambda>root.
           Inr (Some \<lparr>mp_root = root, mp_path_elements = path_elements, mp_path_indices = path_indices,
                      mp_leaf_index = index\<rparr>))))"

definition leaf_count :: "MerkleTree \<Rightarrow> u32" where
  "leaf_count t = word_of_nat (length (mt_leaves t))"

definition stored_depth :: "MerkleTree \<Rightarrow> u32" where
  "stored_depth t = mt_depth t"

definition tree_leaf :: "u32 \<Rightarrow> MerkleTree \<Rightarrow> bytes32 option" where
  "tree_leaf index t = vec_get (mt_leaves t) (unat index)"

definition find_commitment :: "bytes32 \<Rightarrow> MerkleTree \<Rightarrow> u32 option" where
  "find_commitment commitment t = map_option word_of_nat (vec_position (mt_leaves t) commitment)"

subsection \<open>What the layers hold\<close>

definition layer :: "('fr, 'z) field_crypto_scheme \<Rightarrow> bytes32 list \<Rightarrow> nat \<Rightarrow> bytes32 list" where
  "layer c xs l = map (node (hash_pair_bytes c) (hash_single_bytes c (array_of (replicate 32 0))) xs l)
     [0..<layer_count (length xs) l]"

abbreviation idx_zero :: "('fr, 'z) field_crypto_scheme \<Rightarrow> bytes32" where
  "idx_zero c \<equiv> hash_single_bytes c (array_of (replicate 32 0))"

abbreviation idx_node :: "('fr, 'z) field_crypto_scheme \<Rightarrow> bytes32 list \<Rightarrow> nat \<Rightarrow> nat \<Rightarrow> bytes32" where
  "idx_node c \<equiv> node (hash_pair_bytes c) (idx_zero c)"

definition zeros_ok :: "('fr, 'z) field_crypto_scheme \<Rightarrow> MerkleTree \<Rightarrow> bool" where
  "zeros_ok c t \<longleftrightarrow> mt_zero_values t = map (empty_node (hash_pair_bytes c) (idx_zero c)) [0..<Suc (unat (mt_depth t))]"

definition mtree_rep :: "('fr, 'z) field_crypto_scheme \<Rightarrow> u32 \<Rightarrow> MerkleTree \<Rightarrow> bytes32 list \<Rightarrow> bool" where
  "mtree_rep c depth t xs \<longleftrightarrow> mt_depth t = depth \<and> mt_leaves t = xs \<and> zeros_ok c t \<and>
     mt_layers t = map (layer c xs) [0..<Suc (unat depth)]"

text \<open>A node read through \<open>get(i).unwrap_or(zero)\<close>.\<close>

lemma layer_get:
  "(case vec_get (layer c xs l) i of Some x \<Rightarrow> x | None \<Rightarrow> empty_node (hash_pair_bytes c) (idx_zero c) l) = idx_node c xs l i"
  using spec_layer_get [of i "hash_pair_bytes c" "idx_zero c" xs l]
  by (simp add: vec_get_def layer_def spec_layer_def split: if_splits)

subsection \<open>The loops\<close>

lemma fill_zeros_ok:
  assumes "length zs = Suc d" and "\<forall>j<k. zs ! j = empty_node (hash_pair_bytes c) (idx_zero c) j"
    and "0 < k" and "k \<le> Suc d"
  shows "fill_zeros c [k..<Suc d] zs = Inr (map (empty_node (hash_pair_bytes c) (idx_zero c)) [0..<Suc d])"
  using assms
proof (induction "Suc d - k" arbitrary: k zs)
  case 0
  then have "k = Suc d" by simp
  with 0 show ?case by (auto intro!: nth_equalityI simp del: upt_Suc)
next
  case (Suc n)
  then have k: "k < Suc d" by simp
  let ?zs = "zs[k := empty_node (hash_pair_bytes c) (idx_zero c) k]"
  have "empty_node (hash_pair_bytes c) (idx_zero c) k = hash_pair_bytes c (zs ! (k - 1)) (zs ! (k - 1))"
    using Suc.prems(2,3) by (cases k) auto
  then have "fill_zeros c [k..<Suc d] zs = fill_zeros c [Suc k..<Suc d] ?zs"
    using k Suc.prems(1) by (simp add: upt_conv_Cons idx_hash_eq del: upt_Suc)
  also have "\<dots> = Inr (map (empty_node (hash_pair_bytes c) (idx_zero c)) [0..<Suc d])"
    using Suc.hyps(2) Suc.prems k
    by (intro Suc.hyps(1)) (auto simp: nth_list_update less_Suc_eq)
  finally show ?case .
qed

lemma push_parents_ok:
  assumes "mt_layers t ! level = layer c xs level" and "level < unat (mt_depth t)"
    and "length (mt_layers t) = Suc (unat (mt_depth t))" and "zeros_ok c t"
    and "mt_layers t ! Suc level = map (idx_node c xs (Suc level)) [0..<k]" and "k \<le> m"
  shows "push_parents c level [k..<m] t =
    Inr (t\<lparr>mt_layers := (mt_layers t)[Suc level := map (idx_node c xs (Suc level)) [0..<m]]\<rparr>)"
  using assms
proof (induction "m - k" arbitrary: k t)
  case 0
  then have "k = m" by simp
  with 0 have "(mt_layers t)[Suc level := map (idx_node c xs (Suc level)) [0..<m]] = mt_layers t"
    by (metis list_update_id)
  with \<open>k = m\<close> show ?case by (simp del: node.simps)
next
  case (Suc n)
  then have k: "k < m" by simp
  let ?t = "t\<lparr>mt_layers := (mt_layers t)[Suc level := map (idx_node c xs (Suc level)) [0..<Suc k]]\<rparr>"
  have z: "mt_zero_values t ! level = empty_node (hash_pair_bytes c) (idx_zero c) level"
    and zlen: "level < length (mt_zero_values t)"
    using Suc.prems(2,4) by (simp_all add: zeros_ok_def del: upt_Suc)
  have "push_parents c level [k..<m] t = push_parents c level [Suc k..<m] ?t"
    using k Suc.prems z zlen
    by (simp add: upt_conv_Cons [OF k] layer_get idx_hash_eq mult.commute)
  also have "\<dots> = Inr (?t\<lparr>mt_layers := (mt_layers ?t)[Suc level := map (idx_node c xs (Suc level)) [0..<m]]\<rparr>)"
    using Suc.hyps(2) Suc.prems k by (intro Suc.hyps(1)) (simp_all add: zeros_ok_def)
  finally show ?case by simp
qed

lemma rebuild_levels_ok:
  assumes "\<forall>j\<le>level. mt_layers t ! j = layer c xs j" and "level \<le> unat (mt_depth t)"
    and "length (mt_layers t) = Suc (unat (mt_depth t))" and "zeros_ok c t"
  shows "rebuild_levels c [level..<unat (mt_depth t)] t =
    Inr (t\<lparr>mt_layers := map (layer c xs) [0..<Suc (unat (mt_depth t))]\<rparr>)"
  using assms
proof (induction "unat (mt_depth t) - level" arbitrary: level t)
  case 0
  then have "level = unat (mt_depth t)" by simp
  with 0 have "mt_layers t = map (layer c xs) [0..<Suc (unat (mt_depth t))]"
    by (intro nth_equalityI) (auto simp del: upt_Suc)
  with \<open>level = unat (mt_depth t)\<close> show ?case by (cases t) simp
next
  case (Suc n)
  then have lt: "level < unat (mt_depth t)" by simp
  let ?u = "t\<lparr>mt_layers := (mt_layers t)[Suc level := []]\<rparr>"
  let ?m = "layer_count (length xs) (Suc level)"
  let ?t = "t\<lparr>mt_layers := (mt_layers t)[Suc level := layer c xs (Suc level)]\<rparr>"
  have at: "mt_layers t ! level = layer c xs level" using Suc.prems(1) by simp
  have "push_parents c level [0..<?m] ?u =
      Inr (?u\<lparr>mt_layers := (mt_layers ?u)[Suc level := map (idx_node c xs (Suc level)) [0..<?m]]\<rparr>)"
    using Suc.prems(3,4) lt at by (intro push_parents_ok) (simp_all add: zeros_ok_def del: upt_Suc)
  then have push: "push_parents c level [0..<?m] ?u = Inr ?t"
    by (simp add: layer_def [of c xs "Suc level"])
  have "rebuild_levels c [level..<unat (mt_depth t)] t = rebuild_levels c [Suc level..<unat (mt_depth t)] ?t"
    using push Suc.prems(3) lt at by (simp add: upt_conv_Cons [OF lt] layer_def [of c xs level])
  also have "\<dots> = Inr (?t\<lparr>mt_layers := map (layer c xs) [0..<Suc (unat (mt_depth ?t))]\<rparr>)"
    using Suc.hyps(1) [of ?t "Suc level"] Suc.hyps(2) Suc.prems lt
    by (simp add: zeros_ok_def nth_list_update le_Suc_eq)
  finally show ?case by simp
qed

subsection \<open>The operations\<close>

lemma tree_new_rep:
  assumes "depth \<noteq> - 1"
  shows "\<exists>t. tree_new c depth = Inr t \<and> mtree_rep c depth t []"
proof -
  have "unat depth < 4294967295"
    using assms unat_less_2p32 [of depth] by (metis add.commute add_diff_cancel_right' less_numeral_extra(3)
      u32_less_max word_less_nat_alt word_order.extremum_strict word_order.not_eq_extremum)
  then have d: "unat (depth + 1) = Suc (unat depth)" by (rule unat_add_one)
  let ?z = "empty_node (hash_pair_bytes c) (idx_zero c)"
  have "fill_zeros c [1..<Suc (unat depth)]
      ((replicate (Suc (unat depth)) (array_of (replicate 32 0)))[0 := idx_zero c]) = Inr (map ?z [0..<Suc (unat depth)])"
    by (rule fill_zeros_ok) auto
  then show ?thesis
    by (simp add: tree_new_def d idx_hash_eq mtree_rep_def zeros_ok_def layer_def del: upt_Suc)
qed


text \<open>The greatest depth overflows the number of levels.\<close>

lemma tree_new_max: "tree_new c (- 1) = Inl Panic"
  by (simp add: tree_new_def vec_set_def)

lemma tree_insert_rep:
  assumes "mtree_rep c depth t xs"
  shows "\<exists>t'. tree_insert c x t = Inr (word_of_nat (length xs), t') \<and> mtree_rep c depth t' (xs @ [x])"
proof -
  let ?u = "t\<lparr>mt_leaves := xs @ [x], mt_layers := (mt_layers t)[0 := xs @ [x]]\<rparr>"
  have t: "mt_depth t = depth" "mt_leaves t = xs" "zeros_ok c t" "length (mt_layers t) = Suc (unat depth)"
    using assms by (simp_all add: mtree_rep_def)
  have "layer c (xs @ [x]) 0 = xs @ [x]"
    unfolding layer_def by (rule nth_equalityI) (auto simp: nth_append)
  then have "rebuild c ?u = Inr (?u\<lparr>mt_layers := map (layer c (xs @ [x])) [0..<Suc (unat (mt_depth ?u))]\<rparr>)"
    unfolding rebuild_def using t by (intro rebuild_levels_ok) (simp_all add: zeros_ok_def del: upt_Suc)
  with t show ?thesis
    by (auto simp: tree_insert_def Let_def mtree_rep_def zeros_ok_def simp del: upt_Suc)
qed

lemma layer_top:
  "xs \<noteq> [] \<Longrightarrow> layer c xs l \<noteq> [] \<and> layer c xs l ! 0 = idx_node c xs l 0"
  "xs = [] \<Longrightarrow> layer c xs l = []"
proof -
  have "0 < layer_count (length xs) l \<longleftrightarrow> xs \<noteq> []" by (simp add: layer_count_occupied occupied_def)
  then show "xs \<noteq> [] \<Longrightarrow> layer c xs l \<noteq> [] \<and> layer c xs l ! 0 = idx_node c xs l 0"
    and "xs = [] \<Longrightarrow> layer c xs l = []"
    by (simp_all add: layer_def)
qed

lemma mtree_at:
  assumes "mtree_rep c depth t xs" and "l \<le> unat depth"
  shows "vec_index (mt_layers t) l = (Inr (layer c xs l) :: bytes32 list run)"
    "vec_index (mt_zero_values t) l = (Inr (empty_node (hash_pair_bytes c) (idx_zero c) l) :: bytes32 run)"
  using assms by (simp_all add: mtree_rep_def zeros_ok_def vec_index_def del: upt_Suc)

lemma mt_root_rep:
  assumes "mtree_rep c depth t xs"
  shows "mt_root t = Inr (idx_node c xs (unat depth) 0)"
proof -
  have d: "mt_depth t = depth" using assms by (simp add: mtree_rep_def)
  show ?thesis
  proof (cases "xs = []")
    case True
    have "layer c [] (unat depth) = []" by (rule layer_top(2)) simp
    with True show ?thesis
      using mtree_at [OF assms, of "unat depth"] by (simp add: mt_root_def d)
  next
    case False
    with layer_top(1) [OF False, of c "unat depth"] show ?thesis
      using mtree_at [OF assms, of "unat depth"] by (simp add: mt_root_def d vec_index_def)
  qed
qed

lemma proof_levels_rep:
  assumes rep: "mtree_rep c depth t xs" and "set levels \<subseteq> {..unat depth}" and "levels = [l..<m]"
    and "unat index = i div 2 ^ l"
  shows "\<exists>es ds. proof_levels t levels index pe pi = Inr (pe @ es, pi @ ds) \<and> length es = length levels \<and>
    length ds = length levels \<and>
    zip es (map unat ds) =
      map (\<lambda>l. (idx_node c xs l (sibling (i div 2 ^ l)), i div 2 ^ l mod 2)) levels"
  using assms(2-)
proof (induction levels arbitrary: l index pe pi)
  case Nil
  then show ?case by simp
next
  case (Cons level levels)
  from Cons.prems(2) have "[l..<m] = level # levels" by simp
  then have l: "level = l" "levels = [Suc l..<m]" by (auto simp: upt_eq_Cons_conv)
  have level: "level \<le> unat depth" using Cons.prems(1) by simp
  have half: "unat (index div 2) = i div 2 ^ Suc l"
    using Cons.prems(3) by (simp add: unat_div2 div_two_power_Suc)
  define sib where "sib = (if index mod 2 = 0 then index + 1 else index - 1)"
  have sib: "unat sib = sibling (unat index)"
    and run: "(if index mod 2 = 0 then checked_add index 1 else checked_sub index 1) = (Inr sib :: u32 run)"
  proof -
    have "unat sib = sibling (unat index) \<and>
        (if index mod 2 = 0 then checked_add index 1 else checked_sub index 1) = (Inr sib :: u32 run)"
    proof (cases "even (unat index)")
      case True
      note lt = u32_even_succ [OF True]
      from True show ?thesis
        by (simp add: sib_def sibling_def u32_mod2 unat_add_one [OF lt] checked_add_one [OF lt])
    next
      case False
      then have "index \<noteq> 0" by auto
      with False show ?thesis
        by (simp add: sib_def sibling_def u32_mod2 unat_pred checked_sub_one)
    qed
    then show "unat sib = sibling (unat index)"
      "(if index mod 2 = 0 then checked_add index 1 else checked_sub index 1) = (Inr sib :: u32 run)" by simp_all
  qed
  let ?e = "idx_node c xs level (sibling (unat index))"
  have sub: "set levels \<subseteq> {..unat depth}" using Cons.prems(1) by simp
  obtain es ds where IH: "proof_levels t levels (index div 2) (pe @ [?e]) (pi @ [index mod 2]) =
        Inr ((pe @ [?e]) @ es, (pi @ [index mod 2]) @ ds)"
    and len: "length es = length levels" "length ds = length levels"
    and zip: "zip es (map unat ds) = map (\<lambda>l. (idx_node c xs l (sibling (i div 2 ^ l)), i div 2 ^ l mod 2)) levels"
    using Cons.IH [OF sub l(2) half, of "pe @ [?e]" "pi @ [index mod 2]"] by blast
  have step: "proof_levels t (level # levels) index pe pi = Inr (pe @ ?e # es, pi @ (index mod 2) # ds)"
    using IH by (simp add: run mtree_at [OF rep level] sib layer_get)
  have m2: "unat (index mod 2) = unat index mod 2" by (simp add: unat_mod)
  show ?case
    using step len zip Cons.prems(3) l(1) m2 by (intro exI [of _ "?e # es"] exI [of _ "(index mod 2) # ds"]) simp
qed

text \<open>The served proof: the path of the leaf, with the directions of its bits.\<close>

lemma tree_proof_rep:
  assumes rep: "mtree_rep c depth t xs" and small: "length xs < 2 ^ 32" and i: "unat index < length xs"
  shows "\<exists>es ds. tree_proof index t = Inr (Some \<lparr>mp_root = idx_node c xs (unat depth) 0, mp_path_elements = es,
      mp_path_indices = ds, mp_leaf_index = index\<rparr>) \<and> length es = unat depth \<and> length ds = unat depth \<and>
    zip es (map unat ds) = auth_path (hash_pair_bytes c) (idx_zero c) xs (unat depth) (unat index)"
proof -
  have t: "mt_depth t = depth" "mt_leaves t = xs" using rep by (simp_all add: mtree_rep_def)
  have "\<not> word_of_nat (length xs) \<le> index"
    using i unat_of_nat_u32 [OF small] by (simp add: word_le_nat_alt not_le)
  moreover obtain es ds where "proof_levels t [0..<unat depth] index [] [] = Inr ([] @ es, [] @ ds)"
    and "length es = length [0..<unat depth]" "length ds = length [0..<unat depth]"
    and "zip es (map unat ds) = map (\<lambda>l. (idx_node c xs l (sibling (unat index div 2 ^ l)), unat index div 2 ^ l mod 2)) [0..<unat depth]"
    using proof_levels_rep [OF rep _ refl, of 0 "unat depth" index "unat index" "[]" "[]"] by fastforce
  ultimately show ?thesis
    by (intro exI [of _ es] exI [of _ ds]) (simp add: tree_proof_def t mt_root_rep [OF rep] auth_path_def)
qed

lemma tree_proof_none:
  assumes rep: "mtree_rep c depth t xs" and small: "length xs < 2 ^ 32" and i: "length xs \<le> unat index"
  shows "tree_proof index t = Inr None"
  using assms by (simp add: tree_proof_def mtree_rep_def word_le_nat_alt unat_of_nat)

definition tree_insert_only :: "('fr, 'z) field_crypto_scheme \<Rightarrow> bytes32 \<Rightarrow> MerkleTree \<Rightarrow> MerkleTree run" where
  "tree_insert_only c x t = and_then (tree_insert c x t) (\<lambda>(_, t'). Inr t')"

text \<open>The in-memory tree provides the interface of an append-only Merkle tree.\<close>

interpretation index_tree: merkle_accumulator
  "hash_pair_bytes c" "idx_zero c" "unat depth" "2 ^ 32" "mtree_rep c depth" "tree_insert_only c" mt_root
  for c :: "('fr, 'z) field_crypto_scheme" and depth :: u32
proof
  fix t xs x
  show "mtree_rep c depth t xs \<Longrightarrow> mt_root t = Inr (idx_node c xs (unat depth) 0)"
    by (rule mt_root_rep)
  assume "mtree_rep c depth t xs"
  from tree_insert_rep [OF this, of x]
  show "\<exists>t'. tree_insert_only c x t = Inr t' \<and> mtree_rep c depth t' (xs @ [x])"
    by (auto simp: tree_insert_only_def)
qed

end
