(* ===== verification/Decimal.thy ===== *)
theory Decimal
  imports Prelude
begin

text \<open>
  Decimal text of the standard library: \<open>to_string\<close> of an unsigned integer and \<open>str::parse\<close>
  of \<open>u16\<close>, \<open>u32\<close>, \<open>u64\<close>, \<open>usize\<close> (64 bits) and \<open>i128\<close>, which accept a leading \<open>+\<close> (and \<open>-\<close>
  for \<open>i128\<close>) and refuse overflow.
\<close>

definition digit_char :: "nat \<Rightarrow> char" where
  "digit_char d = char_of (48 + d)"

fun to_decimal :: "nat \<Rightarrow> string" where
  "to_decimal n = (if n < 10 then [digit_char n] else to_decimal (n div 10) @ [digit_char (n mod 10)])"

declare to_decimal.simps [simp del]

definition u32_to_string :: "u32 \<Rightarrow> string" where
  "u32_to_string n = to_decimal (unat n)"

fun parse_digits :: "nat \<Rightarrow> nat \<Rightarrow> string \<Rightarrow> nat option" where
  "parse_digits w acc [] = Some acc"
| "parse_digits w acc (ch # cs) =
     (let d = of_char ch in
      if 48 \<le> d \<and> d \<le> 57 \<and> acc * 10 + (d - 48) < 2 ^ w then parse_digits w (acc * 10 + (d - 48)) cs else None)"

definition parse_uint :: "nat \<Rightarrow> string \<Rightarrow> nat option" where
  "parse_uint w s =
     (case s of
        [] \<Rightarrow> None
      | ch # cs \<Rightarrow>
          if ch = CHR ''+'' then (if cs = [] then None else parse_digits w 0 cs) else parse_digits w 0 s)"

definition parse_u32 :: "string \<Rightarrow> u32 option" where
  "parse_u32 s = map_option word_of_nat (parse_uint 32 s)"

definition parse_u64 :: "string \<Rightarrow> u64 option" where
  "parse_u64 s = map_option word_of_nat (parse_uint 64 s)"

definition parse_u16 :: "string \<Rightarrow> 16 word option" where
  "parse_u16 s = map_option word_of_nat (parse_uint 16 s)"

definition parse_usize :: "string \<Rightarrow> nat option" where
  "parse_usize s = parse_uint 64 s"

text \<open>After a minus sign the digits are subtracted, so that the least value parses.\<close>

fun parse_neg_digits :: "nat \<Rightarrow> int \<Rightarrow> string \<Rightarrow> int option" where
  "parse_neg_digits w acc [] = Some acc"
| "parse_neg_digits w acc (ch # cs) =
     (let d = of_char ch in
      if 48 \<le> d \<and> d \<le> 57 \<and> - (2 ^ (w - 1)) \<le> acc * 10 - (d - 48)
      then parse_neg_digits w (acc * 10 - (d - 48)) cs else None)"

definition parse_i128 :: "string \<Rightarrow> i128 option" where
  "parse_i128 s =
     (case s of
        [] \<Rightarrow> None
      | ch # cs \<Rightarrow>
          if ch = CHR ''-'' then (if cs = [] then None else map_option word_of_int (parse_neg_digits 128 0 cs))
          else map_option word_of_nat (parse_uint 127 s))"

lemma of_digit_char: "d < 10 \<Longrightarrow> of_char (digit_char d) = (48 + d :: nat)"
  by (simp add: digit_char_def)

lemma parse_digits_append:
  "parse_digits w acc (xs @ ys) = Option.bind (parse_digits w acc xs) (\<lambda>a. parse_digits w a ys)"
  by (induction w acc xs rule: parse_digits.induct) (auto simp: Let_def)

lemma parse_to_decimal: "n < 2 ^ w \<Longrightarrow> parse_digits w 0 (to_decimal n) = Some n"
proof (induction n rule: to_decimal.induct)
  case (1 n)
  show ?case
  proof (cases "n < 10")
    case True
    then show ?thesis using 1(2) by (simp add: to_decimal.simps [of n] of_digit_char Let_def)
  next
    case False
    then have "n div 10 < 2 ^ w" using 1(2) by linarith
    with False have "parse_digits w 0 (to_decimal (n div 10)) = Some (n div 10)" using 1(1) by simp
    with False 1(2) show ?thesis
      by (simp add: to_decimal.simps [of n] parse_digits_append of_digit_char Let_def)
  qed
qed

lemma to_decimal_head: "\<exists>ch cs. to_decimal n = ch # cs \<and> ch \<noteq> CHR ''+'' \<and> ch \<noteq> CHR ''-''"
proof (induction n rule: to_decimal.induct)
  case (1 n)
  show ?case
  proof (cases "n < 10")
    case True
    have "of_char (digit_char n) \<noteq> (of_char (CHR ''+'') :: nat)" "of_char (digit_char n) \<noteq> (of_char (CHR ''-'') :: nat)"
      unfolding of_digit_char [OF True] by simp_all
    then have "digit_char n \<noteq> CHR ''+''" "digit_char n \<noteq> CHR ''-''" by metis+
    with True show ?thesis by (simp add: to_decimal.simps [of n])
  next
    case False
    with 1 show ?thesis by (auto simp: to_decimal.simps [of n])
  qed
qed

lemma parse_uint_to_decimal: "n < 2 ^ w \<Longrightarrow> parse_uint w (to_decimal n) = Some n"
  using to_decimal_head [of n] parse_to_decimal [of n w] by (auto simp: parse_uint_def)

lemma parse_u32_to_string: "parse_u32 (u32_to_string n) = Some n"
  by (simp add: parse_u32_def u32_to_string_def parse_uint_to_decimal)

lemma parse_u64_to_decimal: "parse_u64 (to_decimal (unat n)) = Some n"
proof -
  have "unat n < 2 ^ 64" using unsigned_less [of n, where ?'a = nat] by simp
  then show ?thesis by (simp add: parse_u64_def parse_uint_to_decimal)
qed

lemma parse_u16_to_decimal: "parse_u16 (to_decimal (unat n)) = Some n"
proof -
  have "unat n < 2 ^ 16" using unsigned_less [of n, where ?'a = nat] by simp
  then show ?thesis by (simp add: parse_u16_def parse_uint_to_decimal)
qed

lemma parse_u32_to_decimal: "parse_u32 (to_decimal (unat n)) = Some n"
  using parse_u32_to_string [of n] by (simp add: u32_to_string_def)

lemma parse_usize_to_decimal: "n < 2 ^ 64 \<Longrightarrow> parse_usize (to_decimal n) = Some n"
  by (simp add: parse_usize_def parse_uint_to_decimal)

lemma parse_i128_to_decimal: "n < 2 ^ 127 \<Longrightarrow> parse_i128 (to_decimal n) = Some (word_of_nat n)"
  using to_decimal_head [of n] parse_uint_to_decimal [of n 127] by (auto simp: parse_i128_def)

lemmas parse_to_decimal_laws =
  parse_u16_to_decimal parse_u32_to_decimal parse_u64_to_decimal parse_usize_to_decimal parse_i128_to_decimal

end
