(* ===== verification/IndexerDb.thy ===== *)
theory IndexerDb
  imports Bytes Decimal "HOL-Library.Multiset"
begin

text \<open>
  \<open>indexer/src/db.rs\<close> with the feature \<open>postgres\<close>: the three tables and the statements run on
  them, and what a restart reads back. PostgreSQL is modelled by the meaning of the SQL in the
  source: a primary key and a unique column with \<open>ON CONFLICT DO NOTHING\<close>, \<open>ORDER BY\<close> on a
  signed 32-bit column, an appended table, and a key/value upsert.
\<close>

subsection \<open>The tables\<close>

record Database =
  commitments :: "(32 word \<times> u8 list) list" \<comment> \<open>(leaf_index as i32, commitment)\<close>
  merkle_roots :: "(u8 list \<times> 32 word) list" \<comment> \<open>oldest first, numbered by the serial id\<close>
  indexer_state :: "string \<rightharpoonup> string"

definition empty_database :: Database where
  "empty_database = \<lparr>commitments = [], merkle_roots = [], indexer_state = Map.empty\<rparr>"

definition db_insert_commitment :: "u32 \<Rightarrow> bytes32 \<Rightarrow> Database \<Rightarrow> Database" where
  "db_insert_commitment leaf_index commitment db =
     (if leaf_index \<in> fst ` set (commitments db) \<or> array_list commitment \<in> snd ` set (commitments db) then db
      else db\<lparr>commitments := commitments db @ [(leaf_index, array_list commitment)]\<rparr>)"

definition db_insert_root :: "bytes32 \<Rightarrow> u32 \<Rightarrow> Database \<Rightarrow> Database" where
  "db_insert_root root deposit_index db =
     db\<lparr>merkle_roots := merkle_roots db @ [(array_list root, deposit_index)]\<rparr>"

definition db_get_all_commitments :: "Database \<Rightarrow> (u32 \<times> bytes32) list" where
  "db_get_all_commitments db =
     (let rows = sort_key (\<lambda>(idx, _). sint idx) (commitments db)
      in List.map_filter (\<lambda>(idx, bytes). if length bytes = 32 then Some (idx, array_of bytes) else None) rows)"

definition db_get_last_ledger :: "Database \<Rightarrow> u32" where
  "db_get_last_ledger db =
     (case Option.bind (indexer_state db ''last_ledger'') parse_u32 of Some v \<Rightarrow> v | None \<Rightarrow> 0)"

definition db_set_last_ledger :: "u32 \<Rightarrow> Database \<Rightarrow> Database" where
  "db_set_last_ledger ledger db =
     db\<lparr>indexer_state := (indexer_state db)(''last_ledger'' \<mapsto> u32_to_string ledger)\<rparr>"

definition db_commitment_count :: "Database \<Rightarrow> u32" where
  "db_commitment_count db = word_of_nat (length (commitments db))"

definition db_find_commitment :: "bytes32 \<Rightarrow> Database \<Rightarrow> u32 option" where
  "db_find_commitment commitment db =
     map_option fst (find (\<lambda>(_, bytes). bytes = array_list commitment) (commitments db))"

text \<open>A negative \<open>LIMIT\<close> is an SQL error.\<close>

definition db_get_roots :: "u32 \<Rightarrow> Database \<Rightarrow> (u8 list \<times> u32) list option" where
  "db_get_roots limit db =
     (if sint limit < 0 then None else Some (take (nat (sint limit)) (rev (merkle_roots db))))"

lemma last_ledger_roundtrip: "db_get_last_ledger (db_set_last_ledger l db) = l"
  by (simp add: db_get_last_ledger_def db_set_last_ledger_def parse_u32_to_string)

subsection \<open>Statements in any order\<close>

datatype DbStmt = InsertCommitment u32 bytes32 | InsertRoot bytes32 u32 | SetLastLedger u32

fun db_exec :: "DbStmt \<Rightarrow> Database \<Rightarrow> Database" where
  "db_exec (InsertCommitment i c) db = db_insert_commitment i c db"
| "db_exec (InsertRoot r i) db = db_insert_root r i db"
| "db_exec (SetLastLedger l) db = db_set_last_ledger l db"

text \<open>The rows the inserted commitments make, when no two of them share an index or a value.\<close>

definition rows_of :: "DbStmt list \<Rightarrow> (u32 \<times> bytes32) list" where
  "rows_of = List.map_filter (\<lambda>s. case s of InsertCommitment i c \<Rightarrow> Some (i, c) | _ \<Rightarrow> None)"

lemma rows_of_simps [simp]:
  "rows_of [] = []" "rows_of (InsertCommitment i c # ss) = (i, c) # rows_of ss"
  "rows_of (InsertRoot r i # ss) = rows_of ss" "rows_of (SetLastLedger l # ss) = rows_of ss"
  by (simp_all add: rows_of_def List.map_filter_simps)

lemma exec_commitments:
  assumes "distinct (map fst (commitments db) @ map fst (rows_of ss))"
    and "distinct (map snd (commitments db) @ map (array_list \<circ> snd) (rows_of ss))"
  shows "commitments (fold db_exec ss db) = commitments db @ map (\<lambda>(i, c). (i, array_list c)) (rows_of ss)"
  using assms
proof (induction ss arbitrary: db)
  case Nil
  then show ?case by simp
next
  case (Cons s ss)
  show ?case
  proof (cases s)
    case (InsertCommitment i c)
    then have "db_exec s db = db\<lparr>commitments := commitments db @ [(i, array_list c)]\<rparr>"
      using Cons.prems by (auto simp: db_insert_commitment_def)
    with InsertCommitment Cons show ?thesis by simp
  next
    case (InsertRoot r i)
    with Cons show ?thesis by (simp add: db_insert_root_def)
  next
    case (SetLastLedger l)
    with Cons show ?thesis by (simp add: db_set_last_ledger_def)
  qed
qed

lemma get_all_sorted:
  assumes "mset (commitments db) = mset (map (\<lambda>(i, c). (i, array_list c)) rows)"
    and "sorted (map (\<lambda>(i, _). sint i) rows)" and "distinct (map fst rows)"
  shows "db_get_all_commitments db = rows"
proof -
  let ?f = "\<lambda>(i, c :: bytes32). (i :: u32, array_list c)" and ?k = "\<lambda>(i :: u32, _ :: u8 list). sint i"
  have set: "set (commitments db) = ?f ` set rows" using mset_eq_setD [OF assms(1)] by (simp only: set_map)
  have "inj_on ?k (set (commitments db))"
  proof (rule inj_onI)
    fix x y assume x: "x \<in> set (commitments db)" and y: "y \<in> set (commitments db)" and eq: "?k x = ?k y"
    obtain i c j d where "x = (i, array_list c)" "(i, c) \<in> set rows" "y = (j, array_list d)" "(j, d) \<in> set rows"
      using x y unfolding set by auto
    moreover from this eq have "i = j" by (simp add: signed_word_eqI)
    ultimately show "x = y" using assms(3) by (metis eq_key_imp_eq_value)
  qed
  moreover have "sorted (map ?k (map ?f rows))"
    using assms(2) by (simp add: comp_def case_prod_beta')
  ultimately have "sort_key ?k (commitments db) = map ?f rows"
    using assms(1) by (intro sort_key_inj_key_eq) simp_all
  moreover have "List.map_filter (\<lambda>(idx, bytes). if length bytes = 32 then Some (idx, array_of bytes) else None) (map ?f rows) = rows"
    by (induction rows) (auto simp: List.map_filter_simps)
  ultimately show ?thesis by (simp add: db_get_all_commitments_def)
qed

end
