(* ===== verification/IndexerState.thy ===== *)
theory IndexerState
  imports IndexerMerkle IndexerDb
begin

text \<open>
  \<open>indexer/src/state.rs\<close> and the restore step of \<open>indexer/src/main.rs\<close>: the shared state of the
  indexer, its insertion of a commitment, and its start from the database. A task the code
  spawns to write to the database is recorded as its list of statements; when it runs is not
  up to the state.
\<close>

subsection \<open>The codecs\<close>

text \<open>The crates \<open>hex\<close> and \<open>base64\<close>.\<close>

record codec =
  hex_encode :: "u8 list \<Rightarrow> string"
  hex_decode :: "string \<Rightarrow> u8 list option"
  base64_decode :: "string \<Rightarrow> u8 list option"

text \<open>What the code relies on: decoding inverts encoding, and an encoding is made of
  hexadecimal digits.\<close>

definition hex_laws :: "codec \<Rightarrow> bool" where
  "hex_laws k \<longleftrightarrow> (\<forall>bs. hex_decode k (hex_encode k bs) = Some bs) \<and>
     (\<forall>bs. set (hex_encode k bs) \<subseteq> set ''0123456789abcdef'')"

subsection \<open>The state\<close>

record PoolInfo =
  pi_contract_id :: string
  pi_denomination :: i128
  pi_deposit_count :: u32
  pi_latest_root :: string

record RootEntry =
  re_root :: string
  re_deposit_index :: u32

record AppState =
  st_tree :: MerkleTree
  st_roots :: "RootEntry list"
  st_contract_id :: string
  st_denomination :: i128
  st_last_ledger :: u32
  st_database :: bool \<comment> \<open>a database handle is present\<close>
  st_spawned :: "DbStmt list list" \<comment> \<open>the tasks spawned so far\<close>

definition app_state_new :: "('fr, 'z) field_crypto_scheme \<Rightarrow> codec \<Rightarrow> string \<Rightarrow> i128 \<Rightarrow> u32 \<Rightarrow> AppState run" where
  "app_state_new c k contract_id denomination tree_depth =
     and_then (tree_new c tree_depth) (\<lambda>tree.
     and_then (mt_root tree) (\<lambda>root.
     let initial_root = hex_encode k (array_list root) in
     Inr \<lparr>st_tree = tree, st_roots = [\<lparr>re_root = initial_root, re_deposit_index = 0\<rparr>],
          st_contract_id = contract_id, st_denomination = denomination, st_last_ledger = 0,
          st_database = False, st_spawned = []\<rparr>))"

text \<open>\<open>Arc::new(RwLock::new(AppState::new(..)))\<close>: the lock is the order of the steps.\<close>

definition new_shared_state :: "('fr, 'z) field_crypto_scheme \<Rightarrow> codec \<Rightarrow> string \<Rightarrow> i128 \<Rightarrow> u32 \<Rightarrow> AppState run" where
  [simp]: "new_shared_state c k contract_id denomination tree_depth = app_state_new c k contract_id denomination tree_depth"

definition state_insert_commitment :: "('fr, 'z) field_crypto_scheme \<Rightarrow> codec \<Rightarrow> bytes32 \<Rightarrow> AppState \<Rightarrow> (u32 \<times> AppState) run" where
  "state_insert_commitment c k commitment s =
     and_then (tree_insert c commitment (st_tree s)) (\<lambda>(index, tree).
     and_then (mt_root tree) (\<lambda>root_bytes.
     let root_hex = hex_encode k (array_list root_bytes);
         deposit_index = index + 1;
         s = s\<lparr>st_tree := tree,
               st_roots := st_roots s @ [\<lparr>re_root = root_hex, re_deposit_index = deposit_index\<rparr>]\<rparr>;
         s = (if st_database s
              then s\<lparr>st_spawned := st_spawned s @ [[InsertCommitment index commitment, InsertRoot root_bytes deposit_index]]\<rparr>
              else s)
     in Inr (index, s)))"

definition update_last_ledger :: "u32 \<Rightarrow> AppState \<Rightarrow> AppState" where
  "update_last_ledger ledger s =
     (let s = s\<lparr>st_last_ledger := ledger\<rparr>
      in if st_database s then s\<lparr>st_spawned := st_spawned s @ [[SetLastLedger ledger]]\<rparr> else s)"

definition pool_info :: "codec \<Rightarrow> AppState \<Rightarrow> PoolInfo run" where
  "pool_info k s =
     and_then (mt_root (st_tree s)) (\<lambda>root.
     Inr \<lparr>pi_contract_id = st_contract_id s, pi_denomination = st_denomination s,
          pi_deposit_count = leaf_count (st_tree s), pi_latest_root = hex_encode k (array_list root)\<rparr>)"

subsection \<open>Restoring from the database (main.rs)\<close>

text \<open>\<open>for (_, commitment) in &commitments { state.tree.insert(*commitment); }\<close>\<close>

fun restore_tree :: "('fr, 'z) field_crypto_scheme \<Rightarrow> (u32 \<times> bytes32) list \<Rightarrow> MerkleTree \<Rightarrow> MerkleTree run" where
  "restore_tree c [] t = Inr t"
| "restore_tree c ((_, commitment) # rows) t = and_then (tree_insert c commitment t) (\<lambda>(_, t). restore_tree c rows t)"

text \<open>The two reads may fail (\<open>None\<close>); the code then goes on without what they would return.\<close>

definition restore_state :: "('fr, 'z) field_crypto_scheme \<Rightarrow> (u32 \<times> bytes32) list option \<Rightarrow> u32 option \<Rightarrow>
    AppState \<Rightarrow> AppState run" where
  "restore_state c all_commitments last_ledger s =
     and_then (case all_commitments of
                 Some rows \<Rightarrow> and_then (restore_tree c rows (st_tree s)) (\<lambda>t. Inr (s\<lparr>st_tree := t\<rparr>))
               | None \<Rightarrow> Inr s) (\<lambda>s.
     let s = (case last_ledger of Some ledger \<Rightarrow> if ledger > 0 then s\<lparr>st_last_ledger := ledger\<rparr> else s | None \<Rightarrow> s)
     in Inr (s\<lparr>st_database := True\<rparr>))"

definition restart :: "('fr, 'z) field_crypto_scheme \<Rightarrow> codec \<Rightarrow> string \<Rightarrow> i128 \<Rightarrow> u32 \<Rightarrow> Database \<Rightarrow> AppState run" where
  "restart c k contract_id denomination tree_depth db =
     and_then (app_state_new c k contract_id denomination tree_depth)
       (restore_state c (Some (db_get_all_commitments db)) (Some (db_get_last_ledger db)))"

subsection \<open>What the state represents\<close>

definition root_entries :: "('fr, 'z) field_crypto_scheme \<Rightarrow> codec \<Rightarrow> u32 \<Rightarrow> bytes32 list \<Rightarrow> RootEntry list" where
  "root_entries c k depth xs =
     map (\<lambda>n. \<lparr>re_root = hex_encode k (array_list (idx_node c (take n xs) (unat depth) 0)),
               re_deposit_index = word_of_nat n\<rparr>) [0..<Suc (length xs)]"

text \<open>The state of an indexer that restored no leaf: it has listed the root after each insertion. A restart
  brings back the leaves but not their roots, so of a restored state only \<open>mtree_rep\<close> holds.\<close>

definition state_rep :: "('fr, 'z) field_crypto_scheme \<Rightarrow> codec \<Rightarrow> u32 \<Rightarrow> AppState \<Rightarrow> bytes32 list \<Rightarrow> bool" where
  "state_rep c k depth s xs \<longleftrightarrow> mtree_rep c depth (st_tree s) xs \<and> st_roots s = root_entries c k depth xs"

definition insert_task :: "('fr, 'z) field_crypto_scheme \<Rightarrow> u32 \<Rightarrow> bytes32 list \<Rightarrow> bytes32 \<Rightarrow> DbStmt list" where
  "insert_task c depth xs x =
     [InsertCommitment (word_of_nat (length xs)) x,
      InsertRoot (idx_node c (xs @ [x]) (unat depth) 0) (word_of_nat (Suc (length xs)))]"

lemma root_entries_snoc:
  "root_entries c k depth (xs @ [x]) = root_entries c k depth xs @
     [\<lparr>re_root = hex_encode k (array_list (idx_node c (xs @ [x]) (unat depth) 0)),
       re_deposit_index = word_of_nat (Suc (length xs))\<rparr>]"
  by (simp add: root_entries_def)

lemma app_state_new_rep:
  assumes "depth \<noteq> - 1"
  shows "\<exists>s. app_state_new c k cid d depth = Inr s \<and> state_rep c k depth s [] \<and>
    st_last_ledger s = 0 \<and> \<not> st_database s \<and> st_spawned s = []"
  using tree_new_rep [OF assms, of c]
  by (auto simp: app_state_new_def mt_root_rep state_rep_def root_entries_def)

lemma state_insert_tree:
  assumes rep: "mtree_rep c depth (st_tree s) xs"
  shows "\<exists>s'. state_insert_commitment c k x s = Inr (word_of_nat (length xs), s') \<and>
    mtree_rep c depth (st_tree s') (xs @ [x]) \<and>
    st_roots s' = st_roots s @ [\<lparr>re_root = hex_encode k (array_list (idx_node c (xs @ [x]) (unat depth) 0)),
       re_deposit_index = word_of_nat (Suc (length xs))\<rparr>] \<and>
    st_last_ledger s' = st_last_ledger s \<and> st_database s' = st_database s \<and> st_contract_id s' = st_contract_id s \<and>
    st_spawned s' = st_spawned s @ (if st_database s then [insert_task c depth xs x] else [])"
proof -
  obtain t' where ins: "tree_insert c x (st_tree s) = Inr (word_of_nat (length xs), t')" and t': "mtree_rep c depth t' (xs @ [x])"
    using tree_insert_rep [OF rep] by blast
  have "(word_of_nat (length xs) :: u32) + 1 = word_of_nat (Suc (length xs))" by simp
  then show ?thesis
    by (simp add: state_insert_commitment_def ins mt_root_rep [OF t'] t' insert_task_def Let_def add.commute)
qed

lemma state_insert_rep:
  assumes "state_rep c k depth s xs"
  shows "\<exists>s'. state_insert_commitment c k x s = Inr (word_of_nat (length xs), s') \<and> state_rep c k depth s' (xs @ [x]) \<and>
    st_last_ledger s' = st_last_ledger s \<and> st_database s' = st_database s \<and> st_contract_id s' = st_contract_id s \<and>
    st_spawned s' = st_spawned s @ (if st_database s then [insert_task c depth xs x] else [])"
  using state_insert_tree [of c depth s xs k x] assms by (auto simp: state_rep_def root_entries_snoc)

lemma state_frame [simp]:
  "state_rep c k depth (s\<lparr>st_last_ledger := l\<rparr>) xs = state_rep c k depth s xs"
  "state_rep c k depth (s\<lparr>st_spawned := ts\<rparr>) xs = state_rep c k depth s xs"
  "state_rep c k depth (s\<lparr>st_database := b\<rparr>) xs = state_rep c k depth s xs"
  by (simp_all add: state_rep_def)

lemma update_last_ledger_rep:
  "state_rep c k depth (update_last_ledger l s) xs = state_rep c k depth s xs"
  "st_last_ledger (update_last_ledger l s) = l" "st_database (update_last_ledger l s) = st_database s"
  "st_contract_id (update_last_ledger l s) = st_contract_id s"
  by (simp_all add: update_last_ledger_def state_rep_def Let_def)

lemma pool_info_rep:
  assumes "mtree_rep c depth (st_tree s) xs"
  shows "pool_info k s = Inr \<lparr>pi_contract_id = st_contract_id s, pi_denomination = st_denomination s,
    pi_deposit_count = word_of_nat (length xs),
    pi_latest_root = hex_encode k (array_list (idx_node c xs (unat depth) 0))\<rparr>"
proof -
  have "mt_leaves (st_tree s) = xs" using assms by (simp add: mtree_rep_def)
  with assms show ?thesis by (simp add: pool_info_def mt_root_rep leaf_count_def)
qed

lemma restore_tree_rep:
  "mtree_rep c depth t xs \<Longrightarrow> \<exists>t'. restore_tree c rows t = Inr t' \<and> mtree_rep c depth t' (xs @ map snd rows)"
proof (induction rows arbitrary: t xs)
  case Nil
  then show ?case by simp
next
  case (Cons row rows)
  obtain i x where row: "row = (i, x)" by (cases row)
  obtain t1 where "tree_insert c x t = Inr (word_of_nat (length xs), t1)" "mtree_rep c depth t1 (xs @ [x])"
    using tree_insert_rep [OF Cons.prems] by blast
  with Cons.IH [of t1 "xs @ [x]"] show ?case by (simp add: row)
qed

text \<open>A restart rebuilds the tree of the rows the database returns, but not the root history.\<close>

lemma restart_rep:
  assumes "depth \<noteq> - 1"
  shows "\<exists>s. restart c k cid d depth db = Inr s \<and>
    mtree_rep c depth (st_tree s) (map snd (db_get_all_commitments db)) \<and>
    st_roots s = root_entries c k depth [] \<and> st_last_ledger s = db_get_last_ledger db \<and> st_database s \<and>
    st_spawned s = []"
proof -
  obtain s where new: "app_state_new c k cid d depth = Inr s" and rep: "state_rep c k depth s []" and "st_last_ledger s = 0"
    and "st_spawned s = []"
    using app_state_new_rep [OF assms] by blast
  have "mtree_rep c depth (st_tree s) []" and roots: "st_roots s = root_entries c k depth []"
    using rep by (simp_all add: state_rep_def)
  from restore_tree_rep [OF this(1), of "db_get_all_commitments db"]
  obtain t where "restore_tree c (db_get_all_commitments db) (st_tree s) = Inr t"
    "mtree_rep c depth t (map snd (db_get_all_commitments db))" by auto
  then show ?thesis
    using \<open>st_last_ledger s = 0\<close> \<open>st_spawned s = []\<close> roots
    by (auto simp: restart_def new restore_state_def Let_def word_gt_0)
qed

end
