(* ===== verification/IndexerListener.thy ===== *)
theory IndexerListener
  imports IndexerState
begin

text \<open>
  \<open>indexer/src/listener.rs\<close>: polling of the RPC for events and their decoding. The answers of
  the RPC are arguments; a JSON value is \<open>serde_json::Value\<close>.
\<close>

datatype json = JNull | JBool bool | JNumber int | JString string | JArray "json list" | JObject "(string \<times> json) list"

definition json_as_str :: "json \<Rightarrow> string option" where
  "json_as_str v = (case v of JString s \<Rightarrow> Some s | _ \<Rightarrow> None)"

text \<open>\<open>as_u64\<close>: an integer in the range of the type.\<close>

definition json_as_u64 :: "json \<Rightarrow> u64 option" where
  "json_as_u64 v = (case v of JNumber n \<Rightarrow> if 0 \<le> n \<and> n < 2 ^ 64 then Some (word_of_int n) else None | _ \<Rightarrow> None)"

text \<open>\<open>value.get(key)\<close>: a field of an object, nothing on other values.\<close>

definition json_get :: "string \<Rightarrow> json \<Rightarrow> json option" where
  "json_get key v = (case v of JObject members \<Rightarrow> map_of members key | _ \<Rightarrow> None)"

text \<open>\<open>value[key]\<close>, which is \<open>Null\<close> when there is no such field.\<close>

definition json_index :: "string \<Rightarrow> json \<Rightarrow> json" where
  "json_index key v = (case json_get key v of Some x \<Rightarrow> x | None \<Rightarrow> JNull)"

record EventEntry =
  ev_type :: string
  ev_ledger :: u32
  ev_topic :: "json list"
  ev_value :: json

record GetEventsResult =
  ger_events :: "EventEntry list"
  ger_latest_ledger :: u32

record RpcResponse =
  rr_result :: "GetEventsResult option"
  rr_error :: "json option"

text \<open>\<open>RpcRequest\<close> and the two requests the listener sends.\<close>

record RpcRequest =
  rpc_jsonrpc :: string
  rpc_id :: u64
  rpc_method :: string
  rpc_params :: json

definition latest_ledger_request :: RpcRequest where
  "latest_ledger_request =
     \<lparr>rpc_jsonrpc = ''2.0'', rpc_id = 1, rpc_method = ''getLatestLedger'', rpc_params = JObject []\<rparr>"

definition events_request :: "string \<Rightarrow> u32 \<Rightarrow> RpcRequest" where
  "events_request contract_id start =
     \<lparr>rpc_jsonrpc = ''2.0'', rpc_id = 1, rpc_method = ''getEvents'',
      rpc_params = JObject
        [(''startLedger'', JNumber (uint start)),
         (''filters'', JArray [JObject
           [(''type'', JString ''contract''),
            (''contractIds'', JArray [JString contract_id]),
            (''topics'', JArray [JArray [JString ''*'']])]]),
         (''pagination'', JObject [(''limit'', JNumber 1000)])]\<rparr>"

subsection \<open>Strings\<close>

fun starts_with :: "'a list \<Rightarrow> 'a list \<Rightarrow> bool" where
  "starts_with [] s = True"
| "starts_with (p # ps) [] = False"
| "starts_with (p # ps) (x # xs) = (p = x \<and> starts_with ps xs)"

text \<open>\<open>s.contains(pat)\<close>\<close>

fun str_contains :: "string \<Rightarrow> string \<Rightarrow> bool" where
  "str_contains pat [] = (pat = [])"
| "str_contains pat (x # xs) = (starts_with pat (x # xs) \<or> str_contains pat xs)"

text \<open>\<open>s.trim_start_matches("0x")\<close>, which removes the prefix as often as it occurs.\<close>

fun trim_0x :: "string \<Rightarrow> string" where
  "trim_0x (a # b # s) = (if a = CHR ''0'' \<and> b = CHR ''x'' then trim_0x s else a # b # s)"
| "trim_0x s = s"

subsection \<open>Decoding\<close>

definition is_deposit_event :: "EventEntry \<Rightarrow> bool" where
  "is_deposit_event event =
     list_ex (\<lambda>topic. case json_as_str topic of Some s \<Rightarrow> str_contains ''deposit'' s | None \<Rightarrow> False) (ev_topic event)"

text \<open>\<open>if let Ok(bytes) = hex::decode(s) { if bytes.len() == 32 { .. } }\<close>\<close>

definition hex_commitment :: "codec \<Rightarrow> string \<Rightarrow> bytes32 option" where
  "hex_commitment k s =
     (case hex_decode k s of Some bytes \<Rightarrow> if length bytes = 32 then Some (array_of bytes) else None | None \<Rightarrow> None)"

definition decode_commitment_from_xdr :: "codec \<Rightarrow> string \<Rightarrow> bytes32 option" where
  "decode_commitment_from_xdr k xdr_base64 =
     (case base64_decode k xdr_base64 of
        None \<Rightarrow> None
      | Some xdr_bytes \<Rightarrow>
          if length xdr_bytes \<ge> 40 then Some (array_of (take 32 (drop 8 xdr_bytes))) else None)"

definition extract_commitment :: "codec \<Rightarrow> EventEntry \<Rightarrow> bytes32 option" where
  "extract_commitment k event =
     (let value = ev_value event in
      case Option.bind (json_as_str value) (\<lambda>s. hex_commitment k (trim_0x s)) of
        Some arr \<Rightarrow> Some arr
      | None \<Rightarrow>
      (case Option.bind (Option.bind (json_get ''bytes'' value) json_as_str) (hex_commitment k) of
        Some arr \<Rightarrow> Some arr
      | None \<Rightarrow>
      (case Option.bind (json_get ''xdr'' value) json_as_str of
        Some xdr_str \<Rightarrow> decode_commitment_from_xdr k xdr_str
      | None \<Rightarrow> None)))"

subsection \<open>Polling\<close>

datatype PollError = RequestFailed

definition lift_run :: "'a run \<Rightarrow> ('e, 'a) result" where
  "lift_run r = (case r of Inr x \<Rightarrow> Inr x | Inl _ \<Rightarrow> Inl Panic)"

lemma lift_run_simps [simp]: "lift_run (Inr x) = Inr x" "lift_run (Inl f) = Inl Panic"
  by (simp_all add: lift_run_def)

text \<open>The first ledger asked for: past the last one seen, or 1000 before the newest.\<close>

definition poll_start :: "json option \<Rightarrow> AppState \<Rightarrow> (PollError, u32) result" where
  "poll_start latest_response s =
     (if st_last_ledger s = 0
      then (case latest_response of
              None \<Rightarrow> Inl (Err RequestFailed)
            | Some resp \<Rightarrow>
                let ledger = (case json_as_u64 (json_index ''sequence'' (json_index ''result'' resp)) of
                                Some n \<Rightarrow> ucast n | None \<Rightarrow> 1) :: u32
                in Inr (if ledger \<ge> 1000 then ledger - 1000 else 0))
      else Inr (st_last_ledger s + 1))"

text \<open>The loop over \<open>result.events\<close>.\<close>

fun process_events :: "('fr, 'z) field_crypto_scheme \<Rightarrow> codec \<Rightarrow> EventEntry list \<Rightarrow> nat \<Rightarrow> AppState \<Rightarrow> (nat \<times> AppState) run" where
  "process_events c k [] processed s = Inr (processed, s)"
| "process_events c k (event # events) processed s =
     (if is_deposit_event event
      then (case extract_commitment k event of
              Some commitment \<Rightarrow>
                and_then (state_insert_commitment c k commitment s) (\<lambda>(index, s). process_events c k events (processed + 1) s)
            | None \<Rightarrow> process_events c k events processed s)
      else process_events c k events processed s)"

text \<open>
  One poll: \<open>get_latest\<close> and \<open>get_events\<close> are the RPC's answers to \<open>getLatestLedger\<close> and to
  \<open>getEvents\<close> from a ledger on (with at most 1000 events), \<open>None\<close> when the request fails.
\<close>

definition poll_events :: "('fr, 'z) field_crypto_scheme \<Rightarrow> codec \<Rightarrow> json option \<Rightarrow> (u32 \<Rightarrow> RpcResponse option) \<Rightarrow>
    AppState \<Rightarrow> (PollError, nat \<times> AppState) result" where
  "poll_events c k get_latest get_events s =
     and_then (poll_start get_latest s) (\<lambda>start.
     case get_events start of
       None \<Rightarrow> Inl (Err RequestFailed)
     | Some resp \<Rightarrow>
         (case rr_error resp of
            Some err \<Rightarrow> Inr (0, s)
          | None \<Rightarrow>
              (case rr_result resp of
                 None \<Rightarrow> Inr (0, s)
               | Some result \<Rightarrow>
                   lift_run (process_events c k (ger_events result) 0 (update_last_ledger (ger_latest_ledger result) s)))))"

text \<open>One turn of the listener's loop, given the answers: an error is logged and the state kept.\<close>

definition listener_turn :: "('fr, 'z) field_crypto_scheme \<Rightarrow> codec \<Rightarrow> json option \<Rightarrow> (u32 \<Rightarrow> RpcResponse option) \<Rightarrow>
    AppState \<Rightarrow> AppState run" where
  "listener_turn c k get_latest get_events s =
     (case poll_events c k get_latest get_events s of
        Inr (processed, s') \<Rightarrow> Inr s'
      | Inl (Err e) \<Rightarrow> Inr s
      | Inl Panic \<Rightarrow> Inl Panic)"

text \<open>
  A turn against an RPC: \<open>post_json\<close> and \<open>post_events\<close> send a request and read the answer as a
  JSON value and as an \<open>RpcResponse\<close>, \<open>None\<close> when either fails.
\<close>

definition listener_turn_rpc :: "('fr, 'z) field_crypto_scheme \<Rightarrow> codec \<Rightarrow> (RpcRequest \<Rightarrow> json option) \<Rightarrow>
    (RpcRequest \<Rightarrow> RpcResponse option) \<Rightarrow> AppState \<Rightarrow> AppState run" where
  "listener_turn_rpc c k post_json post_events s =
     listener_turn c k (post_json latest_ledger_request) (\<lambda>start. post_events (events_request (st_contract_id s) start)) s"

text \<open>
  The task of the listener over a number of ticks, each with the RPC's answers to its poll.
  \<open>tokio::time::interval\<close> panics on a period of zero.
\<close>

fun listener_ticks :: "('fr, 'z) field_crypto_scheme \<Rightarrow> codec \<Rightarrow> (json option \<times> (u32 \<Rightarrow> RpcResponse option)) list \<Rightarrow>
    AppState \<Rightarrow> AppState run" where
  "listener_ticks c k [] s = Inr s"
| "listener_ticks c k ((get_latest, get_events) # answers) s =
     and_then (listener_turn c k get_latest get_events s) (listener_ticks c k answers)"

definition start_event_listener :: "('fr, 'z) field_crypto_scheme \<Rightarrow> codec \<Rightarrow> u64 \<Rightarrow>
    (json option \<times> (u32 \<Rightarrow> RpcResponse option)) list \<Rightarrow> AppState \<Rightarrow> AppState run" where
  "start_event_listener c k poll_interval_secs answers s =
     (if poll_interval_secs = 0 then Inl Panic else listener_ticks c k answers s)"

subsection \<open>What a poll does\<close>

text \<open>The commitments the listener takes from a page of events.\<close>

definition indexed :: "codec \<Rightarrow> EventEntry list \<Rightarrow> bytes32 list" where
  "indexed k evs = List.map_filter (\<lambda>ev. if is_deposit_event ev then extract_commitment k ev else None) evs"

fun insert_tasks :: "('fr, 'z) field_crypto_scheme \<Rightarrow> u32 \<Rightarrow> bytes32 list \<Rightarrow> bytes32 list \<Rightarrow> DbStmt list list" where
  "insert_tasks c depth xs [] = []"
| "insert_tasks c depth xs (y # ys) = insert_task c depth xs y # insert_tasks c depth (xs @ [y]) ys"

lemma indexed_simps [simp]:
  "indexed k [] = []"
  "indexed k (ev # evs) = (case (if is_deposit_event ev then extract_commitment k ev else None) of
     Some x \<Rightarrow> x # indexed k evs | None \<Rightarrow> indexed k evs)"
  by (auto simp: indexed_def List.map_filter_simps split: option.split)

lemma process_events_tree:
  assumes "mtree_rep c depth (st_tree s) xs"
  shows "\<exists>s'. process_events c k evs n s = Inr (n + length (indexed k evs), s') \<and>
    mtree_rep c depth (st_tree s') (xs @ indexed k evs) \<and> st_last_ledger s' = st_last_ledger s \<and>
    st_database s' = st_database s \<and>
    st_spawned s' = st_spawned s @ (if st_database s then insert_tasks c depth xs (indexed k evs) else []) \<and>
    (st_roots s = root_entries c k depth xs \<longrightarrow> st_roots s' = root_entries c k depth (xs @ indexed k evs))"
  using assms
proof (induction evs arbitrary: n s xs)
  case Nil
  then show ?case by simp
next
  case (Cons ev evs)
  show ?case
  proof (cases "if is_deposit_event ev then extract_commitment k ev else None")
    case None
    then show ?thesis using Cons.IH [OF Cons.prems, of n] by (auto split: if_splits)
  next
    case (Some x)
    then have dep: "is_deposit_event ev" "extract_commitment k ev = Some x" by (simp_all split: if_splits)
    obtain s1 where s1: "state_insert_commitment c k x s = Inr (word_of_nat (length xs), s1)"
      "mtree_rep c depth (st_tree s1) (xs @ [x])"
      "st_roots s = root_entries c k depth xs \<longrightarrow> st_roots s1 = root_entries c k depth (xs @ [x])"
      "st_last_ledger s1 = st_last_ledger s" "st_database s1 = st_database s"
      "st_spawned s1 = st_spawned s @ (if st_database s then [insert_task c depth xs x] else [])"
      using state_insert_tree [OF Cons.prems, of k x] by (auto simp: root_entries_snoc)
    from Cons.IH [OF s1(2), of "n + 1"] dep s1 show ?thesis by auto
  qed
qed

lemma process_events_rep:
  assumes "state_rep c k depth s xs"
  shows "\<exists>s'. process_events c k evs n s = Inr (n + length (indexed k evs), s') \<and>
    state_rep c k depth s' (xs @ indexed k evs) \<and> st_last_ledger s' = st_last_ledger s \<and>
    st_database s' = st_database s \<and>
    st_spawned s' = st_spawned s @ (if st_database s then insert_tasks c depth xs (indexed k evs) else [])"
  using process_events_tree [of c depth s xs k evs n] assms by (auto simp: state_rep_def)

lemma poll_events_rep:
  assumes rep: "state_rep c k depth s xs" and start: "poll_start lt s = Inr start"
    and page: "get_events start = Some \<lparr>rr_result = Some \<lparr>ger_events = evs, ger_latest_ledger = latest\<rparr>, rr_error = None\<rparr>"
  shows "\<exists>s'. poll_events c k lt get_events s = Inr (length (indexed k evs), s') \<and>
    state_rep c k depth s' (xs @ indexed k evs) \<and> st_last_ledger s' = latest"
  using process_events_rep [of c k depth "update_last_ledger latest s" xs evs 0] rep
  by (auto simp: poll_events_def start page update_last_ledger_rep)

text \<open>A turn of the listener with a database: it keeps the state, or it appends a page and
  spawns the cursor's task and one task per commitment.\<close>

lemma listener_turn_tree:
  assumes tree: "mtree_rep c depth (st_tree s) xs" and db: "st_database s"
    and turn: "listener_turn c k lt get_events s = Inr s'"
  shows "s' = s \<or> (\<exists>start page. poll_start lt s = Inr start \<and> Option.bind (get_events start) rr_result = Some page \<and>
    mtree_rep c depth (st_tree s') (xs @ indexed k (ger_events page)) \<and> st_database s' \<and>
    st_last_ledger s' = ger_latest_ledger page \<and>
    st_spawned s' = st_spawned s @ [SetLastLedger (ger_latest_ledger page)] #
      insert_tasks c depth xs (indexed k (ger_events page)))"
proof (cases "poll_events c k lt get_events s")
  case (Inl f)
  with turn show ?thesis by (cases f) (simp_all add: listener_turn_def)
next
  case (Inr r)
  then obtain n where poll: "poll_events c k lt get_events s = Inr (n, s')"
    using turn by (cases r) (simp add: listener_turn_def)
  then obtain start resp where start: "poll_start lt s = Inr start" and resp: "get_events start = Some resp"
    by (cases "poll_start lt s"; cases "get_events (projr (poll_start lt s))") (auto simp: poll_events_def)
  show ?thesis
  proof (cases "rr_error resp = None \<and> rr_result resp \<noteq> None")
    case False
    with poll start resp show ?thesis by (auto simp: poll_events_def split: option.splits)
  next
    case True
    then obtain page where page: "rr_error resp = None" "rr_result resp = Some page" by blast
    let ?s = "update_last_ledger (ger_latest_ledger page) s"
    have "mtree_rep c depth (st_tree ?s) xs" "st_database ?s" "st_last_ledger ?s = ger_latest_ledger page"
      "st_spawned ?s = st_spawned s @ [[SetLastLedger (ger_latest_ledger page)]]"
      using tree db by (simp_all add: update_last_ledger_def Let_def)
    with process_events_tree [of c depth ?s xs k "ger_events page" 0] poll start resp page
    show ?thesis by (auto simp: poll_events_def)
  qed
qed

lemma listener_turn_page:
  assumes tree: "mtree_rep c depth (st_tree s) xs"
    and start: "poll_start lt s = Inr start"
    and page: "get_events start = Some \<lparr>rr_result = Some page, rr_error = None\<rparr>"
  shows "\<exists>s'. listener_turn c k lt get_events s = Inr s' \<and>
    mtree_rep c depth (st_tree s') (xs @ indexed k (ger_events page)) \<and>
    st_last_ledger s' = ger_latest_ledger page \<and> st_database s' = st_database s \<and>
    st_spawned s' = st_spawned s @ (if st_database s then [SetLastLedger (ger_latest_ledger page)] #
      insert_tasks c depth xs (indexed k (ger_events page)) else [])"
proof -
  let ?s = "update_last_ledger (ger_latest_ledger page) s"
  have "mtree_rep c depth (st_tree ?s) xs" "st_database ?s = st_database s" "st_last_ledger ?s = ger_latest_ledger page"
    "st_spawned ?s = st_spawned s @ (if st_database s then [[SetLastLedger (ger_latest_ledger page)]] else [])"
    using tree by (simp_all add: update_last_ledger_def Let_def)
  with process_events_tree [of c depth ?s xs k "ger_events page" 0] start page
  show ?thesis by (auto simp: poll_events_def listener_turn_def)
qed

text \<open>Without a page of events a turn changes nothing.\<close>

lemma listener_turn_idle:
  assumes "\<And>start page. poll_start lt s = Inr start \<Longrightarrow> get_events start \<noteq> Some \<lparr>rr_result = Some page, rr_error = None\<rparr>"
  shows "listener_turn c k lt get_events s = Inr s"
proof (cases "poll_start lt s")
  case (Inl f)
  then have "f = Err RequestFailed" by (auto simp: poll_start_def Let_def split: if_splits option.splits)
  with Inl show ?thesis by (simp add: listener_turn_def poll_events_def)
next
  case (Inr start)
  show ?thesis
  proof (cases "get_events start")
    case None
    with Inr show ?thesis by (simp add: listener_turn_def poll_events_def)
  next
    case (Some resp)
    with assms [OF Inr] Inr show ?thesis
      by (cases resp; cases "rr_error resp"; cases "rr_result resp") (auto simp: listener_turn_def poll_events_def)
  qed
qed

text \<open>The listener never panics on a well-formed tree, whatever the RPC answers, and only
  appends leaves.\<close>

lemma listener_turn_total:
  assumes tree: "mtree_rep c depth (st_tree s) xs"
  shows "\<exists>s' ys. listener_turn c k lt get_events s = Inr s' \<and> mtree_rep c depth (st_tree s') (xs @ ys)"
proof (cases "\<exists>start page. poll_start lt s = Inr start \<and> get_events start = Some \<lparr>rr_result = Some page, rr_error = None\<rparr>")
  case True
  then show ?thesis using listener_turn_page [OF tree] by blast
next
  case False
  then have "listener_turn c k lt get_events s = Inr s" by (intro listener_turn_idle) blast
  with tree show ?thesis by (intro exI [of _ s] exI [of _ "[]"]) simp
qed

lemma listener_turn_rep:
  assumes rep: "state_rep c k depth s xs"
  shows "\<exists>s' ys. listener_turn c k lt get_events s = Inr s' \<and> state_rep c k depth s' (xs @ ys)"
proof (cases "\<exists>start page. poll_start lt s = Inr start \<and> get_events start = Some \<lparr>rr_result = Some page, rr_error = None\<rparr>")
  case True
  then obtain start evs latest where start: "poll_start lt s = Inr start"
    and page: "get_events start = Some \<lparr>rr_result = Some \<lparr>ger_events = evs, ger_latest_ledger = latest\<rparr>, rr_error = None\<rparr>"
    by (metis GetEventsResult.surjective old.unit.exhaust)
  from poll_events_rep [OF rep start, of get_events evs latest] page show ?thesis by (auto simp: listener_turn_def)
next
  case False
  then have "listener_turn c k lt get_events s = Inr s" by (intro listener_turn_idle) blast
  with rep show ?thesis by (intro exI [of _ s] exI [of _ "[]"]) simp
qed

lemma listener_ticks_total:
  "mtree_rep c depth (st_tree s) xs \<Longrightarrow>
   \<exists>s' ys. listener_ticks c k answers s = Inr s' \<and> mtree_rep c depth (st_tree s') (xs @ ys)"
proof (induction answers arbitrary: s xs)
  case Nil
  then show ?case by (intro exI [of _ s] exI [of _ "[]"]) simp
next
  case (Cons answer answers)
  obtain lt get_events where answer: "answer = (lt, get_events)" by (cases answer)
  obtain s1 ys where "listener_turn c k lt get_events s = Inr s1" "mtree_rep c depth (st_tree s1) (xs @ ys)"
    using listener_turn_total [OF Cons.prems] by blast
  with Cons.IH [of s1 "xs @ ys"] show ?case by (auto simp: answer)
qed

end
