(* ===== verification/IndexerApi.thy ===== *)
theory IndexerApi
  imports IndexerListener
begin

text \<open>
  \<open>indexer/src/api.rs\<close>: the handlers of the indexer's HTTP endpoints. A response is its status
  code and its JSON body.
\<close>

record HttpResponse =
  http_status :: nat
  http_body :: json

definition json_error :: "string \<Rightarrow> json" where
  "json_error msg = JObject [(''error'', JString msg)]"

definition merkle_path :: "codec \<Rightarrow> string \<Rightarrow> AppState \<Rightarrow> HttpResponse run" where
  "merkle_path k commitment s =
     (let commitment_hex = trim_0x commitment in
      case hex_commitment k commitment_hex of
        None \<Rightarrow> Inr \<lparr>http_status = 400, http_body = json_error ''Invalid commitment: expected 64 hex characters''\<rparr>
      | Some commitment_bytes \<Rightarrow>
          (case find_commitment commitment_bytes (st_tree s) of
             Some index \<Rightarrow>
               and_then (tree_proof index (st_tree s)) (\<lambda>found.
               and_then (unwrap found) (\<lambda>pf.
               let path_elements = map (\<lambda>e. hex_encode k (array_list e)) (mp_path_elements pf) in
               Inr \<lparr>http_status = 200, http_body = JObject
                 [(''root'', JString (hex_encode k (array_list (mp_root pf)))),
                  (''path_elements'', JArray (map JString path_elements)),
                  (''path_indices'', JArray (map (\<lambda>i. JNumber (uint i)) (mp_path_indices pf))),
                  (''leaf_index'', JNumber (uint (mp_leaf_index pf)))]\<rparr>))
           | None \<Rightarrow> Inr \<lparr>http_status = 404, http_body = json_error ''Commitment not found in tree''\<rparr>))"

definition pool_info_json :: "PoolInfo \<Rightarrow> json" where
  "pool_info_json i = JObject
     [(''contract_id'', JString (pi_contract_id i)), (''denomination'', JNumber (sint (pi_denomination i))),
      (''deposit_count'', JNumber (uint (pi_deposit_count i))), (''latest_root'', JString (pi_latest_root i))]"

definition pool_state :: "codec \<Rightarrow> AppState \<Rightarrow> HttpResponse run" where
  "pool_state k s = and_then (pool_info k s) (\<lambda>i. Inr \<lparr>http_status = 200, http_body = pool_info_json i\<rparr>)"

definition api_roots :: "AppState \<Rightarrow> HttpResponse" where
  "api_roots s = \<lparr>http_status = 200, http_body = JArray (map (\<lambda>r. JObject
     [(''root'', JString (re_root r)), (''deposit_index'', JNumber (uint (re_deposit_index r)))]) (st_roots s))\<rparr>"

definition api_health :: HttpResponse where
  "api_health = \<lparr>http_status = 200, http_body = JObject [(''status'', JString ''ok'')]\<rparr>"

subsection \<open>What the handlers serve\<close>

lemma trim_hex:
  assumes "set s \<subseteq> set ''0123456789abcdef''"
  shows "trim_0x s = s"
  using assms by (cases s rule: trim_0x.cases) auto

lemma trim_0x_prefix: "trim_0x (CHR ''0'' # CHR ''x'' # s) = trim_0x s"
  by simp

lemma hex_commitment_encode:
  assumes "hex_laws k"
  shows "hex_commitment k (trim_0x (hex_encode k (array_list (x :: bytes32)))) = Some x"
proof -
  have "trim_0x (hex_encode k (array_list x)) = hex_encode k (array_list x)"
    using assms by (intro trim_hex) (simp add: hex_laws_def)
  with assms show ?thesis by (simp add: hex_commitment_def hex_laws_def)
qed

text \<open>A commitment at position \<open>i\<close> is served with its authentication path.\<close>

lemma merkle_path_found:
  assumes laws: "hex_laws k" and tree: "mtree_rep c depth (st_tree s) xs" and small: "length xs < 2 ^ 32"
    and pos: "vec_position xs x = Some i"
  shows "\<exists>es (ds :: u32 list). merkle_path k (hex_encode k (array_list x)) s = Inr \<lparr>http_status = 200, http_body = JObject
      [(''root'', JString (hex_encode k (array_list (idx_node c xs (unat depth) 0)))),
       (''path_elements'', JArray (map JString (map (\<lambda>e. hex_encode k (array_list e)) es))),
       (''path_indices'', JArray (map (\<lambda>i. JNumber (uint i)) ds)),
       (''leaf_index'', JNumber (int i))]\<rparr> \<and>
    length es = unat depth \<and> length ds = unat depth \<and>
    zip es (map unat ds) = auth_path (hash_pair_bytes c) (idx_zero c) xs (unat depth) i"
proof -
  have leaves: "mt_leaves (st_tree s) = xs" using tree by (simp add: mtree_rep_def)
  have i: "i < length xs" using pos by (simp add: vec_position_Some)
  let ?i = "word_of_nat i :: u32"
  have u: "unat ?i = i" using i small by (intro unat_of_nat_u32) simp
  then have ui: "uint ?i = int i" by (metis of_nat_unat)
  obtain es ds where "tree_proof ?i (st_tree s) = Inr (Some \<lparr>mp_root = idx_node c xs (unat depth) 0, mp_path_elements = es,
      mp_path_indices = ds, mp_leaf_index = ?i\<rparr>)"
    and "length es = unat depth" "length ds = unat depth"
    and "zip es (map unat ds) = auth_path (hash_pair_bytes c) (idx_zero c) xs (unat depth) i"
    using tree_proof_rep [OF tree small, of ?i] i unfolding u by blast
  then show ?thesis
    using hex_commitment_encode [OF laws, of x] pos ui
    by (intro exI [of _ es] exI [of _ ds])
      (simp add: merkle_path_def Let_def find_commitment_def leaves comp_def)
qed

lemma merkle_path_missing:
  assumes laws: "hex_laws k" and leaves: "mt_leaves (st_tree s) = xs" and "x \<notin> set xs"
  shows "merkle_path k (hex_encode k (array_list x)) s =
    Inr \<lparr>http_status = 404, http_body = json_error ''Commitment not found in tree''\<rparr>"
proof -
  have "vec_position xs x = None" using assms(3) by (simp add: vec_position_None)
  with leaves show ?thesis
    using hex_commitment_encode [OF laws, of x] by (simp add: merkle_path_def Let_def find_commitment_def)
qed

text \<open>No query makes the handler panic.\<close>

lemma merkle_path_total:
  assumes tree: "mtree_rep c depth (st_tree s) xs" and small: "length xs < 2 ^ 32"
  shows "\<exists>r. merkle_path k q s = Inr r"
proof (cases "hex_commitment k (trim_0x q)")
  case None
  then show ?thesis by (simp add: merkle_path_def)
next
  case (Some x)
  have leaves: "mt_leaves (st_tree s) = xs" using tree by (simp add: mtree_rep_def)
  show ?thesis
  proof (cases "vec_position xs x")
    case None
    with Some show ?thesis by (simp add: merkle_path_def Let_def find_commitment_def leaves)
  next
    case (Some i)
    then have i: "i < length xs" by (simp add: vec_position_Some)
    then have "unat (word_of_nat i :: u32) = i" using small by (intro unat_of_nat_u32) simp
    with tree_proof_rep [OF tree small, of "word_of_nat i"] i
    have "\<exists>p. tree_proof (word_of_nat i) (st_tree s) = Inr (Some p)" by auto
    then show ?thesis
      using \<open>hex_commitment k (trim_0x q) = Some x\<close> Some
      by (auto simp: merkle_path_def Let_def find_commitment_def leaves)
  qed
qed

lemma pool_state_rep:
  assumes "mtree_rep c depth (st_tree s) xs"
  shows "pool_state k s = Inr \<lparr>http_status = 200, http_body = JObject
     [(''contract_id'', JString (st_contract_id s)), (''denomination'', JNumber (sint (st_denomination s))),
      (''deposit_count'', JNumber (uint (word_of_nat (length xs) :: u32))),
      (''latest_root'', JString (hex_encode k (array_list (idx_node c xs (unat depth) 0))))]\<rparr>"
  by (simp add: pool_state_def pool_info_rep [OF assms] pool_info_json_def)

end
