(* ===== verification/IndexerTrace.thy ===== *)
theory IndexerTrace
  imports IndexerListener
begin

text \<open>
  The indexer over time: its state in memory, the database and the tasks in flight, as a step
  relation in which polls, single database statements and restarts interleave; and what the
  rows of the table \<open>commitments\<close> are to the leaves of the tree.
\<close>

subsection \<open>Rows\<close>

lemma mset_rows_of: "mset ss = mset ss' \<Longrightarrow> mset (rows_of ss) = mset (rows_of ss')"
  unfolding rows_of_def List.map_filter_def mset_map mset_filter by (simp only:)

lemma rows_of_append: "rows_of (ss @ ss') = rows_of ss @ rows_of ss'"
  by (simp add: rows_of_def List.map_filter_def)

lemma rows_of_ledgers: "rows_of (map SetLastLedger ls) = []"
  by (induction ls) simp_all

lemma rows_of_insert_tasks:
  "rows_of (concat (insert_tasks c depth xs ys)) =
     map (\<lambda>i. (word_of_nat i, (xs @ ys) ! i)) [length xs..<length xs + length ys]"
proof (induction ys arbitrary: xs)
  case Nil
  then show ?case by simp
next
  case (Cons y ys)
  have "[length xs..<length xs + length (y # ys)] = length xs # [length (xs @ [y])..<length (xs @ [y]) + length ys]"
    by (simp add: upt_conv_Cons del: upt_Suc)
  with Cons.IH [of "xs @ [y]"] show ?case
    by (simp add: insert_task_def rows_of_append)
qed

lemma sint_small: "i < 2 ^ 31 \<Longrightarrow> sint (word_of_nat i :: u32) = int i"
  by (simp add: signed_of_nat signed_take_bit_int_eq_self)

lemma distinct_map_mset: "mset xs = mset ys \<Longrightarrow> distinct (map f xs) = distinct (map f ys)"
  by (rule mset_eq_imp_distinct_iff) (simp only: mset_map)

definition stored :: "bytes32 list \<Rightarrow> nat list \<Rightarrow> (32 word \<times> u8 list) list" where
  "stored xs is = map (\<lambda>i. (word_of_nat i, array_list (xs ! i))) is"

lemma stored_distinct:
  assumes "distinct is" and "\<forall>i\<in>set is. i < length xs" and "length xs \<le> 2 ^ 31" and "distinct xs"
  shows "distinct (map fst (stored xs is))" "distinct (map snd (stored xs is))"
proof -
  have lt: "i < 2 ^ 31" if "i \<in> set is" for i using assms that by force
  have "inj_on (\<lambda>i. word_of_nat i :: u32) (set is)"
    by (rule inj_onI) (metis lt of_nat_eq_iff sint_small)
  then show "distinct (map fst (stored xs is))" using assms(1) by (simp add: stored_def comp_def distinct_map)
  have "inj_on (\<lambda>i. array_list (xs ! i)) (set is)"
    using assms(2,4) by (auto simp: inj_on_def nth_eq_iff_index_eq simp flip: array_eq_iff)
  then show "distinct (map snd (stored xs is))" using assms(1) by (simp add: stored_def comp_def distinct_map)
qed

text \<open>A table that holds the leaves at the positions \<open>is\<close>, in any order of rows, is read back
  by position.\<close>

lemma stored_read_back:
  assumes rows: "mset (commitments db) = mset (stored xs is)"
    and "sorted is" "distinct is" and bound: "\<forall>i\<in>set is. i < length xs" and small: "length xs \<le> 2 ^ 31" and dist: "distinct xs"
  shows "db_get_all_commitments db = map (\<lambda>i. (word_of_nat i, xs ! i)) is"
proof (rule get_all_sorted)
  let ?rows = "map (\<lambda>i. (word_of_nat i :: u32, xs ! i)) is"
  show "mset (commitments db) = mset (map (\<lambda>(i, c). (i, array_list c)) ?rows)"
    using rows by (simp add: stored_def comp_def)
  show "distinct (map fst ?rows)"
    using stored_distinct(1) [OF assms(3) bound small dist] by (simp add: stored_def comp_def)
  have "i < 2 ^ 31" if "i \<in> set is" for i using bound small that by force
  then have "map (\<lambda>i. sint (word_of_nat i :: u32)) is = map int is" by (simp add: sint_small)
  moreover have "sorted (map int is)" using \<open>sorted is\<close> by (simp add: sorted_map)
  ultimately have "sorted (map (\<lambda>i. sint (word_of_nat i :: u32)) is)" by (simp only:)
  then show "sorted (map (\<lambda>(i, _). sint i) ?rows)" by (simp add: comp_def)
qed

text \<open>Whatever order the insertions ran in, a restart reads the written rows back by position.\<close>

lemma written_rows_read_back:
  assumes rows: "mset (rows_of stmts) = mset (map (\<lambda>i. (word_of_nat i, xs ! i)) is)"
    and "sorted is" "distinct is" and bound: "\<forall>i\<in>set is. i < length xs" and small: "length xs \<le> 2 ^ 31" and dist: "distinct xs"
  shows "db_get_all_commitments (fold db_exec stmts empty_database) = map (\<lambda>i. (word_of_nat i, xs ! i)) is"
proof -
  let ?f = "\<lambda>(i, c). (i, array_list c)" and ?rows = "map (\<lambda>i. (word_of_nat i :: u32, xs ! i)) is"
  note d = stored_distinct [OF assms(3) bound small dist]
  have "distinct (map fst ?rows)" "distinct (map (array_list \<circ> snd) ?rows)"
    using d by (simp_all add: stored_def comp_def)
  then have "distinct (map fst (rows_of stmts))" "distinct (map (array_list \<circ> snd) (rows_of stmts))"
    using distinct_map_mset [OF rows] by blast+
  then have "commitments (fold db_exec stmts empty_database) = map ?f (rows_of stmts)"
    by (subst exec_commitments) (simp_all add: empty_database_def)
  then have "mset (commitments (fold db_exec stmts empty_database)) = mset (stored xs is)"
    using arg_cong [OF rows, of "image_mset ?f"] by (simp add: stored_def comp_def flip: mset_map)
  from stored_read_back [OF this assms(2-)] show ?thesis .
qed

subsection \<open>Steps\<close>

record indexer_sys =
  sys_state :: AppState
  sys_db :: Database

definition db_tasks :: "indexer_sys \<Rightarrow> DbStmt list list" where
  "db_tasks w = st_spawned (sys_state w)"

definition quiescent :: "indexer_sys \<Rightarrow> bool" where
  "quiescent w \<longleftrightarrow> (\<forall>task\<in>set (db_tasks w). task = [])"

text \<open>The \<open>i\<close>-th task is left with the statements \<open>rest\<close>.\<close>

definition advance_task :: "nat \<Rightarrow> DbStmt list \<Rightarrow> indexer_sys \<Rightarrow> indexer_sys" where
  "advance_task i rest w =
     w\<lparr>sys_state := (sys_state w)\<lparr>st_spawned := (st_spawned (sys_state w))[i := rest]\<rparr>\<rparr>"

text \<open>A write of the cursor is the turn of the \<open>i\<close>-th task when no task spawned before has one left.\<close>

definition cursor_turn :: "nat \<Rightarrow> indexer_sys \<Rightarrow> bool" where
  "cursor_turn i w \<longleftrightarrow> (\<forall>j<i. \<forall>l. SetLastLedger l \<notin> set (db_tasks w ! j))"

text \<open>
  One step: a poll, with answers \<open>rpc\<close> allows; the next statement of some task, which is
  executed or (when there are \<open>faults\<close>) fails, as the code only logs the failure; a restart,
  when no statement is outstanding or (when there are \<open>faults\<close>) at any moment, which loses the
  state in memory and the tasks. The tasks run in any order; nothing in the code keeps the writes of
  the cursor in order either, so that a write that overtakes an earlier one counts among the
  \<open>faults\<close>, while all other statements overtake each other freely.
\<close>

inductive index_step :: "bool \<Rightarrow> ('fr, 'z) field_crypto_scheme \<Rightarrow> codec \<Rightarrow> string \<Rightarrow> i128 \<Rightarrow> u32 \<Rightarrow>
    (json option \<times> (u32 \<Rightarrow> RpcResponse option) \<Rightarrow> bool) \<Rightarrow> indexer_sys \<Rightarrow> indexer_sys \<Rightarrow> bool"
  for faults c k cid d depth rpc where
  poll: "rpc (get_latest, get_events) \<Longrightarrow> listener_turn c k get_latest get_events (sys_state w) = Inr s \<Longrightarrow>
    index_step faults c k cid d depth rpc w (w\<lparr>sys_state := s\<rparr>)"
| exec: "i < length (db_tasks w) \<Longrightarrow> db_tasks w ! i = stmt # rest \<Longrightarrow> 
    faults \<or> cursor_turn i w \<or> (\<forall>l. stmt \<noteq> SetLastLedger l) \<Longrightarrow>
    index_step faults c k cid d depth rpc w ((advance_task i rest w)\<lparr>sys_db := db_exec stmt (sys_db w)\<rparr>)"
| fails: "faults \<Longrightarrow> i < length (db_tasks w) \<Longrightarrow> db_tasks w ! i = stmt # rest \<Longrightarrow>
    index_step faults c k cid d depth rpc w (advance_task i rest w)"
| restarts: "faults \<or> quiescent w \<Longrightarrow> restart c k cid d depth (sys_db w) = Inr s \<Longrightarrow>
    index_step faults c k cid d depth rpc w (w\<lparr>sys_state := s\<rparr>)"

abbreviation index_steps :: "bool \<Rightarrow> ('fr, 'z) field_crypto_scheme \<Rightarrow> codec \<Rightarrow> string \<Rightarrow> i128 \<Rightarrow> u32 \<Rightarrow>
    (json option \<times> (u32 \<Rightarrow> RpcResponse option) \<Rightarrow> bool) \<Rightarrow> indexer_sys \<Rightarrow> indexer_sys \<Rightarrow> bool" where
  "index_steps faults c k cid d depth rpc \<equiv> (index_step faults c k cid d depth rpc)\<^sup>*\<^sup>*"

lemma index_steps_one:
  "index_step faults c k cid d depth rpc w w' \<Longrightarrow> index_steps faults c k cid d depth rpc w' w'' \<Longrightarrow>
   index_steps faults c k cid d depth rpc w w''"
  by (rule converse_rtranclp_into_rtranclp)

definition sys_leaves :: "indexer_sys \<Rightarrow> bytes32 list" where
  "sys_leaves w = mt_leaves (st_tree (sys_state w))"

subsection \<open>Rows written and rows to come are the leaves\<close>

definition pending_rows :: "indexer_sys \<Rightarrow> (32 word \<times> u8 list) list" where
  "pending_rows w = map (\<lambda>(i, c). (i, array_list c)) (rows_of (concat (db_tasks w)))"

definition rows_accounted :: "indexer_sys \<Rightarrow> bytes32 list \<Rightarrow> bool" where
  "rows_accounted w xs \<longleftrightarrow>
     mset (commitments (sys_db w)) + mset (pending_rows w) = mset (stored xs [0..<length xs])"

definition sys_inv :: "('fr, 'z) field_crypto_scheme \<Rightarrow> u32 \<Rightarrow> indexer_sys \<Rightarrow> bytes32 list \<Rightarrow> bool" where
  "sys_inv c depth w xs \<longleftrightarrow> mtree_rep c depth (st_tree (sys_state w)) xs \<and> st_database (sys_state w) \<and>
     rows_accounted w xs \<and> distinct xs \<and> length xs \<le> 2 ^ 31"

lemma sys_leaves_rep: "mtree_rep c depth (st_tree (sys_state w)) xs \<Longrightarrow> sys_leaves w = xs"
  by (simp add: sys_leaves_def mtree_rep_def)

lemma mset_rows_concat_update:
  assumes "i < length tasks"
  shows "mset (rows_of (concat (tasks[i := rest]))) + mset (rows_of (tasks ! i)) =
    mset (rows_of (concat tasks)) + mset (rows_of rest)"
proof -
  have "concat tasks = concat (take i tasks) @ tasks ! i @ concat (drop (Suc i) tasks)"
    using assms by (metis append.assoc concat.simps(2) concat_append id_take_nth_drop)
  moreover have "concat (tasks[i := rest]) = concat (take i tasks) @ rest @ concat (drop (Suc i) tasks)"
    using assms by (simp add: upd_conv_take_nth_drop)
  ultimately show ?thesis by (simp add: rows_of_append)
qed

lemma stored_append:
  "stored (xs @ ys) [0..<length xs + length ys] =
    stored xs [0..<length xs] @ map (\<lambda>i. (word_of_nat i, array_list ((xs @ ys) ! i))) [length xs..<length xs + length ys]"
proof -
  have "map (\<lambda>i. (word_of_nat i :: 32 word, array_list ((xs @ ys) ! i))) [0..<length xs] = stored xs [0..<length xs]"
    by (simp add: stored_def nth_append)
  then show ?thesis
    unfolding stored_def by (simp only: upt_add_eq_append [OF le0] map_append)
qed

lemma sys_inv_poll:
  assumes inv: "sys_inv c depth w xs" and turn: "listener_turn c k lt ge (sys_state w) = Inr s"
    and ok: "distinct (mt_leaves (st_tree s))" "length (mt_leaves (st_tree s)) \<le> 2 ^ 31"
  shows "\<exists>ys. sys_inv c depth (w\<lparr>sys_state := s\<rparr>) (xs @ ys)"
proof -
  have tree: "mtree_rep c depth (st_tree (sys_state w)) xs" and db: "st_database (sys_state w)"
    and acc: "rows_accounted w xs"
    using inv by (simp_all add: sys_inv_def)
  from listener_turn_tree [OF tree db turn] show ?thesis
  proof (elim disjE exE conjE)
    assume "s = sys_state w"
    with inv show ?thesis by (intro exI [of _ "[]"]) simp
  next
    fix start page
    let ?ys = "indexed k (ger_events page)"
    assume t: "mtree_rep c depth (st_tree s) (xs @ ?ys)" and d: "st_database s"
      and sp: "st_spawned s = st_spawned (sys_state w) @ [SetLastLedger (ger_latest_ledger page)] # insert_tasks c depth xs ?ys"
    have "pending_rows (w\<lparr>sys_state := s\<rparr>) =
        pending_rows w @ map (\<lambda>i. (word_of_nat i, array_list ((xs @ ?ys) ! i))) [length xs..<length xs + length ?ys]"
      by (simp add: pending_rows_def db_tasks_def sp rows_of_append rows_of_insert_tasks comp_def)
    then have "rows_accounted (w\<lparr>sys_state := s\<rparr>) (xs @ ?ys)"
      using acc by (simp add: rows_accounted_def stored_append)
    moreover have "distinct (xs @ ?ys)" "length (xs @ ?ys) \<le> 2 ^ 31"
      using ok t unfolding mtree_rep_def by simp_all
    ultimately show ?thesis using t d by (auto simp: sys_inv_def)
  qed
qed

lemma new_row_is_new:
  assumes "mset A + mset B = mset L" and "r \<in> set B" and "distinct (map f L)"
  shows "f r \<notin> f ` set A"
proof -
  have "mset (A @ B) = mset L" using assms(1) by simp
  then have "distinct (map f (A @ B))" using assms(3) distinct_map_mset by blast
  with assms(2) show ?thesis by auto
qed

lemma sys_inv_exec:
  assumes inv: "sys_inv c depth w xs" and i: "i < length (db_tasks w)" and task: "db_tasks w ! i = stmt # rest"
  shows "sys_inv c depth ((advance_task i rest w)\<lparr>sys_db := db_exec stmt (sys_db w)\<rparr>) xs"
proof -
  let ?w = "(advance_task i rest w)\<lparr>sys_db := db_exec stmt (sys_db w)\<rparr>"
  have acc: "rows_accounted w xs" and dist: "distinct xs" and small: "length xs \<le> 2 ^ 31"
    using inv by (simp_all add: sys_inv_def)
  have fl: "db_tasks ?w = (db_tasks w)[i := rest]" by (simp add: db_tasks_def advance_task_def)
  have "mset (pending_rows ?w) + mset (map (\<lambda>(i, c). (i, array_list c)) (rows_of (stmt # rest))) =
      mset (pending_rows w) + mset (map (\<lambda>(i, c). (i, array_list c)) (rows_of rest))"
    using arg_cong [OF mset_rows_concat_update [OF i, of rest], of "image_mset (\<lambda>(i, c). (i, array_list c))"]
    by (simp add: pending_rows_def fl task)
  then have pend: "mset (pending_rows w) = mset (pending_rows ?w) + mset (map (\<lambda>(i, c). (i, array_list c)) (rows_of [stmt]))"
    by (cases stmt) simp_all
  have "mset (commitments (sys_db ?w)) = mset (commitments (sys_db w)) + mset (map (\<lambda>(i, c). (i, array_list c)) (rows_of [stmt]))"
  proof (cases stmt)
    case (InsertCommitment j x)
    let ?r = "(j, array_list x)"
    have r: "?r \<in> set (pending_rows w)"
      using arg_cong [OF pend, of set_mset] InsertCommitment by simp
    have "mset (commitments (sys_db w)) + mset (pending_rows w) = mset (stored xs [0..<length xs])"
      using acc by (simp add: rows_accounted_def)
    note new = new_row_is_new [OF this r]
    have "j \<notin> fst ` set (commitments (sys_db w))" "array_list x \<notin> snd ` set (commitments (sys_db w))"
      using new [OF stored_distinct(1)] new [OF stored_distinct(2)] dist small by simp_all
    then show ?thesis using InsertCommitment by (simp add: db_insert_commitment_def)
  next
    case (InsertRoot r j)
    then show ?thesis by (simp add: db_insert_root_def)
  next
    case (SetLastLedger l)
    then show ?thesis by (simp add: db_set_last_ledger_def)
  qed
  then have "rows_accounted ?w xs" using acc pend by (simp add: rows_accounted_def ac_simps)
  with inv show ?thesis by (simp add: sys_inv_def advance_task_def)
qed

lemma quiescent_concat: "quiescent w \<Longrightarrow> concat (db_tasks w) = []"
  by (simp add: quiescent_def)

text \<open>When no statement is outstanding, the database holds the leaves and a restart reads them
  back.\<close>

lemma quiescent_rows:
  assumes "sys_inv c depth w xs" and "quiescent w"
  shows "map snd (db_get_all_commitments (sys_db w)) = xs"
proof -
  have "concat (db_tasks w) = []" using assms(2) by (simp add: quiescent_def)
  then have "pending_rows w = []" by (simp only: pending_rows_def rows_of_simps list.map)
  then have "mset (commitments (sys_db w)) = mset (stored xs [0..<length xs])"
    using assms(1) by (simp add: sys_inv_def rows_accounted_def)
  then have "db_get_all_commitments (sys_db w) = map (\<lambda>i. (word_of_nat i, xs ! i)) [0..<length xs]"
    by (rule stored_read_back) (use assms(1) in \<open>simp_all add: sys_inv_def\<close>)
  then show ?thesis by (simp add: comp_def map_nth)
qed

lemma restart_ok_depth: "restart c k cid d depth db = Inr s \<Longrightarrow> depth \<noteq> - 1"
  by (rule notI) (simp add: restart_def app_state_new_def tree_new_max)

lemma sys_inv_restart:
  assumes inv: "sys_inv c depth w xs" and quiet: "quiescent w" and start: "restart c k cid d depth (sys_db w) = Inr s"
  shows "sys_inv c depth (w\<lparr>sys_state := s\<rparr>) xs"
proof -
  note q = quiescent_rows [OF inv quiet]
  have "mtree_rep c depth (st_tree s) xs" "st_database s" "st_spawned s = []"
    using restart_rep [OF restart_ok_depth [OF start], of c k cid d "sys_db w"] start q by auto
  moreover from this have "pending_rows (w\<lparr>sys_state := s\<rparr>) = []" by (simp add: pending_rows_def db_tasks_def)
  moreover have "concat (db_tasks w) = []" using quiet by (simp add: quiescent_def)
  then have "pending_rows w = []" by (simp only: pending_rows_def rows_of_simps list.map)
  ultimately show ?thesis using inv by (simp add: sys_inv_def rows_accounted_def)
qed

text \<open>A row that is in the table is a leaf at its position.\<close>

lemma rows_are_leaves:
  assumes "sys_inv c depth w xs" and "(i, bs) \<in> set (commitments (sys_db w))"
  shows "\<exists>n<length xs. i = word_of_nat n \<and> bs = array_list (xs ! n)"
proof -
  have "(i, bs) \<in># mset (commitments (sys_db w)) + mset (pending_rows w)" using assms(2) by simp
  with assms(1) have "(i, bs) \<in> set (stored xs [0..<length xs])"
    by (simp only: sys_inv_def rows_accounted_def set_mset_mset)
  then show ?thesis by (auto simp: stored_def)
qed

subsection \<open>Running tasks to their end\<close>

lemma cursor_of_insert_tasks:
  "indexer_state (fold db_exec (concat (insert_tasks c depth xs ys)) db) = indexer_state db"
proof (induction ys arbitrary: xs db)
  case Nil
  then show ?case by simp
next
  case (Cons y ys)
  then show ?case by (simp add: insert_task_def db_insert_commitment_def db_insert_root_def)
qed

definition no_cursor :: "DbStmt list list \<Rightarrow> bool" where
  "no_cursor ts \<longleftrightarrow> (\<forall>t\<in>set ts. \<forall>l. SetLastLedger l \<notin> set t)"

lemma no_cursor_turn:
  assumes "db_tasks w = pre @ task # post" and "no_cursor pre"
  shows "cursor_turn (length pre) w"
  unfolding cursor_turn_def
proof (intro allI impI)
  fix j l assume j: "j < length pre"
  then have "db_tasks w ! j = pre ! j" by (simp add: assms(1) nth_append)
  moreover have "pre ! j \<in> set pre" using j by simp
  ultimately show "SetLastLedger l \<notin> set (db_tasks w ! j)" using assms(2) unfolding no_cursor_def by metis
qed

lemma run_task:
  assumes "db_tasks w = pre @ task # post" and "faults \<or> no_cursor pre"
  shows "\<exists>w'. index_steps faults c k cid d depth rpc w w' \<and> sys_db w' = fold db_exec task (sys_db w) \<and>
     sys_state w' = (sys_state w)\<lparr>st_spawned := pre @ [] # post\<rparr>"
  using assms(1)
proof (induction task arbitrary: w)
  case Nil
  then show ?case by (intro exI [of _ w]) (simp add: db_tasks_def flip: Nil)
next
  case (Cons stmt rest)
  let ?w = "(advance_task (length pre) rest w)\<lparr>sys_db := db_exec stmt (sys_db w)\<rparr>"
  have turn: "faults \<or> cursor_turn (length pre) w" using assms(2) no_cursor_turn [OF Cons.prems] by blast
  have step: "index_step faults c k cid d depth rpc w ?w"
    by (rule index_step.exec) (use turn in \<open>auto simp: Cons.prems\<close>)
  have "db_tasks ?w = pre @ rest # post"
    using Cons.prems by (simp add: db_tasks_def advance_task_def)
  from Cons.IH [OF this] obtain w' where "index_steps faults c k cid d depth rpc ?w w'"
    "sys_db w' = fold db_exec rest (sys_db ?w)" "sys_state w' = (sys_state ?w)\<lparr>st_spawned := pre @ [] # post\<rparr>" by blast
  with step show ?case
    by (intro exI [of _ w']) (auto simp: advance_task_def intro: index_steps_one)
qed

lemma run_tasks:
  "db_tasks w = pre @ post \<Longrightarrow> faults \<or> no_cursor pre \<Longrightarrow>
   \<exists>w'. index_steps faults c k cid d depth rpc w w' \<and> sys_db w' = fold db_exec (concat post) (sys_db w) \<and>
     sys_state w' = (sys_state w)\<lparr>st_spawned := pre @ map (\<lambda>_. []) post\<rparr>"
proof (induction post arbitrary: w pre)
  case Nil
  then show ?case by (intro exI [of _ w]) (simp add: db_tasks_def flip: Nil(1))
next
  case (Cons task post)
  from run_task [OF Cons.prems] obtain w1 where w1: "index_steps faults c k cid d depth rpc w w1"
    "sys_db w1 = fold db_exec task (sys_db w)" "sys_state w1 = (sys_state w)\<lparr>st_spawned := pre @ [] # post\<rparr>" by blast
  have "db_tasks w1 = (pre @ [[]]) @ post" using w1(3) by (simp add: db_tasks_def)
  moreover have "faults \<or> no_cursor (pre @ [[]])" using Cons.prems(2) by (simp add: no_cursor_def)
  ultimately obtain w2 where "index_steps faults c k cid d depth rpc w1 w2"
    "sys_db w2 = fold db_exec (concat post) (sys_db w1)"
    "sys_state w2 = (sys_state w1)\<lparr>st_spawned := (pre @ [[]]) @ map (\<lambda>_. []) post\<rparr>"
    using Cons.IH by blast
  with w1 show ?case by (intro exI [of _ w2]) (simp add: rtranclp_trans [OF w1(1)])
qed

end
