(* ===== verification/IndexerChain.thy ===== *)
theory IndexerChain
  imports IndexerTrace
begin

text \<open>
  The listener against the chain: what the RPC answers about the events of the contract, that the cursor
  keeps a leaf from being indexed twice, and that the stored cursor follows the one in memory.
\<close>

subsection \<open>The RPC\<close>

text \<open>The RPC's documented answer to \<open>getEvents\<close>: of the chain's events from the start ledger of
  the request on the first ones, as many as its limit, and the newest ledger.\<close>

definition rpc_page :: "EventEntry list \<Rightarrow> u32 \<Rightarrow> EventEntry list" where
  "rpc_page chain start = take 1000 (filter (\<lambda>ev. start \<le> ev_ledger ev) chain)"

definition up_to :: "u32 \<Rightarrow> EventEntry list \<Rightarrow> EventEntry list" where
  "up_to latest chain = filter (\<lambda>ev. ev_ledger ev \<le> latest) chain"

text \<open>Every answer an RPC in front of the chain can give to a poll: nothing or an error, at any time, or
  the page of the events up to the newest ledger it has seen. It is documented to refuse a start ledger
  after that one. \<open>chain\<close> is the whole history of the contract, of which the RPC has seen more and more.\<close>

definition chain_rpc :: "EventEntry list \<Rightarrow> json option \<times> (u32 \<Rightarrow> RpcResponse option) \<Rightarrow> bool" where
  "chain_rpc chain answers \<longleftrightarrow>
     (\<forall>start page. snd answers start = Some \<lparr>rr_result = Some page, rr_error = None\<rparr> \<longrightarrow>
        ger_events page = rpc_page (up_to (ger_latest_ledger page) chain) start \<and>
        start \<le> ger_latest_ledger page \<and> 0 < ger_latest_ledger page \<and> ger_latest_ledger page \<noteq> - 1)"

lemma after_ledger:
  assumes "l \<noteq> - 1"
  shows "l + 1 \<le> (m :: u32) \<longleftrightarrow> l < m"
proof -
  have "unat l < 4294967295"
  proof (rule ccontr)
    assume "\<not> unat l < 4294967295"
    then have "unat l = 4294967295" using unat_less_2p32 [of l] by linarith
    then have "l = - 1" by (simp add: word_unat_eq_iff unsigned_minus_1_eq_mask mask_eq_exp_minus_1)
    with assms show False by simp
  qed
  then have "unat (l + 1) = Suc (unat l)" by (rule unat_add_one)
  then show ?thesis by (simp add: word_le_nat_alt word_less_nat_alt Suc_le_eq)
qed

subsection \<open>The commitments of a part of the chain\<close>

lemma indexed_append: "indexed k (xs @ ys) = indexed k xs @ indexed k ys"
  by (simp add: indexed_def List.map_filter_def)

lemma in_indexed: "x \<in> set (indexed k evs) \<longleftrightarrow> (\<exists>ev\<in>set evs. is_deposit_event ev \<and> extract_commitment k ev = Some x)"
  by (induction evs) (auto split: option.split)

lemma indexed_take:
  assumes "distinct (indexed k evs)"
  shows "distinct (indexed k (take n evs))" "set (indexed k (take n evs)) \<subseteq> set (indexed k evs)"
proof -
  have "indexed k evs = indexed k (take n evs) @ indexed k (drop n evs)" by (simp flip: indexed_append)
  with assms show "distinct (indexed k (take n evs))" "set (indexed k (take n evs)) \<subseteq> set (indexed k evs)"
    by (metis distinct_append, metis Un_upper1 set_append)
qed

lemma indexed_partition:
  "mset (indexed k (filter P evs)) + mset (indexed k (filter (\<lambda>ev. \<not> P ev) evs)) = mset (indexed k evs)"
  by (induction evs) (auto split: option.split)

lemma distinct_mset_add: "mset zs = mset xs + mset ys \<Longrightarrow> distinct zs \<longleftrightarrow> distinct (xs @ ys)"
  by (rule mset_eq_imp_distinct_iff) simp

lemma indexed_filter:
  assumes "distinct (indexed k evs)"
  shows "distinct (indexed k (filter P evs))"
    and "(\<And>ev. P ev \<Longrightarrow> \<not> Q ev) \<Longrightarrow> set (indexed k (filter P evs)) \<inter> set (indexed k (filter Q evs)) = {}"
proof -
  have parts: "distinct (indexed k (filter P evs) @ indexed k (filter (\<lambda>ev. \<not> P ev) evs))"
    using assms distinct_mset_add [OF indexed_partition [symmetric]] by blast
  then show "distinct (indexed k (filter P evs))" by simp
  assume "\<And>ev. P ev \<Longrightarrow> \<not> Q ev"
  then have "set (indexed k (filter Q evs)) \<subseteq> set (indexed k (filter (\<lambda>ev. \<not> P ev) evs))"
    by (fastforce simp: in_indexed)
  with parts show "set (indexed k (filter P evs)) \<inter> set (indexed k (filter Q evs)) = {}" by auto
qed

subsection \<open>The cursor separates the leaves from what is to come\<close>

text \<open>The leaves are commitments of different events between the ledger \<open>low\<close> and the cursor.\<close>

definition covered :: "codec \<Rightarrow> EventEntry list \<Rightarrow> u32 \<Rightarrow> u32 \<Rightarrow> bytes32 list \<Rightarrow> bool" where
  "covered k chain low cursor xs \<longleftrightarrow> distinct xs \<and> cursor \<noteq> - 1 \<and>
     set xs \<subseteq> set (indexed k (filter (\<lambda>ev. low \<le> ev_ledger ev \<and> ev_ledger ev \<le> cursor) chain)) \<and>
     (if cursor = 0 then xs = [] \<and> low = 0 else low \<le> cursor + 1)"

lemma page_commitments:
  assumes "distinct (indexed k chain)"
  shows "distinct (indexed k (rpc_page (up_to latest chain) start))"
    "set (indexed k (rpc_page (up_to latest chain) start)) \<subseteq>
       set (indexed k (filter (\<lambda>ev. start \<le> ev_ledger ev \<and> ev_ledger ev \<le> latest) chain))"
proof -
  let ?part = "filter (\<lambda>ev. start \<le> ev_ledger ev \<and> ev_ledger ev \<le> latest) chain"
  have page: "rpc_page (up_to latest chain) start = take 1000 ?part" by (simp add: rpc_page_def up_to_def conj_commute)
  note part = indexed_take [where n = 1000, OF indexed_filter(1) [OF assms, of "\<lambda>ev. start \<le> ev_ledger ev \<and> ev_ledger ev \<le> latest"]]
  show "distinct (indexed k (rpc_page (up_to latest chain) start))"
    "set (indexed k (rpc_page (up_to latest chain) start)) \<subseteq> set (indexed k ?part)"
    unfolding page by (rule part)+
qed

lemma indexed_mono:
  "(\<And>ev. P ev \<Longrightarrow> Q ev) \<Longrightarrow> set (indexed k (filter P chain)) \<subseteq> set (indexed k (filter Q chain))"
  by (fastforce simp: in_indexed)

lemma covered_page:
  assumes cov: "covered k chain low cursor xs" and dist: "distinct (indexed k chain)"
    and start: "start \<le> latest" "0 < latest" "latest \<noteq> - 1" and next_start: "cursor \<noteq> 0 \<Longrightarrow> start = cursor + 1"
  shows "covered k chain low latest (xs @ indexed k (rpc_page (up_to latest chain) start))"
proof -
  let ?between = "\<lambda>lo hi ev. lo \<le> ev_ledger ev \<and> ev_ledger ev \<le> (hi :: u32)"
  note page = page_commitments [OF dist, of latest start]
  note cov = cov [unfolded covered_def]
  show ?thesis
  proof (cases "cursor = 0")
    case True
    then have "xs = []" "low = 0" using cov by simp_all
    moreover have "set (indexed k (filter (?between start latest) chain)) \<subseteq> set (indexed k (filter (?between 0 latest) chain))"
      by (rule indexed_mono) simp
    ultimately show ?thesis using page start by (simp add: covered_def word_gt_0)
  next
    case False
    have after: "start \<le> m \<longleftrightarrow> cursor < m" for m using after_ledger [of cursor m] next_start [OF False] cov by simp
    then have less: "cursor < latest" using start(1) by simp
    have low: "low \<le> cursor + 1" using cov False by simp
    have low_start: "low \<le> start" using low next_start [OF False] by simp
    have "set (indexed k (filter (?between low cursor) chain)) \<inter> set (indexed k (filter (?between start latest) chain)) = {}"
      by (rule indexed_filter(2) [OF dist]) (auto simp: after)
    then have "distinct (xs @ indexed k (rpc_page (up_to latest chain) start))" using page cov by auto
    moreover have "set (indexed k (filter (?between low cursor) chain)) \<subseteq> set (indexed k (filter (?between low latest) chain))"
      "set (indexed k (filter (?between start latest) chain)) \<subseteq> set (indexed k (filter (?between low latest) chain))"
      by (rule indexed_mono; use less low_start in force)+
    then have "set (xs @ indexed k (rpc_page (up_to latest chain) start)) \<subseteq> set (indexed k (filter (?between low latest) chain))"
      using page cov by auto
    moreover have "low \<le> latest + 1"
      using low_start start(1) after_ledger [OF start(3), of "latest + 1"] after_ledger [OF start(3)] by (metis order_refl order_less_imp_le order_trans)
    ultimately show ?thesis using start by (simp add: covered_def word_gt_0)
  qed
qed

lemma covered_length:
  assumes "covered k chain low cursor xs"
  shows "distinct xs" "length xs \<le> length (indexed k chain)"
proof -
  show dist: "distinct xs" using assms by (simp add: covered_def)
  have "set xs \<subseteq> set (indexed k chain)"
    using assms by (fastforce simp: covered_def in_indexed)
  then have "card (set xs) \<le> card (set (indexed k chain))" by (intro card_mono) simp_all
  also have "\<dots> \<le> length (indexed k chain)" by (rule card_length)
  finally show "length xs \<le> length (indexed k chain)" using distinct_card [OF dist] by simp
qed

text \<open>One turn of the listener in front of the chain.\<close>

lemma chain_turn:
  assumes tree: "mtree_rep c depth (st_tree s) xs" and rpc: "chain_rpc chain (lt, get_events)"
    and cov: "covered k chain low (st_last_ledger s) xs" and dist: "distinct (indexed k chain)"
  shows "\<exists>s' ys. listener_turn c k lt get_events s = Inr s' \<and> mtree_rep c depth (st_tree s') (xs @ ys) \<and>
    covered k chain low (st_last_ledger s') (xs @ ys) \<and> st_database s' = st_database s \<and>
    (s' = s \<and> ys = [] \<or> st_spawned s' = st_spawned s @ (if st_database s then [SetLastLedger (st_last_ledger s')] #
      insert_tasks c depth xs ys else []))"
proof (cases "\<exists>start page. poll_start lt s = Inr start \<and> get_events start = Some \<lparr>rr_result = Some page, rr_error = None\<rparr>")
  case True
  then obtain start page where start: "poll_start lt s = Inr start"
    and page: "get_events start = Some \<lparr>rr_result = Some page, rr_error = None\<rparr>" by blast
  have honest: "ger_events page = rpc_page (up_to (ger_latest_ledger page) chain) start" "start \<le> ger_latest_ledger page"
      "0 < ger_latest_ledger page" "ger_latest_ledger page \<noteq> - 1"
    using rpc page unfolding chain_rpc_def by auto
  have "start = st_last_ledger s + 1" if "st_last_ledger s \<noteq> 0" using start that by (simp add: poll_start_def)
  from covered_page [OF cov dist honest(2-) this] listener_turn_page [where get_events = get_events and k = k, OF tree start page]
  show ?thesis unfolding honest(1) by metis
next
  case False
  then have "listener_turn c k lt get_events s = Inr s" by (intro listener_turn_idle) blast
  with tree cov show ?thesis by (intro exI [of _ s] exI [of _ "[]"]) simp
qed

subsection \<open>Runs without faults\<close>

text \<open>The writes of the cursor that are still to come.\<close>

definition ledgers_of :: "DbStmt list \<Rightarrow> u32 list" where
  "ledgers_of = List.map_filter (\<lambda>s. case s of SetLastLedger l \<Rightarrow> Some l | _ \<Rightarrow> None)"

lemma ledgers_of_simps [simp]:
  "ledgers_of [] = []" "ledgers_of (SetLastLedger l # ss) = l # ledgers_of ss"
  "ledgers_of (InsertCommitment i x # ss) = ledgers_of ss" "ledgers_of (InsertRoot r i # ss) = ledgers_of ss"
  by (simp_all add: ledgers_of_def List.map_filter_simps)

lemma ledgers_of_append [simp]: "ledgers_of (ss @ ss') = ledgers_of ss @ ledgers_of ss'"
  by (simp add: ledgers_of_def List.map_filter_def)

lemma ledgers_of_insert_tasks [simp]: "ledgers_of (concat (insert_tasks c depth xs ys)) = []"
  by (induction ys arbitrary: xs) (simp_all add: insert_task_def)

lemma ledgers_of_Nil: "(\<And>l. SetLastLedger l \<notin> set ss) \<Longrightarrow> ledgers_of ss = []"
  by (induction ss) (auto split: DbStmt.split, metis DbStmt.exhaust ledgers_of_simps(3,4))

text \<open>The cursor in memory is the last one written or to be written.\<close>

definition cursor_inv :: "indexer_sys \<Rightarrow> bool" where
  "cursor_inv w \<longleftrightarrow>
     st_last_ledger (sys_state w) = last (db_get_last_ledger (sys_db w) # ledgers_of (concat (db_tasks w)))"

lemma db_exec_cursor:
  "db_get_last_ledger (db_exec stmt db) = (case stmt of SetLastLedger l \<Rightarrow> l | _ \<Rightarrow> db_get_last_ledger db)"
  by (cases stmt) (simp_all add: last_ledger_roundtrip, simp_all add: db_get_last_ledger_def db_insert_commitment_def db_insert_root_def)

lemma cursor_inv_exec:
  assumes inv: "cursor_inv w" and i: "i < length (db_tasks w)" and task: "db_tasks w ! i = stmt # rest"
    and order: "cursor_turn i w \<or> (\<forall>l. stmt \<noteq> SetLastLedger l)"
  shows "cursor_inv ((advance_task i rest w)\<lparr>sys_db := db_exec stmt (sys_db w)\<rparr>)"
proof -
  let ?pre = "concat (take i (db_tasks w))" and ?post = "concat (drop (Suc i) (db_tasks w))"
  have before: "ledgers_of (concat (db_tasks w)) = ledgers_of ?pre @ ledgers_of (stmt # rest) @ ledgers_of ?post"
    using arg_cong [OF id_take_nth_drop [OF i], of "\<lambda>ts. ledgers_of (concat ts)"] by (simp add: task flip: ledgers_of_append)
  have after: "ledgers_of (concat ((db_tasks w)[i := rest])) = ledgers_of ?pre @ ledgers_of rest @ ledgers_of ?post"
    using i by (simp add: upd_conv_take_nth_drop)
  have goal: "cursor_inv ((advance_task i rest w)\<lparr>sys_db := db_exec stmt (sys_db w)\<rparr>) \<longleftrightarrow>
      st_last_ledger (sys_state w) = last (db_get_last_ledger (db_exec stmt (sys_db w)) # ledgers_of (concat ((db_tasks w)[i := rest])))"
    by (simp add: cursor_inv_def advance_task_def db_tasks_def)
  note inv = inv [unfolded cursor_inv_def before]
  show ?thesis
    unfolding goal after db_exec_cursor
  proof (cases stmt)
    case (SetLastLedger l)
    then have "cursor_turn i w" using order by blast
    then have "ledgers_of ?pre = []"
      using i by (intro ledgers_of_Nil) (fastforce simp: cursor_turn_def in_set_conv_nth)
    with inv SetLastLedger show "st_last_ledger (sys_state w) = last ((case stmt of SetLastLedger l \<Rightarrow> l | _ \<Rightarrow>
        db_get_last_ledger (sys_db w)) # ledgers_of ?pre @ ledgers_of rest @ ledgers_of ?post)" by simp
  qed (use inv in simp_all)
qed

text \<open>What holds along every run without faults.\<close>

definition orderly_inv :: "('fr, 'z) field_crypto_scheme \<Rightarrow> codec \<Rightarrow> u32 \<Rightarrow> EventEntry list \<Rightarrow> indexer_sys \<Rightarrow> bytes32 list \<Rightarrow> bool" where
  "orderly_inv c k depth chain w xs \<longleftrightarrow>
     sys_inv c depth w xs \<and> covered k chain 0 (st_last_ledger (sys_state w)) xs \<and> cursor_inv w"

lemma orderly_inv_step:
  assumes step: "index_step False c k cid d depth (chain_rpc chain) w w'" and inv: "orderly_inv c k depth chain w xs"
    and dist: "distinct (indexed k chain)" and small: "length (indexed k chain) \<le> 2 ^ 31"
  shows "\<exists>ys. orderly_inv c k depth chain w' ys"
proof -
  note inv = inv [unfolded orderly_inv_def]
  have sys: "sys_inv c depth w xs" and cov: "covered k chain 0 (st_last_ledger (sys_state w)) xs" and cur: "cursor_inv w"
    using inv by simp_all
  from step show ?thesis
  proof cases
    case (poll lt ge s)
    have tree: "mtree_rep c depth (st_tree (sys_state w)) xs" and db: "st_database (sys_state w)"
      using sys by (simp_all add: sys_inv_def)
    obtain ys where turned: "mtree_rep c depth (st_tree s) (xs @ ys)" "covered k chain 0 (st_last_ledger s) (xs @ ys)"
        "s = sys_state w \<and> ys = [] \<or> st_spawned s = st_spawned (sys_state w) @ [SetLastLedger (st_last_ledger s)] # insert_tasks c depth xs ys"
      using chain_turn [OF tree poll(2) cov dist] poll(3) db by auto
    note bound = covered_length [OF turned(2)]
    have leaves: "mt_leaves (st_tree s) = xs @ ys" using turned(1) by (simp add: mtree_rep_def)
    obtain zs where zs: "sys_inv c depth w' (xs @ zs)"
      using sys_inv_poll [OF sys poll(3)] bound small unfolding leaves poll(1) by auto
    then have "xs @ zs = xs @ ys" using leaves poll(1) by (simp add: sys_inv_def mtree_rep_def)
    moreover have "cursor_inv w'" using turned(3) cur by (auto simp: poll(1) cursor_inv_def db_tasks_def)
    ultimately show ?thesis using zs turned(2) poll(1) by (auto simp: orderly_inv_def)
  next
    case (exec i stmt rest)
    then have "sys_inv c depth w' xs" "cursor_inv w'"
      using sys_inv_exec [OF sys] cursor_inv_exec [OF cur] by auto
    moreover have "st_last_ledger (sys_state w') = st_last_ledger (sys_state w)" by (simp add: exec advance_task_def)
    ultimately show ?thesis using cov by (auto simp: orderly_inv_def)
  next
    case (fails i stmt rest)
    then show ?thesis by simp
  next
    case (restarts s)
    then have quiet: "quiescent w" and start: "restart c k cid d depth (sys_db w) = Inr s" by simp_all
    have "sys_inv c depth w' xs" unfolding restarts(1) by (rule sys_inv_restart [OF sys quiet start])
    moreover have s: "st_last_ledger s = db_get_last_ledger (sys_db w)" "st_spawned s = []"
      using restart_rep [OF restart_ok_depth [OF start], of c k cid d "sys_db w"] start by auto
    moreover have "concat (db_tasks w) = []" using quiet by (simp add: quiescent_def)
    then have "st_last_ledger (sys_state w) = db_get_last_ledger (sys_db w)"
      using cur by (simp only: cursor_inv_def ledgers_of_simps last.simps) simp
    ultimately show ?thesis using cov by (auto simp: restarts(1) orderly_inv_def cursor_inv_def db_tasks_def)
  qed
qed

lemma orderly_inv_start:
  assumes start: "restart c k cid d depth empty_database = Inr s"
  shows "orderly_inv c k depth chain \<lparr>sys_state = s, sys_db = empty_database\<rparr> []"
proof -
  have "mtree_rep c depth (st_tree s) []" "st_database s" "st_spawned s = []" "st_last_ledger s = 0"
    using restart_rep [OF restart_ok_depth [OF start], of c k cid d empty_database] start
    by (auto simp: db_get_all_commitments_def db_get_last_ledger_def empty_database_def List.map_filter_simps)
  then show ?thesis
    by (simp add: orderly_inv_def sys_inv_def rows_accounted_def pending_rows_def db_tasks_def stored_def covered_def cursor_inv_def
        db_get_last_ledger_def) (simp add: empty_database_def)
qed

lemma orderly_run:
  assumes "index_steps False c k cid d depth (chain_rpc chain) w w'" and "orderly_inv c k depth chain w xs"
    and "distinct (indexed k chain)" "length (indexed k chain) \<le> 2 ^ 31"
  shows "\<exists>ys. orderly_inv c k depth chain w' ys"
  using assms(1,2)
proof (induction rule: rtranclp_induct)
  case (step w1 w2)
  then show ?case using orderly_inv_step [OF step.hyps(2) _ assms(3,4)] by blast
qed blast

end
