(* ===== verification/IndexerProperties.thy ===== *)
theory IndexerProperties
  imports IndexerApi IndexerChain Instances
begin

text \<open>
  The properties of the indexer (\<open>indexer/src\<close>) with their witnesses, and the two trees of the
  system as mirrored accumulators.
\<close>

subsection \<open>Concrete codecs\<close>

definition hex_digit :: "nat \<Rightarrow> char" where
  "hex_digit n = ''0123456789abcdef'' ! n"

definition demo_hex_encode :: "u8 list \<Rightarrow> string" where
  "demo_hex_encode bs = concat (map (\<lambda>b. [hex_digit (unat b div 16), hex_digit (unat b mod 16)]) bs)"

definition hex_value :: "char \<Rightarrow> nat option" where
  "hex_value ch = vec_position ''0123456789abcdef'' ch"

fun demo_hex_decode :: "string \<Rightarrow> u8 list option" where
  "demo_hex_decode [] = Some []"
| "demo_hex_decode [_] = None"
| "demo_hex_decode (a # b # s) =
     (case (hex_value a, hex_value b, demo_hex_decode s) of
        (Some x, Some y, Some bs) \<Rightarrow> Some (word_of_nat (16 * x + y) # bs)
      | _ \<Rightarrow> None)"

lemma hex_value_digit: "n < 16 \<Longrightarrow> hex_value (hex_digit n) = Some n"
  unfolding hex_value_def hex_digit_def by (intro vec_position_distinct) simp_all

lemma demo_hex_roundtrip: "demo_hex_decode (demo_hex_encode bs) = Some bs"
proof (induction bs)
  case Nil
  then show ?case by (simp add: demo_hex_encode_def)
next
  case (Cons b bs)
  have "unat b div 16 < 16" using unat_byte_less [of b] by simp
  with Cons show ?case by (simp add: demo_hex_encode_def hex_value_digit)
qed

text \<open>The witnesses need base64 only on texts it cannot decode.\<close>

definition demo_codec :: codec where
  "demo_codec = \<lparr>hex_encode = demo_hex_encode, hex_decode = demo_hex_decode, base64_decode = (\<lambda>_. None)\<rparr>"

lemma demo_hex_laws: "hex_laws demo_codec"
proof -
  have digit: "hex_digit n \<in> set ''0123456789abcdef''" if "n < 16" for n
    unfolding hex_digit_def using that by (intro nth_mem) simp
  have "ch \<in> set ''0123456789abcdef''" if "ch \<in> set (demo_hex_encode bs)" for bs ch
  proof -
    from that obtain b :: u8 where "ch = hex_digit (unat b div 16) \<or> ch = hex_digit (unat b mod 16)" 
      by (auto simp: demo_hex_encode_def)
    moreover have "unat b div 16 < 16" "unat b mod 16 < 16" for b :: u8 using unat_byte_less [of b] by simp_all
    ultimately show ?thesis using digit by metis
  qed
  then have "set (demo_hex_encode bs) \<subseteq> set ''0123456789abcdef''" for bs by blast
  then show ?thesis by (simp add: hex_laws_def demo_codec_def demo_hex_roundtrip)
qed

subsection \<open>A state to apply the theorems to\<close>

definition blank_state :: AppState where
  "blank_state = \<lparr>st_tree = \<lparr>mt_depth = 0, mt_leaves = [], mt_layers = [], mt_zero_values = []\<rparr>, st_roots = [],
     st_contract_id = [], st_denomination = 0, st_last_ledger = 0, st_database = False, st_spawned = []\<rparr>"

definition demo_state :: AppState where
  "demo_state = state_after blank_state (app_state_new demo_host demo_codec ''CPOOL'' 100 2)"

lemma demo_state_rep: "app_state_new demo_host demo_codec ''CPOOL'' 100 2 = Inr demo_state"
  "state_rep demo_host demo_codec 2 demo_state []"
proof -
  obtain s where s: "app_state_new demo_host demo_codec ''CPOOL'' 100 2 = Inr s" "state_rep demo_host demo_codec 2 s []"
    using app_state_new_rep [of 2 demo_host demo_codec "''CPOOL''" 100] by auto
  then have "demo_state = s" by (simp add: demo_state_def state_after_def)
  with s show "app_state_new demo_host demo_codec ''CPOOL'' 100 2 = Inr demo_state"
    "state_rep demo_host demo_codec 2 demo_state []" by simp_all
qed

definition demo_state1 :: AppState where
  "demo_state1 = snd (state_after (0, demo_state) (state_insert_commitment demo_host demo_codec demo_commitment demo_state))"

lemma demo_state1_rep: "state_rep demo_host demo_codec 2 demo_state1 [demo_commitment]"
  using state_insert_rep [OF demo_state_rep(2), of demo_commitment]
  by (auto simp: demo_state1_def state_after_def)

subsection \<open>The mirror\<close>

lemma idx_zero_eq: "idx_zero c = zero_leaf c"
  by (simp add: zero_leaf_def)

text \<open>The contract's stored tree and the indexer's in-memory tree are two accumulators over
  the same hash and zero leaf.\<close>

interpretation mirror: mirrored_accumulators
  "hash_pair_bytes c" "zero_leaf c" "unat depth"
  "tree_capacity depth" "tree_rep c depth" "insert_leaf_only c" "get_current_root c"
  "2 ^ 32" "mtree_rep c depth" "tree_insert_only c" mt_root
  for c :: "('fr, 'z) field_crypto_scheme" and depth :: u32
  using chain_tree.merkle_accumulator_axioms [of c depth] index_tree.merkle_accumulator_axioms [of c depth]
  by (simp add: mirrored_accumulators_def zero_leaf_def)

text \<open>(C15) The indexer mirrors the chain: the same commitments, in the same order, inserted in
  the contract's stored tree and in the indexer's in-memory tree (two different algorithms)
  give the same root, and neither insertion panics within the contract's capacity.\<close>

theorem indexer_mirrors_chain:
  assumes "tree_rep c depth e xs" and "mtree_rep c depth t xs"
    and "length xs + length cs \<le> tree_capacity depth"
  shows "\<exists>e' t' r. insert_all (insert_leaf_only c) cs e = Inr e' \<and> insert_all (tree_insert_only c) cs t = Inr t' \<and>
    get_current_root c e' = Inr r \<and> mt_root t' = Inr r"
proof -
  have "length xs + length cs \<le> 2 ^ 32"
    using assms(3) unfolding tree_capacity_def by linarith
  from mirror.same_root [OF assms this] show ?thesis .
qed

lemma indexer_mirrors_chain_witness:
  "\<exists>e' t' r. insert_all (insert_leaf_only demo_host) [be_array 1, be_array 2, be_array 3] (demo_env demo_host) = Inr e' \<and>
    insert_all (tree_insert_only demo_host) [be_array 1, be_array 2, be_array 3] (st_tree demo_state) = Inr t' \<and>
    get_current_root demo_host e' = Inr r \<and> mt_root t' = Inr r"
proof (rule indexer_mirrors_chain)
  show "tree_rep demo_host 2 (demo_env demo_host) []"
    using pool_repD(2) [OF demo_env_ok(2) [of demo_host]] by simp
  show "mtree_rep demo_host 2 (st_tree demo_state) []"
    using demo_state_rep(2) by (simp add: state_rep_def)
qed (simp add: tree_capacity_def)

subsection \<open>The served paths\<close>

lemma served_path:
  assumes laws: "hex_laws k" and tree: "mtree_rep c depth (st_tree s) xs"
    and fits: "length xs \<le> tree_capacity depth" and mem: "x \<in> set xs"
  shows "\<exists>i es (ds :: u32 list). i < length xs \<and> xs ! i = x \<and> length es = unat depth \<and> length ds = unat depth \<and>
    merkle_path k (hex_encode k (array_list x)) s = Inr \<lparr>http_status = 200, http_body = JObject
      [(''root'', JString (hex_encode k (array_list (tree_root c (unat depth) xs)))),
       (''path_elements'', JArray (map JString (map (\<lambda>e. hex_encode k (array_list e)) es))),
       (''path_indices'', JArray (map (\<lambda>i. JNumber (uint i)) ds)),
       (''leaf_index'', JNumber (int i))]\<rparr> \<and>
    climb (hash_pair_bytes c) x (zip es (map unat ds)) = tree_root c (unat depth) xs \<and>
    (\<forall>d\<in>set ds. unat d = 0 \<or> unat d = 1)"
proof -
  have "length xs \<le> 2 ^ 32 - 1" using fits unfolding tree_capacity_def by linarith
  then have small: "length xs < 2 ^ 32" by simp
  obtain i where pos: "vec_position xs x = Some i" using mem vec_position_None [of xs x] by auto
  then have i: "i < length xs" "xs ! i = x" by (simp_all add: vec_position_Some)
  have cap: "i < 2 ^ unat depth" using i(1) fits by (simp add: tree_capacity_def)
  obtain es and ds :: "u32 list" where resp: "merkle_path k (hex_encode k (array_list x)) s = Inr \<lparr>http_status = 200, http_body = JObject
      [(''root'', JString (hex_encode k (array_list (idx_node c xs (unat depth) 0)))),
       (''path_elements'', JArray (map JString (map (\<lambda>e. hex_encode k (array_list e)) es))),
       (''path_indices'', JArray (map (\<lambda>i. JNumber (uint i)) ds)),
       (''leaf_index'', JNumber (int i))]\<rparr>"
    and len: "length es = unat depth" "length ds = unat depth"
    and path: "zip es (map unat ds) = auth_path (hash_pair_bytes c) (idx_zero c) xs (unat depth) i"
    using merkle_path_found [OF laws tree small pos] by blast
  have "climb (hash_pair_bytes c) x (zip es (map unat ds)) = tree_root c (unat depth) xs"
    unfolding path idx_zero_eq using auth_path_root [OF i(1) cap] i(2) by simp
  moreover have "snd ` set (zip es (map unat ds)) = unat ` set ds"
    using len by (metis list.set_map map_snd_zip length_map)
  then have "\<forall>d\<in>set ds. unat d = 0 \<or> unat d = 1"
    unfolding path using auth_path_bits by (metis image_eqI)
  ultimately show ?thesis
    using resp len i unfolding idx_zero_eq by blast
qed

subsection \<open>What a poll can miss\<close>

text \<open>A poll that gets a page of events appends exactly the commitments it can decode from
  the events it recognises, in order, records one root per commitment and moves the cursor to
  the RPC's newest ledger; a failed request, an RPC error or an empty answer changes nothing.\<close>

lemma poll_indexes_page:
  assumes rep: "state_rep c k depth s xs"
  shows "(case poll_events c k get_latest get_events s of
      Inl f \<Rightarrow> f = Err RequestFailed \<and> listener_turn c k get_latest get_events s = Inr s
    | Inr (n, s') \<Rightarrow> listener_turn c k get_latest get_events s = Inr s' \<and>
        (s' = s \<and> n = 0 \<or>
         (\<exists>start page. poll_start get_latest s = Inr start \<and>
            Option.bind (get_events start) rr_result = Some page \<and> n = length (indexed k (ger_events page)) \<and>
            state_rep c k depth s' (xs @ indexed k (ger_events page)) \<and> st_last_ledger s' = ger_latest_ledger page)))"
proof (cases "poll_start get_latest s")
  case (Inl f)
  then show ?thesis
    by (auto simp: poll_events_def listener_turn_def poll_start_def Let_def split: if_splits option.splits)
next
  case (Inr start)
  show ?thesis
  proof (cases "get_events start")
    case None
    with Inr show ?thesis by (simp add: poll_events_def listener_turn_def)
  next
    case (Some resp)
    show ?thesis
    proof (cases "rr_error resp = None \<and> rr_result resp \<noteq> None")
      case False
      with Inr Some show ?thesis by (auto simp: poll_events_def listener_turn_def split: option.splits)
    next
      case True
      then obtain evs latest where resp: "resp = \<lparr>rr_result = Some \<lparr>ger_events = evs, ger_latest_ledger = latest\<rparr>, rr_error = None\<rparr>"
        by (cases resp) (auto, metis GetEventsResult.cases)
      obtain s' where "poll_events c k get_latest get_events s = Inr (length (indexed k evs), s')"
        "state_rep c k depth s' (xs @ indexed k evs)" "st_last_ledger s' = latest"
        using poll_events_rep [OF rep Inr, of get_events evs latest] Some resp by blast
      with Inr Some resp show ?thesis by (auto simp: listener_turn_def)
    qed
  qed
qed

text \<open>A page of an RPC, and the RPC's answer to the request itself.\<close>

definition rpc_answer :: "EventEntry list \<Rightarrow> u32 \<Rightarrow> u32 \<Rightarrow> RpcResponse option" where
  "rpc_answer chain latest start =
     Some \<lparr>rr_result = Some \<lparr>ger_events = rpc_page chain start, ger_latest_ledger = latest\<rparr>, rr_error = None\<rparr>"

definition honest_rpc :: "EventEntry list \<Rightarrow> u32 \<Rightarrow> RpcRequest \<Rightarrow> RpcResponse option" where
  "honest_rpc chain latest request =
     (case (json_index ''startLedger'' (rpc_params request), json_index ''limit'' (json_index ''pagination'' (rpc_params request))) of
        (JNumber start, JNumber limit) \<Rightarrow>
          Some \<lparr>rr_result = Some \<lparr>ger_events = take (nat limit) (filter (\<lambda>ev. start \<le> uint (ev_ledger ev)) chain),
                 ger_latest_ledger = latest\<rparr>, rr_error = None\<rparr>
      | _ \<Rightarrow> None)"

text \<open>What the listener asks for is a page of 1000 events.\<close>

lemma honest_rpc_page: "honest_rpc chain latest (events_request cid start) = rpc_answer chain latest start"
  by (simp add: honest_rpc_def events_request_def json_index_def json_get_def rpc_answer_def rpc_page_def word_le_def)

lemma listener_turn_honest:
  "listener_turn_rpc c k post (honest_rpc chain latest) s =
   listener_turn c k (post latest_ledger_request) (rpc_answer chain latest) s"
  by (simp add: listener_turn_rpc_def honest_rpc_page)

text \<open>The page limit loses deposits for good: if more than 1000 events lie between the
  cursor and the newest ledger, a poll takes the first 1000 and moves the cursor past all of
  them; the next poll asks only for later events, so the rest is never indexed and the tree no
  longer mirrors the chain.\<close>

lemma page_limit_loses_events:
  assumes rep: "state_rep c k depth s xs" and cursor: "st_last_ledger s \<noteq> 0" "st_last_ledger s \<noteq> - 1"
    and seen: "\<forall>ev\<in>set chain. ev_ledger ev \<le> latest" and later: "\<forall>ev\<in>set new. latest < ev_ledger ev"
    and latest: "latest \<noteq> 0" "latest \<noteq> - 1"
  shows "\<exists>s1 s2. listener_turn_rpc c k post (honest_rpc chain latest) s = Inr s1 \<and>
    listener_turn_rpc c k post (honest_rpc (chain @ new) latest') s1 = Inr s2 \<and>
    state_rep c k depth s2 (xs @ indexed k (take 1000 (filter (\<lambda>ev. st_last_ledger s < ev_ledger ev) chain))
      @ indexed k (take 1000 new))"
proof -
  let ?lt = "post latest_ledger_request"
  let ?page = "take 1000 (filter (\<lambda>ev. st_last_ledger s < ev_ledger ev) chain)"
  have start: "poll_start ?lt s = Inr (st_last_ledger s + 1)" using cursor by (simp add: poll_start_def)
  have page: "rpc_page chain (st_last_ledger s + 1) = ?page"
    by (simp add: rpc_page_def after_ledger [OF cursor(2)])
  obtain s1 where s1: "poll_events c k ?lt (rpc_answer chain latest) s = Inr (length (indexed k ?page), s1)"
    "state_rep c k depth s1 (xs @ indexed k ?page)" "st_last_ledger s1 = latest"
    using poll_events_rep [OF rep start, of "rpc_answer chain latest" ?page latest] by (auto simp: rpc_answer_def page)
  have start1: "poll_start ?lt s1 = Inr (latest + 1)" using s1(3) latest by (simp add: poll_start_def)
  have "filter (\<lambda>ev. latest < ev_ledger ev) chain = []" "filter (\<lambda>ev. latest < ev_ledger ev) new = new"
    using seen later by (auto simp: filter_empty_conv not_less)
  then have page1: "rpc_page (chain @ new) (latest + 1) = take 1000 new"
    by (simp add: rpc_page_def after_ledger [OF latest(2)])
  obtain s2 where s2: "poll_events c k ?lt (rpc_answer (chain @ new) latest') s1 = Inr (length (indexed k (take 1000 new)), s2)"
    "state_rep c k depth s2 ((xs @ indexed k ?page) @ indexed k (take 1000 new))"
    using poll_events_rep [OF s1(2) start1, of "rpc_answer (chain @ new) latest'" "take 1000 new" latest']
    by (auto simp: rpc_answer_def page1)
  with s1 show ?thesis unfolding listener_turn_honest by (auto simp: listener_turn_def)
qed

definition demo_event :: "u32 \<Rightarrow> nat \<Rightarrow> EventEntry" where
  "demo_event l n = \<lparr>ev_type = ''contract'', ev_ledger = l, ev_topic = [JString ''deposit''],
     ev_value = JString (demo_hex_encode (array_list (be_array n :: bytes32)))\<rparr>"

text \<open>What the RPC returns for the topics of the pool's two events: the base64 text of the XDR
  string values \<open>"deposit"\<close> and \<open>"withdrawal"\<close> (type 14, length, characters, padding).\<close>

definition rpc_topic :: "PoolEvent \<Rightarrow> json" where
  "rpc_topic ev = (case ev of
     DepositEvent _ _ \<Rightarrow> JString ''AAAADgAAAAdkZXBvc2l0AA==''
   | WithdrawalEvent _ \<Rightarrow> JString ''AAAADgAAAAp3aXRoZHJhd2FsAAA='')"

lemma rpc_topic_no_deposit: "ev_topic ev = [rpc_topic pe] \<Longrightarrow> \<not> is_deposit_event ev"
  by (cases pe) (simp_all add: is_deposit_event_def json_as_str_def rpc_topic_def)

text \<open>The events of the contract are never indexed: the RPC returns topics as base64 XDR,
  in which the listener's search for \<open>deposit\<close> finds nothing; a page of the pool's events,
  deposits included, changes nothing but the cursor, which moves past them.\<close>

lemma contract_page_moves_cursor:
  assumes start: "poll_start lt s = Inr start"
    and page: "get_events start = Some \<lparr>rr_result = Some \<lparr>ger_events = evs, ger_latest_ledger = latest\<rparr>, rr_error = None\<rparr>"
    and topics: "\<forall>ev\<in>set evs. \<exists>pe. ev_topic ev = [rpc_topic pe]"
  shows "listener_turn c k lt get_events s = Inr (update_last_ledger latest s)"
proof -
  have "process_events c k evs n s' = Inr (n, s')" for n s'
    using topics rpc_topic_no_deposit by (induction evs) auto
  then show ?thesis by (simp add: listener_turn_def poll_events_def start page)
qed

text \<open>The XDR encoding of the event value \<open>(commitment, leaf_index)\<close>: a vector (16) of two
  values, a byte string (13) of length 32 and a 32-bit unsigned integer (3).\<close>

definition xdr_deposit_value :: "bytes32 \<Rightarrow> u32 \<Rightarrow> u8 list" where
  "xdr_deposit_value commitment leaf_index =
     [0, 0, 0, 16, 0, 0, 0, 1, 0, 0, 0, 2, 0, 0, 0, 13, 0, 0, 0, 32] @ array_list commitment @
     [0, 0, 0, 3] @ to_be_bytes 4 (unat leaf_index)"

text \<open>From the XDR of a deposit event the fallback decoder takes the wrong 32 bytes: 12
  bytes of type tags and lengths and only the first 20 bytes of the commitment.\<close>

lemma xdr_decoder_misreads_commitment:
  assumes "base64_decode k text = Some (xdr_deposit_value x i)"
  shows "decode_commitment_from_xdr k text =
    Some (array_of ([0, 0, 0, 2, 0, 0, 0, 13, 0, 0, 0, 32] @ take 20 (array_list x)))"
  using assms by (simp add: decode_commitment_from_xdr_def xdr_deposit_value_def)

subsection \<open>Restarts\<close>

text \<open>(C29) Restarts of an indexer that starts on an empty database, in front of an RPC that answers about
  a chain without two equal commitments and with at most \<open>2 ^ 31\<close> of them. However polls, the
  statements of all tasks and restarts interleave, as long as no statement fails, no restart
  interrupts a task and no write of the cursor overtakes an earlier one: no commitment is indexed
  twice, every row of the table is a leaf of the tree at its position, and a restart with no
  statement outstanding brings back the cursor and exactly the leaves, in order, while the root history
  starts again from the empty tree's root.\<close>

theorem orderly_restart_keeps_leaves:
  assumes start: "restart c k cid d depth empty_database = Inr s0"
    and run: "index_steps False c k cid d depth (chain_rpc chain) \<lparr>sys_state = s0, sys_db = empty_database\<rparr> w"
    and chain: "distinct (indexed k chain)" "length (indexed k chain) \<le> 2 ^ 31"
  shows "distinct (sys_leaves w) \<and>
    (\<forall>(i, bs) \<in> set (commitments (sys_db w)).
      \<exists>n<length (sys_leaves w). i = word_of_nat n \<and> bs = array_list (sys_leaves w ! n)) \<and>
    (quiescent w \<longrightarrow> (\<exists>s. restart c k cid d depth (sys_db w) = Inr s \<and>
      mtree_rep c depth (st_tree s) (sys_leaves w) \<and> st_last_ledger s = st_last_ledger (sys_state w) \<and>
      st_roots s = root_entries c k depth []))"
proof -
  obtain xs where inv: "orderly_inv c k depth chain w xs" using orderly_run [OF run orderly_inv_start [OF start] chain] by blast
  then have sys: "sys_inv c depth w xs" and cov: "covered k chain 0 (st_last_ledger (sys_state w)) xs" and cur: "cursor_inv w"
    by (simp_all add: orderly_inv_def)
  then have xs: "sys_leaves w = xs" using sys_leaves_rep by (auto simp: sys_inv_def)
  have cursor: "st_last_ledger (sys_state w) = db_get_last_ledger (sys_db w)" if "quiescent w"
    using cur quiescent_concat [OF that] by (simp only: cursor_inv_def ledgers_of_simps last.simps) simp
  from restart_rep [OF restart_ok_depth [OF start], of c k cid d "sys_db w"] quiescent_rows [OF sys] rows_are_leaves [OF sys]
    covered_length(1) [OF cov] cursor
  show ?thesis unfolding xs by auto
qed

definition demo_sys :: indexer_sys where
  "demo_sys = \<lparr>sys_state = state_after blank_state (restart demo_host demo_codec ''CPOOL'' 100 2 empty_database),
     sys_db = empty_database\<rparr>"

lemma depth_2: "(2 :: u32) \<noteq> - 1"
  by (simp add: word_unat_eq_iff unsigned_minus_1_eq_mask mask_eq_exp_minus_1)

lemma demo_restart: "restart demo_host demo_codec ''CPOOL'' 100 2 empty_database = Inr (sys_state demo_sys)"
  "st_last_ledger (sys_state demo_sys) = 0" "st_spawned (sys_state demo_sys) = []"
  using restart_rep [OF depth_2, of demo_host demo_codec "''CPOOL''" 100 empty_database]
  by (auto simp: demo_sys_def state_after_def db_get_last_ledger_def empty_database_def)

text \<open>A poll gets two deposits, the tasks run to their end, and the restart has both leaves.\<close>

lemma demo_trim_hex: "trim_0x (demo_hex_encode bs) = demo_hex_encode bs"
  using demo_hex_laws by (intro trim_hex) (simp add: hex_laws_def demo_codec_def)

lemma demo_indexed: "indexed demo_codec [demo_event 7 1, demo_event 7 2] = [be_array 1, be_array 2]"
proof -
  have "is_deposit_event (demo_event l n)" for l n by (simp add: is_deposit_event_def demo_event_def json_as_str_def)
  moreover have "extract_commitment demo_codec (demo_event l n) = Some (be_array n)" for l n
    by (simp add: extract_commitment_def demo_event_def json_as_str_def hex_commitment_def demo_codec_def demo_trim_hex demo_hex_roundtrip)
  ultimately show ?thesis by simp
qed

lemma demo_asks: "poll_start (Some JNull) (sys_state demo_sys) = Inr 0"
  by (simp add: poll_start_def demo_restart json_index_def json_get_def json_as_u64_def Let_def word_le_nat_alt)

lemma demo_page: "rpc_page [demo_event 7 1, demo_event 7 2] 0 = [demo_event 7 1, demo_event 7 2]"
  "up_to 7 [demo_event 7 1, demo_event 7 2] = [demo_event 7 1, demo_event 7 2]"
  by (simp_all add: rpc_page_def up_to_def demo_event_def)

definition demo_answer :: "u32 \<Rightarrow> RpcResponse option" where
  "demo_answer start = (if start \<le> 7 then rpc_answer [demo_event 7 1, demo_event 7 2] 7 start else None)"

lemma demo_answer_chain: "chain_rpc [demo_event 7 1, demo_event 7 2] (lt, demo_answer)"
  by (auto simp: chain_rpc_def demo_answer_def rpc_answer_def demo_page(2) simp del: One_nat_def split: if_splits)

lemma orderly_restart_keeps_leaves_witness:
  "\<exists>w s. index_steps False demo_host demo_codec ''CPOOL'' 100 2 (chain_rpc [demo_event 7 1, demo_event 7 2]) demo_sys w \<and>
     quiescent w \<and> sys_leaves w = [be_array 1, be_array 2] \<and>
     restart demo_host demo_codec ''CPOOL'' 100 2 (sys_db w) = Inr s \<and>
     mtree_rep demo_host 2 (st_tree s) [be_array 1, be_array 2] \<and> st_last_ledger s = 7"
proof -
  let ?chain = "[demo_event 7 1, demo_event 7 2]" and ?ys = "[be_array 1, be_array 2] :: bytes32 list"
  let ?page = "\<lparr>ger_events = ?chain, ger_latest_ledger = 7\<rparr>"
  have start: "restart demo_host demo_codec ''CPOOL'' 100 2 empty_database = Inr (sys_state demo_sys)" by (rule demo_restart(1))
  have sys: "demo_sys = \<lparr>sys_state = sys_state demo_sys, sys_db = empty_database\<rparr>" by (simp add: demo_sys_def)
  have s0: "mtree_rep demo_host 2 (st_tree (sys_state demo_sys)) []" "st_database (sys_state demo_sys)"
    using restart_rep [OF depth_2, of demo_host demo_codec "''CPOOL''" 100 empty_database] start
    by (auto simp: db_get_all_commitments_def empty_database_def List.map_filter_simps)
  have "demo_answer 0 = Some \<lparr>rr_result = Some ?page, rr_error = None\<rparr>" by (simp add: demo_answer_def rpc_answer_def demo_page del: One_nat_def)
  from listener_turn_page [where k = demo_codec and get_events = demo_answer, OF s0(1) demo_asks this] obtain s1 where
    turn: "listener_turn demo_host demo_codec (Some JNull) demo_answer (sys_state demo_sys) = Inr s1"
    and s1: "mtree_rep demo_host 2 (st_tree s1) ?ys" "st_last_ledger s1 = 7"
      "st_spawned s1 = [SetLastLedger 7] # insert_tasks demo_host 2 [] ?ys"
    using s0(2) demo_restart(3) by (auto simp: demo_indexed simp del: indexed_simps insert_tasks.simps One_nat_def)
  let ?w1 = "demo_sys\<lparr>sys_state := s1\<rparr>"
  have step: "index_step False demo_host demo_codec ''CPOOL'' 100 2 (chain_rpc ?chain) demo_sys ?w1"
    by (rule index_step.poll [where get_latest = "Some JNull" and get_events = demo_answer]) (rule demo_answer_chain, rule turn)
  have "db_tasks ?w1 = [] @ db_tasks ?w1" by simp
  from run_tasks [OF this, of False demo_host demo_codec "''CPOOL''" 100 2 "chain_rpc ?chain"] obtain w where
    steps: "index_steps False demo_host demo_codec ''CPOOL'' 100 2 (chain_rpc ?chain) ?w1 w"
    and w: "sys_state w = s1\<lparr>st_spawned := map (\<lambda>_. []) (db_tasks ?w1)\<rparr>"
    by (auto simp: no_cursor_def)
  have run: "index_steps False demo_host demo_codec ''CPOOL'' 100 2 (chain_rpc ?chain) demo_sys w"
    by (rule index_steps_one [OF step steps])
  have quiet: "quiescent w" by (simp add: quiescent_def db_tasks_def w)
  have leaves: "sys_leaves w = ?ys" using sys_leaves_rep [of demo_host 2 w ?ys] s1(1) by (simp add: w)
  have run': "index_steps False demo_host demo_codec ''CPOOL'' 100 2 (chain_rpc ?chain)
      \<lparr>sys_state = sys_state demo_sys, sys_db = empty_database\<rparr> w"
    by (subst sys [symmetric]) (rule run)
  have chain: "distinct (indexed demo_codec ?chain)" "length (indexed demo_codec ?chain) \<le> 2 ^ 31"
    unfolding demo_indexed by (simp_all add: be_array_eq_iff)
  have "st_last_ledger (sys_state w) = 7" using s1(2) by (simp add: w)
  moreover obtain s where "restart demo_host demo_codec ''CPOOL'' 100 2 (sys_db w) = Inr s"
      "mtree_rep demo_host 2 (st_tree s) (sys_leaves w)" "st_last_ledger s = st_last_ledger (sys_state w)"
    using orderly_restart_keeps_leaves [OF start run' chain] quiet by blast
  ultimately show ?thesis using quiet leaves run by (intro exI [of _ w] exI [of _ s]) simp
qed

text \<open>(C30) A crash can double the leaves: the cursor and the commitments are written by tasks of
  their own, so a crash can come after the commitments of a page are stored and before the
  cursor is. The restarted indexer reads the stored leaves back and asks an honest RPC for the
  same page of the same chain again, and appends every commitment a second time.\<close>

theorem crash_doubles_leaves:
  assumes start: "restart c k cid d depth empty_database = Inr s0" and asks: "poll_start lt s0 = Inr start"
    and rpc: "rpc (lt, rpc_answer chain latest)"
    and ys: "distinct (indexed k (rpc_page chain start))" "length (indexed k (rpc_page chain start)) \<le> 2 ^ 31"
  shows "\<exists>w. index_steps True c k cid d depth rpc \<lparr>sys_state = s0, sys_db = empty_database\<rparr> w \<and>
    sys_leaves w = indexed k (rpc_page chain start) @ indexed k (rpc_page chain start)"
proof -
  let ?ys = "indexed k (rpc_page chain start)" and ?w0 = "\<lparr>sys_state = s0, sys_db = empty_database\<rparr>"
    and ?page = "\<lparr>ger_events = rpc_page chain start, ger_latest_ledger = latest\<rparr>"
  have answer: "rpc_answer chain latest start = Some \<lparr>rr_result = Some ?page, rr_error = None\<rparr>"
    by (simp add: rpc_answer_def)
  have depth: "depth \<noteq> - 1" by (rule restart_ok_depth [OF start])
  have s0: "mtree_rep c depth (st_tree s0) []" "st_database s0" "st_spawned s0 = []" "st_last_ledger s0 = 0"
    using restart_rep [OF depth, of c k cid d empty_database] start
    by (auto simp: db_get_all_commitments_def db_get_last_ledger_def empty_database_def List.map_filter_simps)
  obtain s1 where turn1: "listener_turn c k lt (rpc_answer chain latest) s0 = Inr s1"
    and s1: "st_spawned s1 = [SetLastLedger latest] # insert_tasks c depth [] ?ys"
    using listener_turn_page [OF s0(1) asks, where get_events = "rpc_answer chain latest", OF answer] s0 by auto
  have step1: "index_step True c k cid d depth rpc ?w0 (?w0\<lparr>sys_state := s1\<rparr>)"
    using index_step.poll [of rpc lt "rpc_answer chain latest", OF rpc, where w = ?w0 and s = s1] turn1 by simp
  let ?stmts = "concat (insert_tasks c depth [] ?ys)"
  have "db_tasks (?w0\<lparr>sys_state := s1\<rparr>) = [[SetLastLedger latest]] @ insert_tasks c depth [] ?ys"
    by (simp add: db_tasks_def s1)
  from run_tasks [OF this, of True c k cid d depth rpc] obtain w2 where
    steps2: "index_steps True c k cid d depth rpc (?w0\<lparr>sys_state := s1\<rparr>) w2"
    and db: "sys_db w2 = fold db_exec ?stmts empty_database" by auto
  have "mset (rows_of ?stmts) = mset (map (\<lambda>i. (word_of_nat i, ?ys ! i)) [0..<length ?ys])"
    by (simp add: rows_of_insert_tasks)
  then have "db_get_all_commitments (sys_db w2) = map (\<lambda>i. (word_of_nat i, ?ys ! i)) [0..<length ?ys]"
    unfolding db by (rule written_rows_read_back) (use ys in simp_all)
  then have read: "map snd (db_get_all_commitments (sys_db w2)) = ?ys" by (simp add: comp_def map_nth)
  have cursor: "db_get_last_ledger (sys_db w2) = 0"
    unfolding db by (simp add: cursor_of_insert_tasks db_get_last_ledger_def) (simp add: empty_database_def)
  obtain s3 where restart3: "restart c k cid d depth (sys_db w2) = Inr s3" and s3: "mtree_rep c depth (st_tree s3) ?ys"
      "st_last_ledger s3 = 0"
    using restart_rep [OF depth, of c k cid d "sys_db w2"] read cursor by auto
  have step3: "index_step True c k cid d depth rpc w2 (w2\<lparr>sys_state := s3\<rparr>)"
    by (rule index_step.restarts [OF _ restart3]) simp
  have "poll_start lt s3 = Inr start" using asks s0(4) s3(2) by (simp add: poll_start_def)
  from listener_turn_page [OF s3(1) this, where get_events = "rpc_answer chain latest", OF answer] obtain s4 where
    turn4: "listener_turn c k lt (rpc_answer chain latest) s3 = Inr s4" and s4: "mtree_rep c depth (st_tree s4) (?ys @ ?ys)" by auto
  have step4: "index_step True c k cid d depth rpc (w2\<lparr>sys_state := s3\<rparr>) (w2\<lparr>sys_state := s4\<rparr>)"
    using index_step.poll [of rpc lt "rpc_answer chain latest", OF rpc, where w = "w2\<lparr>sys_state := s3\<rparr>" and s = s4] turn4 by simp
  have "index_steps True c k cid d depth rpc ?w0 (w2\<lparr>sys_state := s4\<rparr>)"
    by (rule index_steps_one [OF step1 rtranclp_trans [OF steps2
          index_steps_one [OF step3 index_steps_one [OF step4 rtranclp.rtrancl_refl]]]])
  moreover have "sys_leaves (w2\<lparr>sys_state := s4\<rparr>) = ?ys @ ?ys" using sys_leaves_rep [of c depth "w2\<lparr>sys_state := s4\<rparr>"] s4 by simp
  ultimately show ?thesis by blast
qed

lemma crash_doubles_leaves_witness:
  "\<exists>w. index_steps True demo_host demo_codec ''CPOOL'' 100 2 (\<lambda>_. True) demo_sys w \<and>
    sys_leaves w = [be_array 1, be_array 2, be_array 1, be_array 2]"
proof -
  show ?thesis
    using crash_doubles_leaves [OF demo_restart(1) demo_asks, of "\<lambda>_. True" "[demo_event 7 1, demo_event 7 2]" 7]
    unfolding demo_page demo_indexed by (simp add: be_array_eq_iff demo_sys_def)
qed

text \<open>A lost write shifts the tree: the writes are separate tasks, and a crash (or a
  logged failure) can lose one while the cursor is already stored past it. The restart then
  closes the gap: every later commitment moves one position to the left, so the restored tree
  is that of a different list of leaves, and nothing re-reads the missing one.\<close>

lemma lost_write_shifts_leaves:
  assumes depth: "depth \<noteq> - 1" and dist: "distinct xs" and small: "length xs \<le> 2 ^ 31" and j: "j < length xs"
    and run: "mset (rows_of stmts) + {#(word_of_nat j, xs ! j)#} = mset (rows_of (concat (insert_tasks c depth [] xs)))"
    and ledger: "stmts = stmts' @ [SetLastLedger l]"
  shows "\<exists>s. restart c k cid d depth (fold db_exec stmts empty_database) = Inr s \<and>
    mtree_rep c depth (st_tree s) (take j xs @ drop (Suc j) xs) \<and> st_last_ledger s = l"
proof -
  let ?is = "[0..<j] @ [Suc j..<length xs]"
  have split: "[0..<length xs] = [0..<j] @ j # [Suc j..<length xs]"
    using j by (metis le0 less_imp_le upt_add_eq_append upt_conv_Cons le_add_diff_inverse add_0)
  have "mset (rows_of stmts) = mset (map (\<lambda>i. (word_of_nat i, xs ! i)) ?is)"
    using run unfolding rows_of_insert_tasks by (simp add: split)
  then have all: "db_get_all_commitments (fold db_exec stmts empty_database) = map (\<lambda>i. (word_of_nat i, xs ! i)) ?is"
    by (rule written_rows_read_back) (use dist small j in \<open>auto simp: sorted_append\<close>)
  have "map (\<lambda>i. xs ! i) ?is = take j xs @ drop (Suc j) xs"
    using j by (auto simp: nth_append intro!: nth_equalityI)
  with all have "map snd (db_get_all_commitments (fold db_exec stmts empty_database)) = take j xs @ drop (Suc j) xs"
    by (simp add: comp_def)
  moreover have "db_get_last_ledger (fold db_exec stmts empty_database) = l"
    by (simp add: ledger last_ledger_roundtrip)
  ultimately show ?thesis
    using restart_rep [OF depth, of c k cid d "fold db_exec stmts empty_database"] by auto
qed

text \<open>The cursor survives a restart: the decimal text stored by \<open>set_last_ledger\<close> parses
  back to the same number for every 32-bit ledger.\<close>

lemma stored_ledger_roundtrip:
  "db_get_last_ledger (db_set_last_ledger l db) = l \<and> parse_u32 (u32_to_string l) = Some l"
  by (simp add: last_ledger_roundtrip parse_u32_to_string)

end
