(* ===== verification/MerkleBinding.thy ===== *)
theory MerkleBinding
  imports MerkleSpec
begin

text \<open>
  A Merkle root binds its leaves: a path that climbs from some value to a node of a tree
  either starts at the leaf of the tree in that position, or it shows two different pairs
  with the same hash. The pairs are computed from the path and the tree, since a hash into a
  finite set always has some collision.
\<close>

text \<open>The position below a node that the directions of a path select.\<close>

fun path_position :: "('d \<times> nat) list \<Rightarrow> nat" where
  "path_position [] = 0"
| "path_position ((s, b) # ps) = b + 2 * path_position ps"

fun directions_ok :: "('d \<times> nat) list \<Rightarrow> bool" where
  "directions_ok [] = True"
| "directions_ok ((s, b) # ps) = ((b = 0 \<or> b = 1) \<and> directions_ok ps)"

text \<open>The two inputs of the hash at one step of a path.\<close>

definition step_inputs :: "'d \<Rightarrow> 'd \<Rightarrow> nat \<Rightarrow> 'd \<times> 'd" where
  "step_inputs h s b = (if b = 0 then (h, s) else (s, h))"

text \<open>
  The first pair of different inputs with the same hash, from the top: \<open>nd l i\<close> is the node \<open>i\<close>
  of level \<open>l\<close>, the path starts with the value \<open>h\<close> at level \<open>l\<close> and ends below node \<open>r\<close>.
\<close>

fun path_collision :: "('d \<Rightarrow> 'd \<Rightarrow> 'd) \<Rightarrow> (nat \<Rightarrow> nat \<Rightarrow> 'd) \<Rightarrow> nat \<Rightarrow> nat \<Rightarrow> 'd \<Rightarrow> ('d \<times> nat) list \<Rightarrow>
    (('d \<times> 'd) \<times> ('d \<times> 'd)) option" where
  "path_collision H nd l r h [] = None"
| "path_collision H nd l r h ((s, b) # ps) =
     (case path_collision H nd (Suc l) r (case_prod H (step_inputs h s b)) ps of
        Some c \<Rightarrow> Some c
      | None \<Rightarrow>
          let i = r * 2 ^ length ps + path_position ps; below = (nd l (2 * i), nd l (2 * i + 1))
          in if step_inputs h s b = below then None else Some (step_inputs h s b, below))"

lemma climb_step_inputs: "climb H h ((s, b) # ps) = climb H (case_prod H (step_inputs h s b)) ps"
  by (simp add: step_inputs_def)

definition is_collision :: "('d \<Rightarrow> 'd \<Rightarrow> 'd) \<Rightarrow> ('d \<times> 'd) \<times> ('d \<times> 'd) \<Rightarrow> bool" where
  "is_collision H pq \<longleftrightarrow> fst pq \<noteq> snd pq \<and> case_prod H (fst pq) = case_prod H (snd pq)"

lemma path_position_less: "directions_ok ps \<Longrightarrow> path_position ps < 2 ^ length ps"
  by (induction ps rule: path_position.induct) auto

lemma path_binds:
  assumes "\<And>l i. nd (Suc l) i = H (nd l (2 * i)) (nd l (2 * i + 1))"
    and "climb H h ps = nd (l + length ps) r" and "directions_ok ps"
  shows "case path_collision H nd l r h ps of
      None \<Rightarrow> h = nd l (r * 2 ^ length ps + path_position ps)
    | Some pq \<Rightarrow> is_collision H pq"
  using assms(2,3)
proof (induction ps arbitrary: h l)
  case Nil
  then show ?case by simp
next
  case (Cons p ps)
  obtain s b where p: "p = (s, b)" by (cases p)
  let ?in = "step_inputs h s b" and ?i = "r * 2 ^ length ps + path_position ps"
  let ?below = "(nd l (2 * ?i), nd l (2 * ?i + 1))"
  have "climb H (case_prod H ?in) ps = nd (Suc l + length ps) r"
    using Cons.prems(1) by (simp add: p climb_step_inputs del: climb.simps)
  note IH = Cons.IH [OF this] Cons.prems(2)
  show ?case
  proof (cases "path_collision H nd (Suc l) r (case_prod H ?in) ps")
    case (Some c)
    then show ?thesis using IH by (simp add: p)
  next
    case None
    then have up: "case_prod H ?in = case_prod H ?below" using IH by (simp add: p assms(1))
    show ?thesis
    proof (cases "?in = ?below")
      case False
      then show ?thesis using None up by (auto simp: p Let_def is_collision_def)
    next
      case True
      then have "h = nd l (2 * ?i + b)"
        using Cons.prems(2) by (auto simp: p step_inputs_def split: if_splits)
      then show ?thesis using None True by (simp add: p Let_def algebra_simps)
    qed
  qed
qed

text \<open>For the tree of a list of leaves.\<close>

lemma root_path_binds:
  assumes "climb H h ps = node H z xs (length ps) 0" and "directions_ok ps"
  shows "case path_collision H (node H z xs) 0 0 h ps of
      None \<Rightarrow> h = node H z xs 0 (path_position ps)
    | Some pq \<Rightarrow> is_collision H pq"
  using path_binds [where H = H and h = h and nd = "node H z xs" and l = 0 and r = 0, OF node.simps(2) _ assms(2)] assms(1)
  by (cases "path_collision H (node H z xs) 0 0 h ps") (simp_all del: node.simps)

subsection \<open>Two trees with one root\<close>

text \<open>
  Below two equal nodes the two trees hold the same leaves, or the first pair of different
  children, from the top and from the left, is a collision.
\<close>

fun tree_collision :: "('d \<Rightarrow> 'd \<Rightarrow> 'd) \<Rightarrow> 'd \<Rightarrow> 'd list \<Rightarrow> 'd list \<Rightarrow> nat \<Rightarrow> nat \<Rightarrow> (('d \<times> 'd) \<times> ('d \<times> 'd)) option" where
  "tree_collision H z xs ys 0 i = None"
| "tree_collision H z xs ys (Suc l) i =
     (let p = (node H z xs l (2 * i), node H z xs l (2 * i + 1)); q = (node H z ys l (2 * i), node H z ys l (2 * i + 1))
      in if p \<noteq> q then Some (p, q)
         else case tree_collision H z xs ys l (2 * i) of
           Some c \<Rightarrow> Some c
         | None \<Rightarrow> tree_collision H z xs ys l (2 * i + 1))"

lemma div_two_power_children:
  "(j :: nat) div 2 ^ Suc l = i \<Longrightarrow> j div 2 ^ l = 2 * i \<or> j div 2 ^ l = 2 * i + 1"
proof -
  have "j div 2 ^ Suc l = j div 2 ^ l div 2" by (simp add: div_two_power_Suc)
  then show "j div 2 ^ Suc l = i \<Longrightarrow> j div 2 ^ l = 2 * i \<or> j div 2 ^ l = 2 * i + 1" by linarith
qed

lemma root_binds_leaves:
  assumes "node H z xs l i = node H z ys l i"
  shows "case tree_collision H z xs ys l i of
      None \<Rightarrow> (\<forall>j. j div 2 ^ l = i \<longrightarrow> node H z xs 0 j = node H z ys 0 j)
    | Some pq \<Rightarrow> is_collision H pq"
  using assms
proof (induction l arbitrary: i)
  case 0
  then show ?case by (simp del: node.simps)
next
  case (Suc l)
  let ?child = "\<lambda>xs k. node H z xs l k"
  show ?case
  proof (cases "(?child xs (2 * i), ?child xs (2 * i + 1)) = (?child ys (2 * i), ?child ys (2 * i + 1))")
    case False
    then show ?thesis using Suc.prems by (simp add: is_collision_def del: node.simps(1))
  next
    case True
    then have eq: "?child xs (2 * i) = ?child ys (2 * i)" "?child xs (2 * i + 1) = ?child ys (2 * i + 1)" by simp_all
    show ?thesis
      using Suc.IH [OF eq(1)] Suc.IH [OF eq(2)] True div_two_power_children [of _ l i]
      by (auto simp: Let_def simp del: node.simps power_Suc split: option.splits)
  qed
qed

end
