(* ===== verification/Circuit.thy ===== *)
theory Circuit
  imports MerkleBinding PoolMerkle
begin

text \<open>
  The withdrawal circuit: \<open>circuits/merkle.circom\<close> and \<open>circuits/withdraw.circom\<close>, as the
  constraints their signals satisfy over a field, and what a satisfying assignment says about
  the tree of the pool. circomlib's \<open>Poseidon(1)\<close> and \<open>Poseidon(2)\<close>, which the repository does
  not hold, are the parameters \<open>P1\<close> and \<open>P2\<close>.
\<close>

subsection \<open>The templates\<close>

text \<open>
  \<open>MerkleProof(depth)\<close>: the signal \<open>hashes[i]\<close> is the running argument, the path signals are
  consumed one level at a time; the direction is constrained to be binary, the two inputs of
  the hash are selected by it.
\<close>

fun circuit_merkle_proof :: "('fr \<Rightarrow> 'fr \<Rightarrow> 'fr) \<Rightarrow> 'fr \<Rightarrow> ('fr::comm_ring_1 \<times> 'fr) list \<Rightarrow> 'fr \<Rightarrow> bool" where
  "circuit_merkle_proof P2 hash [] root \<longleftrightarrow> root = hash"
| "circuit_merkle_proof P2 hash ((path_element, path_index) # path) root \<longleftrightarrow>
     path_index * (1 - path_index) = 0 \<and>
     circuit_merkle_proof P2
       (P2 (hash + (path_element - hash) * path_index) (path_element + (hash - path_element) * path_index))
       path root"

record 'fr signals =
  sg_root :: 'fr
  sg_nullifier_hash :: 'fr
  sg_recipient :: 'fr
  sg_relayer :: 'fr
  sg_fee :: 'fr
  sg_secret :: 'fr
  sg_nullifier :: 'fr
  sg_path_elements :: "'fr list"
  sg_path_indices :: "'fr list"
  sg_recipient_square :: 'fr
  sg_relayer_square :: 'fr
  sg_fee_square :: 'fr

text \<open>\<open>Withdraw(depth)\<close>\<close>

definition circuit_withdraw :: "('fr \<Rightarrow> 'fr) \<Rightarrow> ('fr \<Rightarrow> 'fr \<Rightarrow> 'fr) \<Rightarrow> nat \<Rightarrow> 'fr::comm_ring_1 signals \<Rightarrow> bool" where
  "circuit_withdraw P1 P2 depth s \<longleftrightarrow>
     length (sg_path_elements s) = depth \<and> length (sg_path_indices s) = depth \<and>
     (let commitment = P2 (sg_secret s) (sg_nullifier s) in
      sg_nullifier_hash s = P1 (sg_nullifier s) \<and>
      circuit_merkle_proof P2 commitment (zip (sg_path_elements s) (sg_path_indices s)) (sg_root s)) \<and>
     sg_recipient_square s = sg_recipient s * sg_recipient s \<and>
     sg_relayer_square s = sg_relayer s * sg_relayer s \<and>
     sg_fee_square s = sg_fee s * sg_fee s"

text \<open>\<open>component main {public [root, nullifierHash, recipient, relayer, fee]} = Withdraw(20)\<close>\<close>

definition circuit_public :: "'fr signals \<Rightarrow> 'fr list" where
  "circuit_public s = [sg_root s, sg_nullifier_hash s, sg_recipient s, sg_relayer s, sg_fee s]"

definition circuit_depth :: nat where "circuit_depth = 20"

definition circuit_main :: "('fr \<Rightarrow> 'fr) \<Rightarrow> ('fr \<Rightarrow> 'fr \<Rightarrow> 'fr) \<Rightarrow> 'fr::comm_ring_1 signals \<Rightarrow> bool" where
  "circuit_main P1 P2 s \<longleftrightarrow> circuit_withdraw P1 P2 circuit_depth s"

subsection \<open>The path constraints are the climb\<close>

text \<open>A field element as a direction.\<close>

definition direction :: "'fr::zero_neq_one \<Rightarrow> nat" where
  "direction b = (if b = 0 then 0 else 1)"

definition as_path :: "('fr::zero_neq_one \<times> 'fr) list \<Rightarrow> ('fr \<times> nat) list" where
  "as_path ps = map (\<lambda>(e, b). (e, direction b)) ps"

lemma as_path_simps [simp]:
  "as_path [] = []" "as_path ((e, b) # ps) = (e, direction b) # as_path ps" "length (as_path ps) = length ps"
  by (simp_all add: as_path_def)

lemma as_path_directions: "directions_ok (as_path ps)"
  by (induction ps) (auto simp: direction_def)

lemma circuit_merkle_proofI:
  "\<forall>b\<in>snd ` set ps. b = 0 \<or> b = 1 \<Longrightarrow> root = climb P2 h (as_path ps) \<Longrightarrow> circuit_merkle_proof P2 h ps root"
proof (induction P2 h ps root rule: circuit_merkle_proof.induct)
  case (1 P2 hash root)
  then show ?case by simp
next
  case (2 P2 hash e b ps root)
  then show ?case using 2 by (auto simp: direction_def)
qed

text \<open>Without zero divisors a direction is zero or one.\<close>

lemma circuit_merkle_proof_iff:
  fixes h :: "'fr::idom"
  shows "circuit_merkle_proof P2 h ps root \<longleftrightarrow>
     (\<forall>(e, b)\<in>set ps. b = 0 \<or> b = 1) \<and> root = climb P2 h (as_path ps)"
proof (induction P2 h ps root rule: circuit_merkle_proof.induct)
  case (1 P2 hash root)
  then show ?case by simp
next
  case (2 P2 hash e b ps root)
  have "b * (1 - b) = 0 \<longleftrightarrow> b = 0 \<or> b = 1" by auto
  then show ?case using 2 by (auto simp: direction_def)
qed

subsection \<open>The tree of the contract in field elements\<close>

text \<open>What the circuit and the contract share of arkworks' conversions: a written element has 32
  bytes and reads back as itself.\<close>

definition fr_roundtrip :: "('fr, 'c) field_crypto_scheme \<Rightarrow> bool" where
  "fr_roundtrip c \<longleftrightarrow> (\<forall>x. length (fr_to_bytes_le c x) = 32 \<and> fr_from_le_bytes_mod_order c (fr_to_bytes_le c x) = x)"

lemma fr_laws_roundtrip: "fr_laws c \<Longrightarrow> fr_roundtrip c"
  by (simp add: fr_laws_def fr_roundtrip_def)

lemma fr_written_reads_back: "fr_roundtrip c \<Longrightarrow> bytes_to_fr c (fr_to_bytes c x) = x"
  by (simp add: fr_roundtrip_def bytes_to_fr_def fr_to_bytes_eq)

text \<open>The value of an empty leaf.\<close>

definition empty_leaf_fr :: "('fr, 'c) field_crypto_scheme \<Rightarrow> 'fr" where
  "empty_leaf_fr c = poseidon1 c (bytes_to_fr c (array_of (replicate 32 0)))"

lemma tree_node_fr:
  assumes "fr_roundtrip c"
  shows "bytes_to_fr c (tree_node c xs l i) = node (poseidon2 c) (empty_leaf_fr c) (map (bytes_to_fr c) xs) l i"
proof (induction l arbitrary: i)
  case 0
  show ?case
    by (simp add: zero_leaf_def hash_single_bytes_def hash_single_def empty_leaf_fr_def fr_written_reads_back [OF assms])
next
  case (Suc l)
  then show ?case
    by (simp add: hash_pair_bytes_def hash_pair_def Let_def fr_written_reads_back [OF assms])
qed

lemma climb_fr:
  assumes "fr_roundtrip c"
  shows "bytes_to_fr c (climb (hash_pair_bytes c) h ps) =
    climb (poseidon2 c) (bytes_to_fr c h) (map (\<lambda>(e, b). (bytes_to_fr c e, b)) ps)"
  by (induction "hash_pair_bytes c" h ps rule: climb.induct)
    (auto simp: hash_pair_bytes_def hash_pair_def Let_def fr_written_reads_back [OF assms])

subsection \<open>What a satisfying assignment proves\<close>

text \<open>The collision a path shows against the tree of the leaves \<open>xs\<close>, if it shows one.\<close>

definition signals_collision :: "('fr::idom, 'c) field_crypto_scheme \<Rightarrow> bytes32 list \<Rightarrow> 'fr signals \<Rightarrow>
    (('fr \<times> 'fr) \<times> ('fr \<times> 'fr)) option" where
  "signals_collision c xs s =
     path_collision (poseidon2 c) (node (poseidon2 c) (empty_leaf_fr c) (map (bytes_to_fr c) xs)) 0 0
       (poseidon2 c (sg_secret s) (sg_nullifier s)) (as_path (zip (sg_path_elements s) (sg_path_indices s)))"

text \<open>The position in the tree the directions select.\<close>

definition signals_position :: "'fr::idom signals \<Rightarrow> nat" where
  "signals_position s = path_position (as_path (zip (sg_path_elements s) (sg_path_indices s)))"

lemma signals_open:
  assumes law: "fr_roundtrip c" and sat: "circuit_withdraw (poseidon1 c) (poseidon2 c) depth s"
    and root: "sg_root s = bytes_to_fr c (tree_root c depth xs)"
  shows "case signals_collision c xs s of
      Some pq \<Rightarrow> is_collision (poseidon2 c) pq
    | None \<Rightarrow> signals_position s < 2 ^ depth \<and>
        (if signals_position s < length xs
         then bytes_to_fr c (xs ! signals_position s) = poseidon2 c (sg_secret s) (sg_nullifier s)
         else empty_leaf_fr c = poseidon2 c (sg_secret s) (sg_nullifier s))"
proof -
  let ?path = "as_path (zip (sg_path_elements s) (sg_path_indices s))"
  have len: "length ?path = depth" using sat by (simp add: circuit_withdraw_def)
  have "climb (poseidon2 c) (poseidon2 c (sg_secret s) (sg_nullifier s)) ?path =
      node (poseidon2 c) (empty_leaf_fr c) (map (bytes_to_fr c) xs) (length ?path) 0"
    using sat root unfolding len by (simp add: circuit_withdraw_def circuit_merkle_proof_iff tree_node_fr [OF law])
  from root_path_binds [OF this as_path_directions] show ?thesis
    using path_position_less [OF as_path_directions, of "zip (sg_path_elements s) (sg_path_indices s)"] len
    by (auto simp: signals_collision_def signals_position_def split: option.splits)
qed

subsection \<open>The assignment of an honest client\<close>

text \<open>The signals a client sets from its note, the path it was served and the public inputs.\<close>

definition honest_signals :: "('fr::comm_ring_1, 'c) field_crypto_scheme \<Rightarrow> 'fr \<Rightarrow> 'fr \<Rightarrow> bytes32 \<Rightarrow> bytes32 list \<Rightarrow> u32 list \<Rightarrow>
    bytes32 list \<Rightarrow> 'fr signals" where
  "honest_signals c secret nullifier root path_elements path_indices inputs =
     (let recipient = bytes_to_fr c (inputs ! 2); relayer = bytes_to_fr c (inputs ! 3); fee = bytes_to_fr c (inputs ! 4)
      in \<lparr>sg_root = bytes_to_fr c root, sg_nullifier_hash = poseidon1 c nullifier,
          sg_recipient = recipient, sg_relayer = relayer, sg_fee = fee,
          sg_secret = secret, sg_nullifier = nullifier,
          sg_path_elements = map (bytes_to_fr c) path_elements,
          sg_path_indices = map unsigned path_indices,
          sg_recipient_square = recipient * recipient, sg_relayer_square = relayer * relayer,
          sg_fee_square = fee * fee\<rparr>)"

lemma honest_signals_satisfy:
  assumes law: "fr_roundtrip c" and len: "length es = depth" "length ds = depth"
    and bits: "\<forall>d\<in>set ds. unat d = 0 \<or> unat d = 1"
    and path: "climb (hash_pair_bytes c) (fr_to_bytes c (poseidon2 c sec nul)) (zip es (map unat ds)) = root"
  shows "circuit_withdraw (poseidon1 c) (poseidon2 c) depth (honest_signals c sec nul root es ds inputs)"
proof -
  let ?fs = "map (bytes_to_fr c) es" and ?bs = "map unsigned ds :: 'a list"
  have bit: "(unsigned d :: 'a) = 0 \<and> unat d = 0 \<or> (unsigned d :: 'a) = 1 \<and> unat d = 1" if "d \<in> set ds" for d
    using bits that of_nat_unat [of d, where ?'a = 'a] by fastforce
  then have dir: "direction (unsigned d :: 'a) = unat d" if "d \<in> set ds" for d
    using that by (fastforce simp: direction_def)
  have "as_path (zip ?fs ?bs) = map (\<lambda>(e, b). (bytes_to_fr c e, b)) (zip es (map unat ds))"
    using len dir by (intro nth_equalityI) (auto simp: as_path_def)
  then have "bytes_to_fr c root = climb (poseidon2 c) (poseidon2 c sec nul) (as_path (zip ?fs ?bs))"
    unfolding path [symmetric] climb_fr [OF law] by (simp add: fr_written_reads_back [OF law])
  moreover have "\<forall>b\<in>snd ` set (zip ?fs ?bs). b = 0 \<or> b = 1"
  proof
    fix b assume "b \<in> snd ` set (zip ?fs ?bs)"
    then have "b \<in> set ?bs" by (auto dest: set_zip_rightD)
    then obtain d where "d \<in> set ds" and b: "b = unsigned d" by auto
    with bit [of d] show "b = 0 \<or> b = 1" unfolding b by argo
  qed
  ultimately have "circuit_merkle_proof (poseidon2 c) (poseidon2 c sec nul) (zip ?fs ?bs) (bytes_to_fr c root)"
    by (intro circuit_merkle_proofI)
  then show ?thesis
    using len by (simp add: circuit_withdraw_def honest_signals_def Let_def)
qed

end
