(* ===== verification/CircuitInstances.thy ===== *)
theory CircuitInstances
  imports Circuit Instances
begin

text \<open>
  A concrete field for the circuit, the integers modulo the prime 251, and a host over it whose
  proof system is ideal: its curve library carries the public inputs to the final check, which
  asks whether the circuit can be satisfied. The theorems of \<open>CircuitProperties\<close> are applied
  there.
\<close>

subsection \<open>The field\<close>

typedef gf = "{n :: int. 0 \<le> n \<and> n < 251}"
  by (rule exI [of _ 0]) simp

setup_lifting type_definition_gf

instantiation gf :: comm_ring_1
begin

lift_definition zero_gf :: gf is 0 by simp
lift_definition one_gf :: gf is 1 by simp
lift_definition plus_gf :: "gf \<Rightarrow> gf \<Rightarrow> gf" is "\<lambda>a b. (a + b) mod 251" by simp
lift_definition minus_gf :: "gf \<Rightarrow> gf \<Rightarrow> gf" is "\<lambda>a b. (a - b) mod 251" by simp
lift_definition uminus_gf :: "gf \<Rightarrow> gf" is "\<lambda>a. (- a) mod 251" by simp
lift_definition times_gf :: "gf \<Rightarrow> gf \<Rightarrow> gf" is "\<lambda>a b. (a * b) mod 251" by simp

instance
  by standard (transfer; simp add: mod_simps algebra_simps)+

end

lemma factors_251:
  assumes "(d :: int) * e = 251" and "0 < d"
  shows "d = 1 \<or> d = 251"
proof -
  have small: "x = 1" if "x * y = 251" "0 < x" "x \<le> 15" for x y :: int
  proof -
    have "x = 1 \<or> x = 2 \<or> x = 3 \<or> x = 4 \<or> x = 5 \<or> x = 6 \<or> x = 7 \<or> x = 8 \<or> x = 9 \<or> x = 10 \<or>
      x = 11 \<or> x = 12 \<or> x = 13 \<or> x = 14 \<or> x = 15" using that(2,3) by presburger
    then show ?thesis using that(1) by (elim disjE; hypsubst; presburger)
  qed
  have "0 < e" using assms by (smt (verit) zero_less_mult_pos)
  moreover have "\<not> (16 \<le> d \<and> 16 \<le> e)" using assms(1) mult_mono [of 16 d 16 e] by auto
  ultimately show ?thesis using small [OF assms] small [of e d] assms by (cases "d \<le> 15") (auto simp: mult.commute)
qed

lemma small_coprime_251:
  assumes "0 < (a :: int)" and "a < 251"
  shows "coprime a 251"
proof -
  obtain e where "gcd a 251 * e = 251" by (metis dvdE gcd_dvd2)
  moreover have "0 < gcd a 251" "gcd a 251 \<le> a" using assms zdvd_imp_le [of "gcd a 251" a] by simp_all
  ultimately have "gcd a 251 = 1" using factors_251 [of "gcd a 251" e] assms by linarith
  then show ?thesis by (simp add: coprime_iff_gcd_eq_1)
qed

instance gf :: idom
proof
  fix a b :: gf
  assume "a \<noteq> 0" "b \<noteq> 0"
  then show "a * b \<noteq> 0"
  proof (transfer)
    fix a b :: int
    assume *: "0 \<le> a \<and> a < 251" "0 \<le> b \<and> b < 251" "a \<noteq> 0" "b \<noteq> 0"
    then have "coprime a 251" by (intro small_coprime_251) auto
    then have "251 dvd a * b \<longleftrightarrow> 251 dvd b" by (simp add: coprime_commute coprime_dvd_mult_right_iff)
    then show "a * b mod 251 \<noteq> 0" using * zdvd_imp_le [of 251 b] by (auto simp: mod_eq_0_iff_dvd)
  qed
qed

subsection \<open>Bytes of field elements\<close>

definition gf_of :: "nat \<Rightarrow> gf" where "gf_of n = Abs_gf (int (n mod 251))"

lemma Rep_gf_of: "Rep_gf (gf_of n) = int (n mod 251)"
  unfolding gf_of_def by (rule Abs_gf_inverse) simp

lemma gf_of_Rep: "gf_of (nat (Rep_gf x)) = x"
proof -
  have "0 \<le> Rep_gf x" "Rep_gf x < 251" using Rep_gf [of x] by auto
  then have "int (nat (Rep_gf x) mod 251) = Rep_gf x" by (simp add: zmod_int)
  then show ?thesis by (simp add: gf_of_def Rep_gf_inverse)
qed

definition gf_poseidon1 :: "gf \<Rightarrow> gf" where "gf_poseidon1 x = x + gf_of 7"
definition gf_poseidon2 :: "gf \<Rightarrow> gf \<Rightarrow> gf" where "gf_poseidon2 x y = gf_of 3 * x + gf_of 5 * y + 1"

subsection \<open>The ideal host\<close>

text \<open>Over any ring with its readings of bytes and its hashes.\<close>

definition ideal_host_of :: "(nat \<Rightarrow> 'fr::comm_ring_1) \<Rightarrow> ('fr \<Rightarrow> nat) \<Rightarrow> ('fr \<Rightarrow> 'fr) \<Rightarrow> ('fr \<Rightarrow> 'fr \<Rightarrow> 'fr) \<Rightarrow>
    ('fr, unit, 'fr list, 'fr list, unit, 'fr list, demo_ledger) pool_host" where
  "ideal_host_of of_n val P1 P2 =
    \<lparr>fr_from_le_bytes_mod_order = (\<lambda>bs. of_n (le_val bs)),
     fr_to_bytes_le = (\<lambda>x. to_le_bytes 32 (val x)),
     poseidon1 = P1,
     poseidon2 = P2,
     fq_from_le_bytes_mod_order = (\<lambda>_. ()),
     g1_new_unchecked = (\<lambda>_ _. []),
     g1_is_on_curve = (\<lambda>_. True),
     g1_in_subgroup = (\<lambda>_. True),
     g1_identity = [],
     g1_neg = id,
     g1_into_projective = (\<lambda>_. []),
     g1_mul = (\<lambda>_ k. [k]),
     g1p_add = (@),
     g1p_into_affine = id,
     g2_new_unchecked = (\<lambda>_ _. ()),
     g2_is_on_curve = (\<lambda>_. True),
     g2_in_subgroup = (\<lambda>_. True),
     multi_pairing = (\<lambda>ps qs. ps ! 2),
     gt_is_zero = (\<lambda>x. \<exists>s. circuit_withdraw P1 P2 2 s \<and> x = circuit_public s),
     host_sha256 = (\<lambda>bs. be_array (be_val bs)),
     current_contract_address = pool_address,
     token_transfer = demo_transfer\<rparr>"

lemma ideal_of_self [simp]:
  "poseidon1 (ideal_host_of of_n val P1 P2) = P1" "poseidon2 (ideal_host_of of_n val P1 P2) = P2"
  "current_contract_address (ideal_host_of of_n val P1 P2) = pool_address"
  "token_transfer (ideal_host_of of_n val P1 P2) = demo_transfer"
  by (simp_all add: ideal_host_of_def)

definition ideal_host :: "(gf, unit, gf list, gf list, unit, gf list, demo_ledger) pool_host" where
  "ideal_host = ideal_host_of gf_of (\<lambda>x. nat (Rep_gf x)) gf_poseidon1 gf_poseidon2"

lemma ideal_self [simp]:
  "poseidon1 ideal_host = gf_poseidon1" "poseidon2 ideal_host = gf_poseidon2"
  "current_contract_address ideal_host = pool_address" "token_transfer ideal_host = demo_transfer"
  by (simp_all add: ideal_host_def)

lemma ideal_roundtrip: "fr_roundtrip ideal_host"
proof -
  have "le_val (to_le_bytes 32 (nat (Rep_gf x))) = nat (Rep_gf x)" for x
  proof -
    have "nat (Rep_gf x) < 251" using Rep_gf [of x] by auto
    then show ?thesis by (simp add: le_val_to_le_bytes)
  qed
  then show ?thesis by (simp add: fr_roundtrip_def ideal_host_def ideal_host_of_def gf_of_Rep)
qed

lemma ideal_of_decode:
  "decode_g1 (ideal_host_of of_n val P1 P2) p = Some []" "decode_g2 (ideal_host_of of_n val P1 P2) q = Some ()"
  by (simp_all add: decode_g1_def decode_g2_def ideal_host_of_def Let_def)

lemma ideal_of_load: "\<exists>vk. load_verification_key True (ideal_host_of of_n val P1 P2) = Some vk"
proof -
  have "\<exists>out. decode_ic (ideal_host_of of_n val P1 P2) i ps arr = Some out" for i ps arr
    by (induction ps arbitrary: i arr) (simp_all add: ideal_of_decode)
  then obtain out where "decode_ic (ideal_host_of of_n val P1 P2) 0 (raw_ic verification_key)
      (replicate (NUM_PUBLIC_INPUTS + 1) (g1_identity (ideal_host_of of_n val P1 P2))) = Some out" by blast
  then show ?thesis unfolding load_verification_key_def by (simp add: ideal_of_decode Let_def)
qed

lemma ideal_of_decode_proof: "decode_proof (ideal_host_of of_n val P1 P2) pf = Some ([], (), [])"
  by (simp add: decode_proof_def slice32_eq ideal_of_decode)

lemma ideal_of_combine:
  assumes "length frs = NUM_PUBLIC_INPUTS"
  shows "combine_ic (ideal_host_of of_n val P1 P2) pts frs = frs"
proof -
  obtain a b c d e where frs: "frs = [a, b, c, d, e]"
    using assms by (auto simp: NUM_PUBLIC_INPUTS_def numeral_eq_Suc length_Suc_conv)
  have "[0..<NUM_PUBLIC_INPUTS] = [0, 1, 2, 3, 4]" by (simp add: NUM_PUBLIC_INPUTS_def upt_rec)
  then show ?thesis by (simp add: combine_ic_def frs) (simp add: ideal_host_of_def)
qed

lemma ideal_of_verify:
  assumes "length inputs = NUM_PUBLIC_INPUTS"
  shows "verify_proof True (ideal_host_of of_n val P1 P2) pf inputs \<longleftrightarrow>
    (\<exists>s. circuit_withdraw P1 P2 2 s \<and> map (bytes_to_fr (ideal_host_of of_n val P1 P2)) inputs = circuit_public s)"
proof -
  obtain vk where vk: "load_verification_key True (ideal_host_of of_n val P1 P2) = Some vk" using ideal_of_load by blast
  have inputs: "(\<lambda>b. fr_from_le_bytes_mod_order (ideal_host_of of_n val P1 P2) (rev (array_list b))) = bytes_to_fr (ideal_host_of of_n val P1 P2)"
    by (simp add: bytes_to_fr_def fun_eq_iff)
  have "combine_ic (ideal_host_of of_n val P1 P2) (ic vk) (map (bytes_to_fr (ideal_host_of of_n val P1 P2)) inputs) = map (bytes_to_fr (ideal_host_of of_n val P1 P2)) inputs"
    by (rule ideal_of_combine) (simp add: assms)
  moreover have "g1p_into_affine (ideal_host_of of_n val P1 P2) = id" "g1_neg (ideal_host_of of_n val P1 P2) = id"
    "multi_pairing (ideal_host_of of_n val P1 P2) ps qs = ps ! 2"
    "gt_is_zero (ideal_host_of of_n val P1 P2) x \<longleftrightarrow> (\<exists>s. circuit_withdraw P1 P2 2 s \<and> x = circuit_public s)" for ps qs x
    by (simp_all add: ideal_host_of_def)
  ultimately show ?thesis unfolding verify_proof_def vk ideal_of_decode_proof inputs by (simp add: Let_def)
qed

lemma ideal_verify:
  "length inputs = NUM_PUBLIC_INPUTS \<Longrightarrow> verify_proof True ideal_host pf inputs \<longleftrightarrow>
    (\<exists>s. circuit_withdraw gf_poseidon1 gf_poseidon2 2 s \<and> map (bytes_to_fr ideal_host) inputs = circuit_public s)"
  unfolding ideal_host_def by (rule ideal_of_verify)

end
