(* ===== verification/CircuitProperties.thy ===== *)
theory CircuitProperties
  imports CircuitInstances IndexerProperties
begin

text \<open>
  The mixer end to end: what the contract, the indexer and the circuit guarantee together. The path
  the indexer serves for a deposited note makes a satisfying assignment of the circuit with the public
  inputs of the contract, so that only the verification of the proof decides on its withdrawal; and
  what is withdrawn was deposited. Of Groth16 only knowledge soundness is relied on, as a predicate on
  \<open>verify_proof\<close> with an extractor. Completeness is not assumed: with the key compiled into the contract
  it fails, as \<open>PoolProperties.compiled_key_blocks_withdrawals\<close> shows.
\<close>

subsection \<open>What is relied on of the proof system\<close>

text \<open>Knowledge soundness: from an accepted proof a satisfying assignment with these public
  signals can be extracted.\<close>

definition key_sound :: "bool \<Rightarrow> ('fr::idom, 'fq, 'g1, 'g1p, 'g2, 'gt, 'l) pool_host \<Rightarrow> nat \<Rightarrow>
    (bytes256 \<Rightarrow> bytes32 list \<Rightarrow> 'fr signals) \<Rightarrow> bool" where
  "key_sound vk h depth extract \<longleftrightarrow> (\<forall>pf inputs. length inputs = NUM_PUBLIC_INPUTS \<longrightarrow> verify_proof vk h pf inputs \<longrightarrow>
     circuit_withdraw (poseidon1 h) (poseidon2 h) depth (extract pf inputs) \<and>
     circuit_public (extract pf inputs) = map (bytes_to_fr h) inputs)"

text \<open>The commitment and the nullifier hash the client computes from a note.\<close>

definition note_commitment :: "('fr, 'c) field_crypto_scheme \<Rightarrow> 'fr \<Rightarrow> 'fr \<Rightarrow> bytes32" where
  "note_commitment c secret nullifier = fr_to_bytes c (poseidon2 c secret nullifier)"

definition note_nullifier_hash :: "('fr, 'c) field_crypto_scheme \<Rightarrow> 'fr \<Rightarrow> bytes32" where
  "note_nullifier_hash c nullifier = fr_to_bytes c (poseidon1 c nullifier)"

lemma honest_public:
  assumes "fr_roundtrip c" and "build_public_inputs c root (note_nullifier_hash c nul) recipient relayer fee = Inr inputs"
  shows "map (bytes_to_fr c) inputs = circuit_public (honest_signals c sec nul root es ds inputs)"
  using assms by (auto simp: build_public_inputs_def and_then_eq_Inr circuit_public_def honest_signals_def Let_def
      note_nullifier_hash_def fr_written_reads_back)

lemma five_inputs: "build_public_inputs h root n recipient relayer fee = Inr inputs \<Longrightarrow> length inputs = NUM_PUBLIC_INPUTS"
  by (auto simp: build_public_inputs_def and_then_eq_Inr NUM_PUBLIC_INPUTS_def)

text \<open>The ideal host of \<open>CircuitInstances\<close> has it, at depth 2.\<close>

lemma ideal_sound: "\<exists>extract. key_sound True ideal_host 2 extract"
proof -
  let ?Q = "\<lambda>inputs s. circuit_withdraw gf_poseidon1 gf_poseidon2 2 s \<and>
    circuit_public s = map (bytes_to_fr ideal_host) inputs"
  have "?Q inputs (Eps (?Q inputs))" if "length inputs = NUM_PUBLIC_INPUTS" "verify_proof True ideal_host pf inputs" for pf inputs
    by (rule someI_ex) (use that ideal_verify [of inputs pf] in metis)
  then show ?thesis unfolding key_sound_def ideal_self by (intro exI [of _ "\<lambda>_ inputs. Eps (?Q inputs)"]) blast
qed

text \<open>A note, its deposit in the demo pool, and an indexer that has seen it.\<close>

definition ideal_note :: bytes32 where
  "ideal_note = note_commitment ideal_host (gf_of 2) (gf_of 3)"

definition ideal_pool :: "demo_ledger APool" where
  "ideal_pool = demo_pool\<lparr>p_leaves := [ideal_note], p_log := [DepositEvent ideal_note 0], p_ledger := p_ledger demo_deposited\<rparr>"

definition ideal_env :: "demo_ledger pool_env" where
  "ideal_env = state_after (demo_env ideal_host) (deposit ideal_host demo_auth alice ideal_note (demo_env ideal_host))"

lemma ideal_deposit:
  "deposit ideal_host demo_auth alice ideal_note (demo_env ideal_host) = Inr ideal_env"
  "pool_rep ideal_host ideal_env ideal_pool"
proof -
  have "a_deposit ideal_host demo_auth alice ideal_note demo_pool = Inr ideal_pool"
    by (simp add: a_deposit_any) (simp add: ideal_pool_def)
  then show "deposit ideal_host demo_auth alice ideal_note (demo_env ideal_host) = Inr ideal_env"
    "pool_rep ideal_host ideal_env ideal_pool"
    using deposit_refines [OF demo_env_ok(2) [of ideal_host], of demo_auth alice ideal_note]
    unfolding ideal_env_def by (metis state_after_Inr)+
qed

lemma ideal_reach: "pool_reach True ideal_host ext ideal_env"
  by (rule pool_reach.step [OF demo_reach pool_step.deposit [OF _ ideal_deposit(1)]]) (simp add: demo_auth_def)

lemma ideal_indexer: "\<exists>s :: AppState. mtree_rep ideal_host 2 (st_tree s) [ideal_note]"
proof -
  obtain s :: AppState where "mtree_rep ideal_host 2 (st_tree s) []"
    using app_state_new_rep [of 2 ideal_host demo_codec "''CPOOL''" 100] by (auto simp: word_eq_iff_unsigned state_rep_def)
  then show ?thesis using state_insert_tree [of ideal_host 2 s "[]" demo_codec ideal_note] by auto
qed

lemma ideal_pay: "a_payout ideal_host bob carol 3 ideal_pool \<noteq> None"
  by (simp add: a_payout_def ideal_pool_def demo_deposited_def demo_transfer_def demo_names Let_def)

subsection \<open>A deposited note and its withdrawal\<close>

text \<open>For a root that fewer than \<open>root_history_size\<close> deposits have followed, an unspent nullifier, an
  admissible fee and a payout that the token carries out, the proof decides.\<close>

lemma verification_decides:
  assumes pool: "pool_rep h e p"
    and lag: "j \<le> length (p_leaves p)" "length (p_leaves p) < j + unat (p_history_size p)"
    and unspent: "n \<notin> p_spent p" and fee: "0 \<le> sint fee" "sint fee \<le> sint (p_max_fee p)"
    and inputs: "build_public_inputs h (tree_root h (unat (p_depth p)) (take j (p_leaves p))) n recipient relayer fee = Inr inputs"
    and funds: "a_payout h recipient relayer fee p = Some l"
  shows "if verify_proof vk h pf inputs
    then \<exists>e'. withdraw vk h pf (tree_root h (unat (p_depth p)) (take j (p_leaves p))) n recipient relayer fee e = Inr e'
    else withdraw vk h pf (tree_root h (unat (p_depth p)) (take j (p_leaves p))) n recipient relayer fee e = Inl (Err InvalidProof)"
proof -
  let ?root = "tree_root h (unat (p_depth p)) (take j (p_leaves p))"
  have "p_history_size p \<noteq> 0" using pool_repD(4) [OF pool] by (simp add: history_rep_def)
  then have "p_known h p ?root" using lag by (auto simp: p_known_iff)
  then have "if verify_proof vk h pf inputs then \<exists>q. a_withdraw vk h pf ?root n recipient relayer fee p = Inr q
      else a_withdraw vk h pf ?root n recipient relayer fee p = Inl (Err InvalidProof)"
    using unspent fee inputs funds by (simp add: a_withdraw_def)
  then show ?thesis
    using withdraw_refines [OF pool, of vk pf ?root n recipient relayer fee]
    by (cases "verify_proof vk h pf inputs") (simp, metis res_rel_Inr_abs, simp, metis res_rel_Inl_abs)
qed

lemma honest_note_satisfies:
  assumes law: "fr_roundtrip h" and hex: "hex_laws k" and pool: "pool_rep h e p"
    and idx: "mtree_rep h (p_depth p) (st_tree s) (take j (p_leaves p))"
    and lag: "j \<le> length (p_leaves p)" "length (p_leaves p) < j + unat (p_history_size p)"
    and mine: "note_commitment h sec nul \<in> set (take j (p_leaves p))"
    and unspent: "note_nullifier_hash h nul \<notin> p_spent p"
    and fee: "0 \<le> sint fee" "sint fee \<le> sint (p_max_fee p)"
    and strkeys: "length (strkey recipient) \<le> 56" "length (strkey relayer) \<le> 56"
    and funds: "a_payout h recipient relayer fee p = Some l"
  shows "\<exists>root i es ds inputs.
    merkle_path k (hex_encode k (array_list (note_commitment h sec nul))) s = Inr \<lparr>http_status = 200, http_body = JObject
      [(''root'', JString (hex_encode k (array_list root))),
       (''path_elements'', JArray (map JString (map (\<lambda>e. hex_encode k (array_list e)) es))),
       (''path_indices'', JArray (map (\<lambda>i. JNumber (uint i)) ds)),
       (''leaf_index'', JNumber (int i))]\<rparr> \<and>
    build_public_inputs h root (note_nullifier_hash h nul) recipient relayer fee = Inr inputs \<and>
    circuit_withdraw (poseidon1 h) (poseidon2 h) (unat (p_depth p)) (honest_signals h sec nul root es ds inputs) \<and>
    circuit_public (honest_signals h sec nul root es ds inputs) = map (bytes_to_fr h) inputs \<and>
    (\<forall>pf. if verify_proof vk h pf inputs
       then \<exists>e'. withdraw vk h pf root (note_nullifier_hash h nul) recipient relayer fee e = Inr e'
       else withdraw vk h pf root (note_nullifier_hash h nul) recipient relayer fee e = Inl (Err InvalidProof))"
proof -
  note parts = pool_repD [OF pool]
  let ?xs = "take j (p_leaves p)" and ?root = "tree_root h (unat (p_depth p)) (take j (p_leaves p))"
  have fits: "length ?xs \<le> tree_capacity (p_depth p)" using parts(3) by simp
  obtain i es and ds :: "u32 list" where served: "merkle_path k (hex_encode k (array_list (note_commitment h sec nul))) s =
      Inr \<lparr>http_status = 200, http_body = JObject
      [(''root'', JString (hex_encode k (array_list ?root))),
       (''path_elements'', JArray (map JString (map (\<lambda>e. hex_encode k (array_list e)) es))),
       (''path_indices'', JArray (map (\<lambda>i. JNumber (uint i)) ds)),
       (''leaf_index'', JNumber (int i))]\<rparr>"
    and len: "length es = unat (p_depth p)" "length ds = unat (p_depth p)" and bits: "\<forall>d\<in>set ds. unat d = 0 \<or> unat d = 1"
    and path: "climb (hash_pair_bytes h) (note_commitment h sec nul) (zip es (map unat ds)) = ?root"
    using served_path [OF hex idx fits mine] by blast
  obtain inputs where inputs: "build_public_inputs h ?root (note_nullifier_hash h nul) recipient relayer fee = Inr inputs"
    using strkeys by (simp add: build_public_inputs_def address_to_field_bytes_def Let_def)
  have "circuit_withdraw (poseidon1 h) (poseidon2 h) (unat (p_depth p)) (honest_signals h sec nul ?root es ds inputs)"
    by (rule honest_signals_satisfy [OF law len bits]) (use path in \<open>simp add: note_commitment_def\<close>)
  with served inputs honest_public [OF law inputs, of sec es ds] verification_decides [OF pool lag unspent fee inputs funds, of vk]
  show ?thesis by metis
qed

lemma ideal_withdrawal:
  "\<exists>pf root e'. withdraw True ideal_host pf root (note_nullifier_hash ideal_host (gf_of 3)) bob carol 3 ideal_env = Inr e'"
proof -
  obtain s :: AppState where s: "mtree_rep ideal_host 2 (st_tree s) [ideal_note]" using ideal_indexer by blast
  obtain l where l: "a_payout ideal_host bob carol 3 ideal_pool = Some l" using ideal_pay by blast
  obtain root es inputs and ds :: "u32 list" where
    inputs: "build_public_inputs ideal_host root (note_nullifier_hash ideal_host (gf_of 3)) bob carol 3 = Inr inputs"
    and sat: "circuit_withdraw gf_poseidon1 gf_poseidon2 2 (honest_signals ideal_host (gf_of 2) (gf_of 3) root es ds inputs)"
    and public: "circuit_public (honest_signals ideal_host (gf_of 2) (gf_of 3) root es ds inputs) = map (bytes_to_fr ideal_host) inputs"
    and decides: "\<And>pf. if verify_proof True ideal_host pf inputs
       then \<exists>e'. withdraw True ideal_host pf root (note_nullifier_hash ideal_host (gf_of 3)) bob carol 3 ideal_env = Inr e'
       else withdraw True ideal_host pf root (note_nullifier_hash ideal_host (gf_of 3)) bob carol 3 ideal_env = Inl (Err InvalidProof)"
    using honest_note_satisfies [OF ideal_roundtrip demo_hex_laws ideal_deposit(2) _ _ _ _ _ _ _ _ _ l,
        of s 1 "gf_of 2" "gf_of 3" True] s
    by (simp add: ideal_pool_def ideal_note_def demo_names) blast
  have "verify_proof True ideal_host demo_proof inputs"
    using sat public ideal_verify [OF five_inputs [OF inputs]] by metis
  with decides [of demo_proof] show ?thesis by auto
qed

text \<open>(C3) End to end: whoever knows the secrets of a deposited commitment gets from the indexer a path
  that makes a satisfying assignment of the withdraw circuit, with exactly the public inputs the
  contract builds from the call, for any recipient, relayer and admissible fee; and every check of
  \<open>withdraw\<close> but the verification of the proof passes, so that a proof the contract's verifier accepts
  pays out and any other is \<open>InvalidProof\<close>. The indexer may lag behind the chain, as long as it has the
  commitment and fewer than \<open>root_history_size\<close> deposits have followed; the nullifier hash is unspent
  and the token carries out the payout. Nothing is assumed of the verifier: with the compiled key it
  accepts no proof (C10).\<close>

theorem honest_note_satisfies_circuit:
  assumes law: "fr_roundtrip h" and hex: "hex_laws k" and pool: "pool_rep h e p"
    and idx: "mtree_rep h (p_depth p) (st_tree s) (take j (p_leaves p))"
    and lag: "j \<le> length (p_leaves p)" "length (p_leaves p) < j + unat (p_history_size p)"
    and mine: "note_commitment h sec nul \<in> set (take j (p_leaves p))"
    and unspent: "note_nullifier_hash h nul \<notin> p_spent p"
    and fee: "0 \<le> sint fee" "sint fee \<le> sint (p_max_fee p)"
    and strkeys: "length (strkey recipient) \<le> 56" "length (strkey relayer) \<le> 56"
    and funds: "a_payout h recipient relayer fee p = Some l"
  shows "\<exists>root i es ds inputs.
    merkle_path k (hex_encode k (array_list (note_commitment h sec nul))) s = Inr \<lparr>http_status = 200, http_body = JObject
      [(''root'', JString (hex_encode k (array_list root))),
       (''path_elements'', JArray (map JString (map (\<lambda>e. hex_encode k (array_list e)) es))),
       (''path_indices'', JArray (map (\<lambda>i. JNumber (uint i)) ds)),
       (''leaf_index'', JNumber (int i))]\<rparr> \<and>
    build_public_inputs h root (note_nullifier_hash h nul) recipient relayer fee = Inr inputs \<and>
    circuit_withdraw (poseidon1 h) (poseidon2 h) (unat (p_depth p)) (honest_signals h sec nul root es ds inputs) \<and>
    circuit_public (honest_signals h sec nul root es ds inputs) = map (bytes_to_fr h) inputs \<and>
    (\<forall>pf. if verify_proof vk h pf inputs
       then \<exists>e'. withdraw vk h pf root (note_nullifier_hash h nul) recipient relayer fee e = Inr e'
       else withdraw vk h pf root (note_nullifier_hash h nul) recipient relayer fee e = Inl (Err InvalidProof))"
  by (rule honest_note_satisfies [OF assms])

lemma honest_note_satisfies_circuit_witness:
  "\<exists>root inputs sg e'. build_public_inputs ideal_host root (note_nullifier_hash ideal_host (gf_of 3)) bob carol 3 = Inr inputs \<and>
    circuit_withdraw gf_poseidon1 gf_poseidon2 2 sg \<and> circuit_public sg = map (bytes_to_fr ideal_host) inputs \<and>
    withdraw True ideal_host demo_proof root (note_nullifier_hash ideal_host (gf_of 3)) bob carol 3 ideal_env = Inr e'"
proof -
  obtain s :: AppState where s: "mtree_rep ideal_host 2 (st_tree s) [ideal_note]" using ideal_indexer by blast
  obtain l where l: "a_payout ideal_host bob carol 3 ideal_pool = Some l" using ideal_pay by blast
  obtain root es inputs and ds :: "u32 list" where
    inputs: "build_public_inputs ideal_host root (note_nullifier_hash ideal_host (gf_of 3)) bob carol 3 = Inr inputs"
    and sat: "circuit_withdraw gf_poseidon1 gf_poseidon2 2 (honest_signals ideal_host (gf_of 2) (gf_of 3) root es ds inputs)"
    and public: "circuit_public (honest_signals ideal_host (gf_of 2) (gf_of 3) root es ds inputs) = map (bytes_to_fr ideal_host) inputs"
    and decides: "\<And>pf. if verify_proof True ideal_host pf inputs
       then \<exists>e'. withdraw True ideal_host pf root (note_nullifier_hash ideal_host (gf_of 3)) bob carol 3 ideal_env = Inr e'
       else withdraw True ideal_host pf root (note_nullifier_hash ideal_host (gf_of 3)) bob carol 3 ideal_env = Inl (Err InvalidProof)"
    using honest_note_satisfies_circuit [OF ideal_roundtrip demo_hex_laws ideal_deposit(2) _ _ _ _ _ _ _ _ _ l,
        of s 1 "gf_of 2" "gf_of 3" True] s
    by (simp add: ideal_pool_def ideal_note_def demo_names) blast
  have "verify_proof True ideal_host demo_proof inputs"
    using sat public ideal_verify [OF five_inputs [OF inputs]] by metis
  with decides [of demo_proof] inputs sat public show ?thesis by auto
qed

subsection \<open>What is withdrawn was deposited\<close>

text \<open>(C2) End to end: behind every successful withdrawal stands a deposit. The extractor of the
  proof system yields a secret and a nullifier whose hash is the spent nullifier hash (modulo
  the field order), and their commitment is one the pool recorded before, unless the extracted
  path shows a collision of the tree's hash or the note opens the value of an empty leaf.\<close>

theorem withdrawal_opens_a_deposit:
  assumes law: "fr_roundtrip h" and reach: "pool_reach vk h ext e" and depth: "get_tree_depth e = Inr d"
    and sound: "key_sound vk h (unat d) extract"
    and ok: "withdraw vk h pf root n recipient relayer fee e = Inr e'"
  shows "\<exists>inputs j. build_public_inputs h root n recipient relayer fee = Inr inputs \<and>
    (let s = extract pf inputs; leaves = take j (map fst (deposits_of (published e)));
         commitment = poseidon2 h (sg_secret s) (sg_nullifier s)
     in poseidon1 h (sg_nullifier s) = bytes_to_fr h n \<and>
        (case signals_collision h leaves s of
           Some pq \<Rightarrow> is_collision (poseidon2 h) pq
         | None \<Rightarrow> empty_leaf_fr h = commitment \<or>
             (\<exists>c. is_commitment_inserted c e = Inr True \<and> bytes_to_fr h c = commitment)))"
proof -
  obtain p l0 where rep: "pool_rep h e p" and a: "a_reach vk h ext l0 p"
    using pool_reach_simulates [OF reach] by blast
  note parts = pool_repD [OF rep]
  have d: "p_depth p = d" using depth by (simp add: pool_reads [OF rep])
  have leaves: "map fst (deposits_of (published e)) = p_leaves p"
    using a_reach_log [OF a] by (simp add: log_ok_def parts(6))
  obtain p' where "a_withdraw vk h pf root n recipient relayer fee p = Inr p'"
    using withdraw_refines [OF rep, of vk pf root n recipient relayer fee] ok by (auto dest: res_rel_InrD)
  then obtain inputs where known: "p_known h p root"
    and inputs: "build_public_inputs h root n recipient relayer fee = Inr inputs" "verify_proof vk h pf inputs"
    by (auto simp: a_withdraw_Inr)
  have "p_history_size p \<noteq> 0" using parts(4) by (simp add: history_rep_def)
  then obtain j where root: "root = tree_root h (unat d) (take j (p_leaves p))"
    using known by (auto simp: p_known_iff d)
  let ?s = "extract pf inputs" and ?xs = "take j (p_leaves p)"
  have sat: "circuit_withdraw (poseidon1 h) (poseidon2 h) (unat d) ?s" and public: "circuit_public ?s = map (bytes_to_fr h) inputs"
    using sound inputs(2) five_inputs [OF inputs(1)] by (simp_all add: key_sound_def)
  have "sg_root ?s = bytes_to_fr h root" "sg_nullifier_hash ?s = bytes_to_fr h n"
    using public inputs(1) by (auto simp: circuit_public_def build_public_inputs_def and_then_eq_Inr)
  with sat have null: "poseidon1 h (sg_nullifier ?s) = bytes_to_fr h n" and sroot: "sg_root ?s = bytes_to_fr h (tree_root h (unat d) ?xs)"
    by (simp_all add: circuit_withdraw_def Let_def root)
  have inserted: "is_commitment_inserted c e = Inr True" if "c \<in> set ?xs" for c
    using in_set_takeD [OF that] by (simp add: pool_reads [OF rep])
  have "case signals_collision h ?xs ?s of
      Some pq \<Rightarrow> is_collision (poseidon2 h) pq
    | None \<Rightarrow> empty_leaf_fr h = poseidon2 h (sg_secret ?s) (sg_nullifier ?s) \<or>
        (\<exists>c. is_commitment_inserted c e = Inr True \<and> bytes_to_fr h c = poseidon2 h (sg_secret ?s) (sg_nullifier ?s))"
    using signals_open [OF law sat sroot] inserted nth_mem [of "signals_position ?s" ?xs]
    by (fastforce split: option.splits if_splits)
  with inputs(1) null show ?thesis
    unfolding leaves Let_def by blast
qed

lemma withdrawal_opens_a_deposit_witness:
  "\<exists>(extract :: bytes256 \<Rightarrow> bytes32 list \<Rightarrow> gf signals) pf root e' inputs.
    withdraw True ideal_host pf root (note_nullifier_hash ideal_host (gf_of 3)) bob carol 3 ideal_env = Inr e' \<and>
    gf_poseidon1 (sg_nullifier (extract pf inputs)) = bytes_to_fr ideal_host (note_nullifier_hash ideal_host (gf_of 3))"
proof -
  obtain extr where sound: "key_sound True ideal_host 2 extr" using ideal_sound by blast
  obtain pf root e' where ok: "withdraw True ideal_host pf root (note_nullifier_hash ideal_host (gf_of 3)) bob carol 3 ideal_env = Inr e'"
    using ideal_withdrawal by blast
  have "get_tree_depth ideal_env = Inr 2" using pool_reads [OF ideal_deposit(2)] by (simp add: ideal_pool_def)
  from withdrawal_opens_a_deposit [OF ideal_roundtrip ideal_reach [of "\<lambda>_ _. False"] this _ ok] sound ok
  show ?thesis by (fastforce simp: Let_def)
qed

end
