(* ===== verification/Relayer.thy ===== *)
theory Relayer
  imports IndexerListener
begin

text \<open>
  \<open>relayer/src/validate.rs\<close>, \<open>rpc.rs\<close> and \<open>relay.rs\<close>: validation of a request, the submission to
  the RPC, the state of the relayer, and its handlers, the relay handler both whole and in the
  phases between which it awaits. Texts of errors are represented by their constructor.
\<close>

subsection \<open>The libraries\<close>

text \<open>The crates \<open>stellar-strkey\<close> and \<open>ed25519-dalek\<close>; \<open>hex\<close> is the \<open>codec\<close> of the indexer.\<close>

record relayer_crates = codec +
  public_key_from_string :: "string \<Rightarrow> u8 list option"
  private_key_from_string :: "string \<Rightarrow> u8 list option"
  public_key_to_string :: "u8 list \<Rightarrow> string"
  verifying_key :: "u8 list \<Rightarrow> u8 list"

text \<open>\<open>hex::decode\<close> reads two characters per byte.\<close>

definition hex_length_law :: "'z codec_scheme \<Rightarrow> bool" where
  "hex_length_law k \<longleftrightarrow> (\<forall>s bs. hex_decode k s = Some bs \<longrightarrow> length s = 2 * length bs)"

subsection \<open>validate.rs\<close>

datatype ValidationError =
  InvalidHex | WrongLength nat nat | InvalidAddress string | InvalidFee string
  | FeeMismatch u128 u32 u64 u64 | MissingContractId

definition validate_hex :: "'z codec_scheme \<Rightarrow> string \<Rightarrow> nat \<Rightarrow> (ValidationError, u8 list) result" where
  "validate_hex k hex_str expected_bytes =
     (let clean = trim_0x hex_str in
      and_then (ok_or InvalidHex (hex_decode k clean)) (\<lambda>bytes.
        if length bytes \<noteq> expected_bytes then Inl (Err (WrongLength expected_bytes (length bytes)))
        else Inr bytes))"

definition validate_stellar_address :: "'z relayer_crates_scheme \<Rightarrow> string \<Rightarrow> (ValidationError, unit) result" where
  "validate_stellar_address k address =
     and_then (ok_or (InvalidAddress address) (public_key_from_string k address)) (\<lambda>_. Inr ())"

text \<open>\<open>(pool_denomination as u128 * relayer_fee_bps as u128) / 10000\<close>\<close>

definition expected_relay_fee :: "u64 \<Rightarrow> u32 \<Rightarrow> u128" where
  "expected_relay_fee pool_denomination relayer_fee_bps = ucast pool_denomination * ucast relayer_fee_bps div 10000"

definition validate_relay_request :: "'z relayer_crates_scheme \<Rightarrow> string \<Rightarrow> string \<Rightarrow> string \<Rightarrow> string \<Rightarrow> string \<Rightarrow> string \<Rightarrow>
    u32 \<Rightarrow> u64 \<Rightarrow> (ValidationError, unit) result" where
  "validate_relay_request k proof_hex root_hex nullifier_hash_hex recipient fee pool_contract_id relayer_fee_bps pool_denomination =
     and_then (validate_hex k proof_hex 256) (\<lambda>_.
     and_then (validate_hex k root_hex 32) (\<lambda>_.
     and_then (validate_hex k nullifier_hash_hex 32) (\<lambda>_.
     and_then (validate_stellar_address k recipient) (\<lambda>_.
     and_then (ok_or (InvalidFee fee) (parse_u64 fee)) (\<lambda>fee_stroops.
     let expected_fee = expected_relay_fee pool_denomination relayer_fee_bps in
     if fee_stroops \<noteq> ucast expected_fee
     then Inl (Err (FeeMismatch expected_fee relayer_fee_bps pool_denomination fee_stroops))
     else if pool_contract_id = [] then Inl (Err MissingContractId)
     else Inr ())))))"

subsection \<open>rpc.rs\<close>

datatype RelayError =
  AtCapacity | AlreadyProcessing | BadProof ValidationError | BadRoot ValidationError
  | BadNullifierHash ValidationError | BadRecipient ValidationError
  | ConnectionFailed | HealthCheckFailed | NodeUnhealthy | NotYetWired

record SubmitResult =
  sr_success :: bool
  sr_tx_hash :: "string option"
  sr_error :: "RelayError option"

text \<open>What the RPC does with the health request: no connection, an unreadable body, or a
  response, whose error field may be set.\<close>

datatype HealthAnswer = NoConnection | UnreadableBody | Health "json option"

definition submit_failed :: "RelayError \<Rightarrow> SubmitResult" where
  "submit_failed err = \<lparr>sr_success = False, sr_tx_hash = None, sr_error = Some err\<rparr>"

text \<open>\<open>&s[..n]\<close>, which panics when the string is shorter.\<close>

definition str_prefix :: "nat \<Rightarrow> string \<Rightarrow> string run" where
  "str_prefix n s = (if n \<le> length s then Inr (take n s) else Inl Panic)"

definition submit_withdrawal :: "HealthAnswer \<Rightarrow> string \<Rightarrow> string \<Rightarrow> SubmitResult run" where
  "submit_withdrawal answer root_hex nullifier_hash_hex =
     (case answer of
        NoConnection \<Rightarrow> Inr (submit_failed ConnectionFailed)
      | UnreadableBody \<Rightarrow> Inr (submit_failed HealthCheckFailed)
      | Health (Some err) \<Rightarrow> Inr (submit_failed NodeUnhealthy)
      | Health None \<Rightarrow>
          and_then (str_prefix 16 root_hex) (\<lambda>_.
          and_then (str_prefix 16 nullifier_hash_hex) (\<lambda>_.
          Inr (submit_failed NotYetWired))))"

subsection \<open>relay.rs: the state\<close>

record RelayerConfig =
  cfg_secret_key :: string
  cfg_rpc_url :: string
  cfg_network_passphrase :: string
  cfg_fee_bps :: u32
  cfg_max_pending :: nat

record RelayRequest =
  rq_proof_hex :: string
  rq_root_hex :: string
  rq_nullifier_hash_hex :: string
  rq_recipient :: string
  rq_fee :: string
  rq_pool_contract_id :: string

record RelayResponse =
  rs_status :: nat
  rs_success :: bool
  rs_tx_hash :: "string option"
  rs_error :: "RelayError option"

record RelayerStatus =
  status_address :: string
  status_fee_bps :: u32
  status_pending_count :: nat
  status_max_pending :: nat
  status_total_relayed :: u64
  status_total_earned :: u64

record RelayerState =
  config :: RelayerConfig
  relayer_address :: string
  pending_nullifiers :: "string set"
  total_relayed :: u64
  total_earned :: u64

definition derive_public_address :: "'z relayer_crates_scheme \<Rightarrow> string \<Rightarrow> string" where
  "derive_public_address k secret =
     (case private_key_from_string k secret of
        Some sk \<Rightarrow> public_key_to_string k (verifying_key k sk)
      | None \<Rightarrow> secret)"

definition relayer_new :: "'z relayer_crates_scheme \<Rightarrow> RelayerConfig \<Rightarrow> RelayerState" where
  "relayer_new k cfg =
     \<lparr>config = cfg, relayer_address = derive_public_address k (cfg_secret_key cfg), pending_nullifiers = {},
      total_relayed = 0, total_earned = 0\<rparr>"

definition relay_failed :: "nat \<Rightarrow> RelayError option \<Rightarrow> RelayResponse" where
  "relay_failed status err = \<lparr>rs_status = status, rs_success = False, rs_tx_hash = None, rs_error = err\<rparr>"

subsection \<open>relay.rs: the phases of the handler\<close>

text \<open>Under the read lock: capacity and duplicates; then the validation, which does not look at
  the shared state. \<open>None\<close> means the handler goes on.\<close>

definition relay_check :: "'z relayer_crates_scheme \<Rightarrow> RelayRequest \<Rightarrow> RelayerState \<Rightarrow> RelayResponse option" where
  "relay_check k request s =
     (if card (pending_nullifiers s) \<ge> cfg_max_pending (config s) then Some (relay_failed 429 (Some AtCapacity))
      else if rq_nullifier_hash_hex request \<in> pending_nullifiers s then Some (relay_failed 409 (Some AlreadyProcessing))
      else case validate_hex k (rq_proof_hex request) 256 of
        Inl (Err e) \<Rightarrow> Some (relay_failed 400 (Some (BadProof e)))
      | _ \<Rightarrow>
      (case validate_hex k (rq_root_hex request) 32 of
        Inl (Err e) \<Rightarrow> Some (relay_failed 400 (Some (BadRoot e)))
      | _ \<Rightarrow>
      (case validate_hex k (rq_nullifier_hash_hex request) 32 of
        Inl (Err e) \<Rightarrow> Some (relay_failed 400 (Some (BadNullifierHash e)))
      | _ \<Rightarrow>
      (case validate_stellar_address k (rq_recipient request) of
        Inl (Err e) \<Rightarrow> Some (relay_failed 400 (Some (BadRecipient e)))
      | _ \<Rightarrow> None))))"

text \<open>The write lock around \<open>pending.insert\<close> and \<open>pending.remove\<close>.\<close>

definition relay_insert :: "RelayRequest \<Rightarrow> RelayerState \<Rightarrow> RelayerState" where
  "relay_insert request s =
     s\<lparr>pending_nullifiers := insert (rq_nullifier_hash_hex request) (pending_nullifiers s)\<rparr>"

definition relay_remove :: "RelayRequest \<Rightarrow> RelayerState \<Rightarrow> RelayerState" where
  "relay_remove request s =
     s\<lparr>pending_nullifiers := pending_nullifiers s - {rq_nullifier_hash_hex request}\<rparr>"

text \<open>The statistics of a successful relay: two separate write locks (sums of \<open>u64\<close>).\<close>

definition relay_count :: "RelayerState \<Rightarrow> RelayerState" where
  "relay_count s = s\<lparr>total_relayed := total_relayed s + 1\<rparr>"

definition relay_earn :: "RelayRequest \<Rightarrow> RelayerState \<Rightarrow> RelayerState" where
  "relay_earn request s =
     (let fee_stroops = (case parse_u64 (rq_fee request) of Some n \<Rightarrow> n | None \<Rightarrow> 0)
      in s\<lparr>total_earned := total_earned s + fee_stroops\<rparr>)"

definition relay_response :: "SubmitResult \<Rightarrow> RelayResponse" where
  "relay_response res =
     (if sr_success res then \<lparr>rs_status = 200, rs_success = True, rs_tx_hash = sr_tx_hash res, rs_error = None\<rparr>
      else relay_failed 500 (sr_error res))"

subsection \<open>relay.rs: the handlers\<close>

text \<open>The whole handler, run without interruption; \<open>submit\<close> is the call of \<open>rpc.rs\<close>.\<close>

definition handle_relay_with :: "(RelayRequest \<Rightarrow> SubmitResult run) \<Rightarrow> 'z relayer_crates_scheme \<Rightarrow> RelayRequest \<Rightarrow> RelayerState \<Rightarrow>
    (RelayResponse \<times> RelayerState) run" where
  "handle_relay_with submit k request s =
     (case relay_check k request s of
        Some response \<Rightarrow> Inr (response, s)
      | None \<Rightarrow>
          let s = relay_insert request s in
          and_then (submit request) (\<lambda>res.
          let s = relay_remove request s in
          if sr_success res
          then Inr (relay_response res, relay_earn request (relay_count s))
          else Inr (relay_response res, s)))"

definition handle_relay :: "HealthAnswer \<Rightarrow> 'z relayer_crates_scheme \<Rightarrow> RelayRequest \<Rightarrow> RelayerState \<Rightarrow>
    (RelayResponse \<times> RelayerState) run" where
  "handle_relay answer =
     handle_relay_with (\<lambda>request. submit_withdrawal answer (rq_root_hex request) (rq_nullifier_hash_hex request))"

definition handle_status :: "RelayerState \<Rightarrow> RelayerStatus" where
  "handle_status s =
     \<lparr>status_address = relayer_address s, status_fee_bps = cfg_fee_bps (config s),
      status_pending_count = card (pending_nullifiers s), status_max_pending = cfg_max_pending (config s),
      status_total_relayed = total_relayed s, status_total_earned = total_earned s\<rparr>"

text \<open>\<open>GET /health\<close>\<close>

definition handle_health :: json where
  "handle_health = JObject [(''status'', JString ''ok'')]"

subsection \<open>Validated requests\<close>

text \<open>The product of a \<open>u64\<close> and a \<open>u32\<close> fits in a \<open>u128\<close>.\<close>

lemma unat_expected_relay_fee: "unat (expected_relay_fee d bps) = unat d * unat bps div 10000"
proof -
  have d: "unat d < 2 ^ 64" and b: "unat bps < 2 ^ 32"
    using unsigned_less [of d, where ?'a = nat] unsigned_less [of bps, where ?'a = nat] by simp_all
  then have "unat d * unat bps \<le> 2 ^ 64 * 2 ^ 32" by (intro mult_le_mono less_imp_le)
  then have "unat d * unat bps < 2 ^ 128" by simp
  then have "unat (ucast d * ucast bps :: u128) = unat d * unat bps"
    using less_trans [OF d, of "2 ^ 128"] less_trans [OF b, of "2 ^ 128"]
    by (simp add: unat_word_ariths unsigned_ucast_eq take_bit_nat_eq_self)
  then show ?thesis by (simp add: expected_relay_fee_def unat_div)
qed

lemma validate_hex_Inr:
  "validate_hex k s n = Inr bs \<longleftrightarrow> hex_decode k (trim_0x s) = Some bs \<and> length bs = n"
  by (cases "hex_decode k (trim_0x s)") (auto simp: validate_hex_def Let_def)

lemma validate_hex_no_panic: "validate_hex k s n \<noteq> Inl Panic"
  by (cases "hex_decode k (trim_0x s)") (auto simp: validate_hex_def Let_def)

lemma validate_address_no_panic: "validate_stellar_address k a \<noteq> Inl Panic"
  by (cases "public_key_from_string k a") (auto simp: validate_stellar_address_def)

lemma result_cases: "r \<noteq> Inl Panic \<Longrightarrow> (\<exists>e. r = Inl (Err e)) \<or> (\<exists>x. r = Inr x)"
  by (cases r) (auto intro: failure.exhaust)

text \<open>The handler goes on exactly with a well-formed request for a nullifier that is not
  pending, below capacity.\<close>

lemma relay_check_None:
  "relay_check k request s = None \<longleftrightarrow>
     card (pending_nullifiers s) < cfg_max_pending (config s) \<and> rq_nullifier_hash_hex request \<notin> pending_nullifiers s \<and>
     (\<exists>bs. hex_decode k (trim_0x (rq_proof_hex request)) = Some bs \<and> length bs = 256) \<and>
     (\<exists>bs. hex_decode k (trim_0x (rq_root_hex request)) = Some bs \<and> length bs = 32) \<and>
     (\<exists>bs. hex_decode k (trim_0x (rq_nullifier_hash_hex request)) = Some bs \<and> length bs = 32) \<and>
     public_key_from_string k (rq_recipient request) \<noteq> None"
proof -
  have ok: "(\<exists>x. validate_hex k t n = Inr x) \<longleftrightarrow> (\<exists>bs. hex_decode k (trim_0x t) = Some bs \<and> length bs = n)" for t n
    by (simp add: validate_hex_Inr)
  have addr: "(\<exists>x. validate_stellar_address k a = Inr x) \<longleftrightarrow> public_key_from_string k a \<noteq> None" for a
    by (cases "public_key_from_string k a") (simp_all add: validate_stellar_address_def)
  show ?thesis
    unfolding relay_check_def ok [symmetric] addr [symmetric]
    using validate_hex_no_panic [of k "rq_proof_hex request" 256] validate_hex_no_panic [of k "rq_root_hex request" 32]
      validate_hex_no_panic [of k "rq_nullifier_hash_hex request" 32] validate_address_no_panic [of k "rq_recipient request"]
    by (auto split: sum.splits failure.splits)
qed

lemma trim_0x_length: "length (trim_0x s) \<le> length s"
  by (induction s rule: trim_0x.induct) auto

lemma validated_prefix:
  assumes "hex_length_law k" and "hex_decode k (trim_0x s) = Some bs" and "length bs = 32"
  shows "str_prefix 16 s = Inr (take 16 s)"
proof -
  have "length (trim_0x s) = 64" using assms unfolding hex_length_law_def by auto
  then show ?thesis using trim_0x_length [of s] by (simp add: str_prefix_def)
qed

lemma submit_withdrawal_total:
  assumes "hex_length_law k" and "hex_decode k (trim_0x r) = Some a" "length a = 32"
    and "hex_decode k (trim_0x n) = Some b" "length b = 32"
  shows "\<exists>err. submit_withdrawal answer r n = Inr (submit_failed err)"
  using validated_prefix [OF assms(1-3)] validated_prefix [OF assms(1,4,5)]
  by (auto simp: submit_withdrawal_def split: HealthAnswer.split option.split)

end
