(* ===== verification/RelayerTrace.thy ===== *)
theory RelayerTrace
  imports Relayer
begin

text \<open>
  Concurrent requests at the relayer (\<open>handle_relay\<close> of \<open>relayer/src/relay.rs\<close>): each request is
  a task that advances phase by phase, a phase being what runs between two \<open>await\<close>s, and the
  tasks interleave freely. A task whose client disconnects is dropped where it awaits; the
  parameter \<open>drops\<close> says whether this can happen.
\<close>

datatype phase =
    Arrived RelayRequest
  | Checked RelayRequest
  | Submitting RelayRequest
  | Submitted RelayRequest SubmitResult
  | Counting RelayRequest SubmitResult
  | Earning RelayRequest SubmitResult
  | Answered RelayResponse
  | Dropped

record world =
  shared :: RelayerState
  tasks :: "nat \<rightharpoonup> phase"

fun awaiting :: "phase \<Rightarrow> bool" where
  "awaiting (Answered r) = False"
| "awaiting Dropped = False"
| "awaiting _ = True"

definition advance :: "nat \<Rightarrow> phase \<Rightarrow> RelayerState \<Rightarrow> world \<Rightarrow> world" where
  "advance i ph s w = w\<lparr>shared := s, tasks := (tasks w)(i \<mapsto> ph)\<rparr>"

lemma advance_simps [simp]:
  "shared (advance i ph s w) = s" "tasks (advance i ph s w) j = (if j = i then Some ph else tasks w j)"
  by (simp_all add: advance_def)

inductive relay_step :: "bool \<Rightarrow> 'z relayer_crates_scheme \<Rightarrow> (RelayRequest \<Rightarrow> SubmitResult \<Rightarrow> bool) \<Rightarrow> world \<Rightarrow> world \<Rightarrow> bool"
  for drops k outcome where
  arrive: "tasks w i = None \<Longrightarrow> relay_step drops k outcome w (advance i (Arrived q) (shared w) w)"
| check_fails: "tasks w i = Some (Arrived q) \<Longrightarrow> relay_check k q (shared w) = Some r \<Longrightarrow>
    relay_step drops k outcome w (advance i (Answered r) (shared w) w)"
| check_passes: "tasks w i = Some (Arrived q) \<Longrightarrow> relay_check k q (shared w) = None \<Longrightarrow>
    relay_step drops k outcome w (advance i (Checked q) (shared w) w)"
| insert: "tasks w i = Some (Checked q) \<Longrightarrow>
    relay_step drops k outcome w (advance i (Submitting q) (relay_insert q (shared w)) w)"
| submit: "tasks w i = Some (Submitting q) \<Longrightarrow> outcome q res \<Longrightarrow>
    relay_step drops k outcome w (advance i (Submitted q res) (shared w) w)"
| remove_failed: "tasks w i = Some (Submitted q res) \<Longrightarrow> \<not> sr_success res \<Longrightarrow>
    relay_step drops k outcome w (advance i (Answered (relay_response res)) (relay_remove q (shared w)) w)"
| remove_ok: "tasks w i = Some (Submitted q res) \<Longrightarrow> sr_success res \<Longrightarrow>
    relay_step drops k outcome w (advance i (Counting q res) (relay_remove q (shared w)) w)"
| count_step: "tasks w i = Some (Counting q res) \<Longrightarrow>
    relay_step drops k outcome w (advance i (Earning q res) (relay_count (shared w)) w)"
| earn_step: "tasks w i = Some (Earning q res) \<Longrightarrow>
    relay_step drops k outcome w (advance i (Answered (relay_response res)) (relay_earn q (shared w)) w)"
| drop_task: "drops \<Longrightarrow> tasks w i = Some ph \<Longrightarrow> awaiting ph \<Longrightarrow>
    relay_step drops k outcome w (advance i Dropped (shared w) w)"

definition idle_world :: "RelayerState \<Rightarrow> world" where
  "idle_world s = \<lparr>shared = s, tasks = Map.empty\<rparr>"

abbreviation relay_steps :: "bool \<Rightarrow> 'z relayer_crates_scheme \<Rightarrow> (RelayRequest \<Rightarrow> SubmitResult \<Rightarrow> bool) \<Rightarrow> world \<Rightarrow> world \<Rightarrow> bool" where
  "relay_steps drops k outcome \<equiv> (relay_step drops k outcome)\<^sup>*\<^sup>*"

lemma steps_one: "relay_step drops k outcome w w' \<Longrightarrow> relay_steps drops k outcome w' w'' \<Longrightarrow> relay_steps drops k outcome w w''"
  by (rule converse_rtranclp_into_rtranclp)

subsection \<open>The phases are the handler\<close>

text \<open>An uninterrupted run of a task gives the response and the state of the whole handler.\<close>

lemma handler_is_a_run:
  assumes run: "handle_relay_with submit k q (shared w) = Inr (r, s')" and at: "tasks w i = Some (Arrived q)"
    and out: "\<And>res. submit q = Inr res \<Longrightarrow> outcome q res"
  shows "\<exists>w'. relay_steps drops k outcome w w' \<and> shared w' = s' \<and> tasks w' i = Some (Answered r)"
proof (cases "relay_check k q (shared w)")
  case (Some resp)
  then have "resp = r" "s' = shared w" using run by (simp_all add: handle_relay_with_def)
  then show ?thesis
    using check_fails [OF at Some, of drops outcome]
    by (intro exI [of _ "advance i (Answered r) (shared w) w"]) (auto intro: r_into_rtranclp)
next
  case None
  then obtain res where res: "submit q = Inr res"
    using run by (auto simp: handle_relay_with_def Let_def and_then_eq_Inr)
  let ?s1 = "relay_insert q (shared w)" and ?s2 = "relay_remove q (relay_insert q (shared w))"
  let ?w1 = "advance i (Checked q) (shared w) w"
  let ?w2 = "advance i (Submitting q) ?s1 ?w1"
  let ?w3 = "advance i (Submitted q res) ?s1 ?w2"
  have steps: "relay_steps drops k outcome w ?w3"
    using check_passes [OF at None, of drops outcome]
      insert [of ?w1 i q drops k outcome] submit [of ?w2 i q outcome res drops k] out [OF res]
    by (auto intro: steps_one)
  show ?thesis
  proof (cases "sr_success res")
    case False
    then have r: "r = relay_response res" "s' = ?s2"
      using run None res by (simp_all add: handle_relay_with_def Let_def)
    show ?thesis
      using steps remove_failed [of ?w3 i q res drops k outcome] False r
      by (intro exI [of _ "advance i (Answered r) ?s2 ?w3"]) (auto intro: rtranclp.rtrancl_into_rtrancl)
  next
    case True
    then have r: "r = relay_response res" "s' = relay_earn q (relay_count ?s2)"
      using run None res by (simp_all add: handle_relay_with_def Let_def)
    let ?w4 = "advance i (Counting q res) ?s2 ?w3"
    let ?w5 = "advance i (Earning q res) (relay_count ?s2) ?w4"
    have "relay_steps drops k outcome ?w3 (advance i (Answered r) s' ?w5)"
      using remove_ok [of ?w3 i q res drops k outcome] count_step [of ?w4 i q res drops k outcome]
        earn_step [of ?w5 i q res drops k outcome] True r
      by (auto intro: steps_one)
    with steps show ?thesis
      by (intro exI [of _ "advance i (Answered r) s' ?w5"]) (simp add: rtranclp_trans)
  qed
qed

subsection \<open>Pending nullifiers are in flight\<close>

definition in_flight :: "world \<Rightarrow> string set" where
  "in_flight w = {rq_nullifier_hash_hex q | q. \<exists>i. tasks w i = Some (Submitting q) \<or> (\<exists>res. tasks w i = Some (Submitted q res))}"

definition pending_ok :: "world \<Rightarrow> bool" where
  "pending_ok w \<longleftrightarrow> pending_nullifiers (shared w) \<subseteq> in_flight w"

lemma in_flightI:
  "tasks w i = Some (Submitting q) \<or> (\<exists>res. tasks w i = Some (Submitted q res)) \<Longrightarrow> rq_nullifier_hash_hex q \<in> in_flight w"
  by (auto simp: in_flight_def)

lemma in_flight_keep:
  assumes "n \<in> in_flight w" and keep: "\<And>q. (tasks w i = Some (Submitting q) \<or> (\<exists>res. tasks w i = Some (Submitted q res))) \<Longrightarrow>
      rq_nullifier_hash_hex q = n \<Longrightarrow> ph = Submitting q \<or> (\<exists>res. ph = Submitted q res)"
  shows "n \<in> in_flight (advance i ph s w)"
proof -
  obtain q j where q: "rq_nullifier_hash_hex q = n" "tasks w j = Some (Submitting q) \<or> (\<exists>res. tasks w j = Some (Submitted q res))"
    using assms(1) by (auto simp: in_flight_def)
  have "tasks (advance i ph s w) j = Some (Submitting q) \<or> (\<exists>res. tasks (advance i ph s w) j = Some (Submitted q res))"
    using q keep [of q] by (cases "j = i") auto
  from in_flightI [OF this] q(1) show ?thesis by simp
qed

lemma relay_step_pending:
  assumes step: "relay_step False k outcome w w'" and ok: "pending_ok w"
  shows "pending_ok w'"
proof -
  have keep: "pending_ok (advance i ph (shared w) w)"
    if "\<And>q. tasks w i = Some (Submitting q) \<or> (\<exists>res. tasks w i = Some (Submitted q res)) \<Longrightarrow>
        ph = Submitting q \<or> (\<exists>res. ph = Submitted q res)" for i ph
    using ok that by (auto simp: pending_ok_def intro: in_flight_keep)
  from step show ?thesis
  proof cases
    case (insert i q)
    have "rq_nullifier_hash_hex q \<in> in_flight w'"
      using insert by (auto simp: in_flight_def intro!: exI [of _ q] exI [of _ i])
    moreover have "n \<in> in_flight w'" if "n \<in> in_flight w" for n
      unfolding insert(1) using that insert(2) by (intro in_flight_keep) auto
    ultimately show ?thesis using ok insert by (auto simp: pending_ok_def relay_insert_def)
  next
    case (remove_failed i q res)
    have "n \<in> in_flight w'" if "n \<in> in_flight w" "n \<noteq> rq_nullifier_hash_hex q" for n
      unfolding remove_failed(1) using that remove_failed(2) by (intro in_flight_keep) auto
    then show ?thesis using ok remove_failed by (auto simp: pending_ok_def relay_remove_def)
  next
    case (remove_ok i q res)
    have "n \<in> in_flight w'" if "n \<in> in_flight w" "n \<noteq> rq_nullifier_hash_hex q" for n
      unfolding remove_ok(1) using that remove_ok(2) by (intro in_flight_keep) auto
    then show ?thesis using ok remove_ok by (auto simp: pending_ok_def relay_remove_def)
  next
    case (count_step i q res)
    have "n \<in> in_flight w'" if "n \<in> in_flight w" for n
      unfolding count_step(1) using that count_step(2) by (intro in_flight_keep) auto
    then show ?thesis using ok count_step by (auto simp: pending_ok_def relay_count_def)
  next
    case (earn_step i q res)
    have "n \<in> in_flight w'" if "n \<in> in_flight w" for n
      unfolding earn_step(1) using that earn_step(2) by (intro in_flight_keep) auto
    then show ?thesis using ok earn_step by (auto simp: pending_ok_def relay_earn_def Let_def)
  qed (auto intro!: keep)
qed

lemma relay_steps_pending:
  "relay_steps False k outcome w w' \<Longrightarrow> pending_ok w \<Longrightarrow> pending_ok w'"
  by (induction rule: rtranclp_induct) (auto intro: relay_step_pending)

subsection \<open>Runs\<close>

definition request_ok :: "'z relayer_crates_scheme \<Rightarrow> RelayRequest \<Rightarrow> bool" where
  "request_ok k q \<longleftrightarrow>
     (\<exists>bs. hex_decode k (trim_0x (rq_proof_hex q)) = Some bs \<and> length bs = 256) \<and>
     (\<exists>bs. hex_decode k (trim_0x (rq_root_hex q)) = Some bs \<and> length bs = 32) \<and>
     (\<exists>bs. hex_decode k (trim_0x (rq_nullifier_hash_hex q)) = Some bs \<and> length bs = 32) \<and>
     public_key_from_string k (rq_recipient q) \<noteq> None"

lemma relay_check_passes:
  "request_ok k q \<Longrightarrow> card (pending_nullifiers s) < cfg_max_pending (config s) \<Longrightarrow>
   rq_nullifier_hash_hex q \<notin> pending_nullifiers s \<Longrightarrow> relay_check k q s = None"
  by (auto simp: relay_check_None request_ok_def)

text \<open>Two requests that both pass the check before either inserts.\<close>

lemma two_in_flight:
  assumes idle: "pending_nullifiers s = {}" and room: "0 < cfg_max_pending (config s)"
    and ok: "request_ok k a" "request_ok k b"
  shows "\<exists>w. relay_steps drops k outcome (idle_world s) w \<and> tasks w 0 = Some (Submitting a) \<and>
    tasks w 1 = Some (Submitting b) \<and>
    pending_nullifiers (shared w) = {rq_nullifier_hash_hex a, rq_nullifier_hash_hex b} \<and> config (shared w) = config s"
proof -
  have check: "relay_check k a s = None" "relay_check k b s = None"
    using idle room ok by (auto intro: relay_check_passes)
  let ?w0 = "idle_world s"
  let ?w1 = "advance 0 (Arrived a) s ?w0"
  let ?w2 = "advance 1 (Arrived b) s ?w1"
  let ?w3 = "advance 0 (Checked a) s ?w2"
  let ?w4 = "advance 1 (Checked b) s ?w3"
  let ?w5 = "advance 0 (Submitting a) (relay_insert a s) ?w4"
  let ?w6 = "advance 1 (Submitting b) (relay_insert b (relay_insert a s)) ?w5"
  have "relay_step drops k outcome ?w0 ?w1" using arrive [of ?w0 0 drops k outcome a] by (simp add: idle_world_def)
  moreover have "relay_step drops k outcome ?w1 ?w2" using arrive [of ?w1 1 drops k outcome b] by (simp add: idle_world_def)
  moreover have "relay_step drops k outcome ?w2 ?w3" using check_passes [of ?w2 0 a k drops outcome] check by simp
  moreover have "relay_step drops k outcome ?w3 ?w4" using check_passes [of ?w3 1 b k drops outcome] check by simp
  moreover have "relay_step drops k outcome ?w4 ?w5" using insert [of ?w4 0 a drops k outcome] by simp
  moreover have "relay_step drops k outcome ?w5 ?w6" using insert [of ?w5 1 b drops k outcome] by simp
  ultimately have "relay_steps drops k outcome ?w0 ?w6" by (auto intro: steps_one)
  then show ?thesis
    using idle by (intro exI [of _ ?w6]) (auto simp: relay_insert_def)
qed

text \<open>A task dropped while it submits leaves its nullifier behind.\<close>

lemma drop_leaves_pending:
  assumes ok: "request_ok k q" and room: "card (pending_nullifiers (shared w)) < cfg_max_pending (config (shared w))"
    and new: "rq_nullifier_hash_hex q \<notin> pending_nullifiers (shared w)" and free: "tasks w i = None"
  shows "relay_steps True k outcome w
    (advance i Dropped (relay_insert q (shared w)) w)"
proof -
  have check: "relay_check k q (shared w) = None" using ok room new by (rule relay_check_passes)
  let ?s = "shared w"
  let ?w1 = "advance i (Arrived q) ?s w"
  let ?w2 = "advance i (Checked q) ?s ?w1"
  let ?w3 = "advance i (Submitting q) (relay_insert q ?s) ?w2"
  have "relay_step True k outcome w ?w1" using arrive [of w i True k outcome q] free by simp
  moreover have "relay_step True k outcome ?w1 ?w2" using check_passes [of ?w1 i q k True outcome] check by simp
  moreover have "relay_step True k outcome ?w2 ?w3" using insert [of ?w2 i q True k outcome] by simp
  moreover have "relay_step True k outcome ?w3 (advance i Dropped (relay_insert q ?s) ?w3)"
    using drop_task [of True ?w3 i "Submitting q" k outcome] by simp
  moreover have "advance i Dropped (relay_insert q ?s) ?w3 = advance i Dropped (relay_insert q ?s) w"
    by (simp add: advance_def)
  ultimately show ?thesis by (auto intro: steps_one)
qed

lemma drops_fill_pending:
  assumes "\<forall>q\<in>set qs. request_ok k q" and "distinct (map rq_nullifier_hash_hex qs)"
    and "length qs \<le> cfg_max_pending (config s)" and "pending_nullifiers s = {}"
  shows "\<exists>w. relay_steps True k outcome (idle_world s) w \<and>
    pending_nullifiers (shared w) = rq_nullifier_hash_hex ` set qs \<and> config (shared w) = config s \<and>
    (\<forall>i. tasks w i = (if i < length qs then Some Dropped else None))"
  using assms
proof (induction qs rule: rev_induct)
  case Nil
  then show ?case by (intro exI [of _ "idle_world s"]) (simp add: idle_world_def)
next
  case (snoc q qs)
  obtain w where steps: "relay_steps True k outcome (idle_world s) w"
    and pend: "pending_nullifiers (shared w) = rq_nullifier_hash_hex ` set qs" and cfg: "config (shared w) = config s"
    and tasks: "\<forall>i. tasks w i = (if i < length qs then Some Dropped else None)"
    using snoc by auto
  have "card (rq_nullifier_hash_hex ` set qs) \<le> length qs"
    by (metis card_length length_map set_map)
  then have room: "card (pending_nullifiers (shared w)) < cfg_max_pending (config (shared w))"
    using snoc.prems(3) by (simp add: pend cfg)
  have "relay_steps True k outcome w (advance (length qs) Dropped (relay_insert q (shared w)) w)"
    using snoc.prems tasks pend by (intro drop_leaves_pending room) auto
  with steps have "relay_steps True k outcome (idle_world s) (advance (length qs) Dropped (relay_insert q (shared w)) w)"
    by (rule rtranclp_trans)
  then show ?case
    using pend cfg tasks
    by (intro exI [of _ "advance (length qs) Dropped (relay_insert q (shared w)) w"])
      (auto simp: relay_insert_def less_Suc_eq)
qed

subsection \<open>At capacity\<close>

text \<open>No request is past its check, and the pending set has reached the capacity.\<close>

fun before_or_after :: "phase \<Rightarrow> bool" where
  "before_or_after (Arrived q) = True"
| "before_or_after (Answered r) = True"
| "before_or_after Dropped = True"
| "before_or_after _ = False"

definition stuck :: "world \<Rightarrow> bool" where
  "stuck w \<longleftrightarrow> cfg_max_pending (config (shared w)) \<le> card (pending_nullifiers (shared w)) \<and>
     (\<forall>i ph. tasks w i = Some ph \<longrightarrow> before_or_after ph)"

lemma stuck_check: "stuck w \<Longrightarrow> relay_check k q (shared w) = Some (relay_failed 429 (Some AtCapacity))"
  by (auto simp: stuck_def relay_check_def split: if_splits)

lemma stuckD: "stuck w \<Longrightarrow> tasks w i = Some ph \<Longrightarrow> before_or_after ph"
  by (simp add: stuck_def)

lemma stuck_advance:
  "stuck w \<Longrightarrow> before_or_after ph \<Longrightarrow> stuck (advance i ph (shared w) w)"
  by (simp add: stuck_def)

text \<open>Nothing leads out of such a world: no request passes the check, so nothing is inserted or removed,
  and every request is answered with 429.\<close>

lemma stuck_step:
  assumes "relay_step drops k outcome w w'" and "stuck w"
  shows "stuck w' \<and> shared w' = shared w \<and>
    (\<forall>i r. tasks w' i = Some (Answered r) \<longrightarrow> tasks w i = Some (Answered r) \<or> r = relay_failed 429 (Some AtCapacity))"
  using assms(1)
proof cases
  case (arrive i q)
  with assms(2) show ?thesis by (simp add: stuck_advance)
next
  case (check_fails i q r)
  with assms(2) stuck_check [OF assms(2), of k q] show ?thesis by (simp add: stuck_advance)
next
  case (check_passes i q)
  with stuck_check [OF assms(2), of k q] show ?thesis by simp
next
  case (drop_task i ph)
  with assms(2) show ?thesis by (simp add: stuck_advance)
qed (use stuckD [OF assms(2)] in fastforce)+

lemma stuck_steps:
  assumes "relay_steps drops k outcome w w'" and "stuck w"
  shows "stuck w' \<and> shared w' = shared w \<and>
    (\<forall>i r. tasks w' i = Some (Answered r) \<longrightarrow> tasks w i = Some (Answered r) \<or> r = relay_failed 429 (Some AtCapacity))"
  using assms
proof (induction rule: rtranclp_induct)
  case base
  then show ?case by simp
next
  case (step w1 w2)
  then show ?case using stuck_step [OF step.hyps(2)] by metis
qed

end
