(* ===== verification/RelayerProperties.thy ===== *)
theory RelayerProperties
  imports RelayerTrace IndexerProperties
begin

text \<open>
  The properties of the relayer (\<open>relayer/src\<close>) with their witnesses.
\<close>

subsection \<open>Requests to apply the theorems to\<close>

text \<open>Crates that accept every address and no secret key, with the hexadecimal codec of the
  indexer's witnesses.\<close>

definition demo_crates :: relayer_crates where
  "demo_crates = \<lparr>hex_encode = demo_hex_encode, hex_decode = demo_hex_decode, base64_decode = (\<lambda>_. None),
     public_key_from_string = (\<lambda>_. Some []), private_key_from_string = (\<lambda>_. None),
     public_key_to_string = (\<lambda>_. ''GKEY''), verifying_key = id\<rparr>"

lemma demo_hex_length: "demo_hex_decode s = Some bs \<Longrightarrow> length s = 2 * length bs"
  by (induction s arbitrary: bs rule: demo_hex_decode.induct) (auto split: option.splits)

lemma demo_crates_length: "hex_length_law demo_crates"
  by (simp add: hex_length_law_def demo_crates_def demo_hex_length)

definition demo_request :: "nat \<Rightarrow> RelayRequest" where
  "demo_request n = \<lparr>rq_proof_hex = demo_hex_encode (replicate 256 7), rq_root_hex = demo_hex_encode (replicate 32 1),
     rq_nullifier_hash_hex = demo_hex_encode (to_be_bytes 32 n), rq_recipient = ''GBOB'', rq_fee = ''50'',
     rq_pool_contract_id = ''CPOOL''\<rparr>"

lemma demo_request_ok: "request_ok demo_crates (demo_request n)"
  unfolding request_ok_def demo_request_def demo_crates_def
  by (simp add: demo_trim_hex demo_hex_roundtrip del: replicate.simps)

definition demo_config :: RelayerConfig where
  "demo_config = \<lparr>cfg_secret_key = ''SKEY'', cfg_rpc_url = ''http'', cfg_network_passphrase = ''Test'',
     cfg_fee_bps = 50, cfg_max_pending = 1\<rparr>"

definition demo_relayer :: RelayerState where
  "demo_relayer = relayer_new demo_crates demo_config"

lemma demo_relayer_simps [simp]:
  "pending_nullifiers demo_relayer = {}" "config demo_relayer = demo_config" "cfg_max_pending demo_config = 1"
  by (simp_all add: demo_relayer_def relayer_new_def demo_config_def)

subsection \<open>The handler\<close>

text \<open>A relay request run to its end never panics, never succeeds and changes nothing:
  whatever the RPC answers, the response is an error with status 400, 409, 429 or 500, the
  nullifier is taken out of the pending set again and the statistics stay as they were. The
  slices of the log line are within the validated strings; the submission is a placeholder.\<close>

lemma relay_handler_never_succeeds:
  assumes "hex_length_law k"
  shows "\<exists>r. handle_relay answer k q s = Inr (r, s) \<and> \<not> rs_success r \<and> rs_status r \<in> {400, 409, 429, 500}"
proof (cases "relay_check k q s")
  case (Some r)
  then have "rs_status r \<in> {400, 409, 429}" "\<not> rs_success r"
    by (auto simp: relay_check_def relay_failed_def split: if_splits sum.splits failure.splits)
  with Some show ?thesis by (auto simp: handle_relay_def handle_relay_with_def)
next
  case None
  then obtain a b where new: "rq_nullifier_hash_hex q \<notin> pending_nullifiers s"
    and hex: "hex_decode k (trim_0x (rq_root_hex q)) = Some a" "length a = 32"
      "hex_decode k (trim_0x (rq_nullifier_hash_hex q)) = Some b" "length b = 32"
    by (auto simp: relay_check_None)
  obtain err where sub: "submit_withdrawal answer (rq_root_hex q) (rq_nullifier_hash_hex q) = Inr (submit_failed err)"
    using submit_withdrawal_total [OF assms hex] by blast
  have "relay_remove q (relay_insert q s) = s"
    using new by (simp add: relay_remove_def relay_insert_def)
  with None sub show ?thesis
    by (simp add: handle_relay_def handle_relay_with_def Let_def submit_failed_def relay_response_def relay_failed_def)
qed

text \<open>The fee and the pool of a request are not validated: the handler answers a request
  the same way whatever its fee text and contract id are, although \<open>validate.rs\<close> says the fee
  parameters are checked before broadcasting (\<open>validate_relay_request\<close> is never called).\<close>

lemma relay_ignores_fee_and_pool:
  "handle_relay answer k (q\<lparr>rq_fee := f, rq_pool_contract_id := p\<rparr>) s = handle_relay answer k q s"
proof -
  let ?q = "q\<lparr>rq_fee := f, rq_pool_contract_id := p\<rparr>"
  have fields: "rq_proof_hex ?q = rq_proof_hex q" "rq_root_hex ?q = rq_root_hex q"
    "rq_nullifier_hash_hex ?q = rq_nullifier_hash_hex q" "rq_recipient ?q = rq_recipient q" by simp_all
  have "relay_check k ?q s = relay_check k q s" "relay_insert ?q s = relay_insert q s"
    "relay_remove ?q s' = relay_remove q s'" for s'
    by (simp_all only: relay_check_def relay_insert_def relay_remove_def fields)
  moreover have "submit_withdrawal answer (rq_root_hex ?q) (rq_nullifier_hash_hex ?q) =
      submit_withdrawal answer (rq_root_hex q) (rq_nullifier_hash_hex q)" by simp
  moreover have "\<not> sr_success res" if "submit_withdrawal answer (rq_root_hex q) (rq_nullifier_hash_hex q) = Inr res" for res
    using that by (auto simp: submit_withdrawal_def submit_failed_def and_then_eq_Inr split: HealthAnswer.splits option.splits)
  ultimately show ?thesis
    unfolding handle_relay_def handle_relay_with_def Let_def
    by (cases "submit_withdrawal answer (rq_root_hex q) (rq_nullifier_hash_hex q)") (auto split: option.split)
qed

text \<open>What the unused \<open>validate_relay_request\<close> would enforce: for fees of at most 10000
  basis points it accepts exactly the well-formed requests whose fee text is a number equal to
  \<open>denomination * bps / 10000\<close> (rounded down), which never exceeds the denomination.\<close>

lemma validate_relay_request_spec:
  assumes "unat bps \<le> 10000"
  shows "(validate_relay_request k pf rt nf rc f pool bps d = Inr ()) \<longleftrightarrow>
    (\<exists>a. validate_hex k pf 256 = Inr a) \<and> (\<exists>b. validate_hex k rt 32 = Inr b) \<and> (\<exists>c. validate_hex k nf 32 = Inr c) \<and>
    public_key_from_string k rc \<noteq> None \<and>
    (\<exists>n. parse_u64 f = Some n \<and> unat n = unat d * unat bps div 10000 \<and> unat n \<le> unat d) \<and> pool \<noteq> []"
proof -
  have d: "unat d < 2 ^ 64" using unsigned_less [of d, where ?'a = nat] by simp
  have "unat d * unat bps \<le> unat d * 10000" using assms by simp
  then have le: "unat d * unat bps div 10000 \<le> unat d" by linarith
  then have fee: "unat (ucast (expected_relay_fee d bps) :: u64) = unat d * unat bps div 10000"
    using d by (simp add: unsigned_ucast_eq take_bit_nat_eq_self unat_expected_relay_fee)
  have eq: "n = ucast (expected_relay_fee d bps) \<longleftrightarrow> unat n = unat d * unat bps div 10000 \<and> unat n \<le> unat d" for n :: u64
    using le by (auto simp: word_unat_eq_iff fee)
  have "validate_relay_request k pf rt nf rc f pool bps d = Inr () \<longleftrightarrow>
    (\<exists>a. validate_hex k pf 256 = Inr a) \<and> (\<exists>b. validate_hex k rt 32 = Inr b) \<and> (\<exists>c. validate_hex k nf 32 = Inr c) \<and>
    public_key_from_string k rc \<noteq> None \<and> (\<exists>n. parse_u64 f = Some n \<and> n = ucast (expected_relay_fee d bps)) \<and> pool \<noteq> []"
    unfolding validate_relay_request_def validate_stellar_address_def
    by (cases "public_key_from_string k rc"; cases "parse_u64 f") (auto simp: and_then_eq_Inr Let_def split: if_splits)
  then show ?thesis unfolding eq .
qed

subsection \<open>Concurrent requests\<close>

text \<open>The phases are the handler: in any world, the task of an arrived request can run to
  its end alone, and then gives the response and the shared state of the whole handler.\<close>

lemma relay_phases_refine_handler:
  assumes "handle_relay_with submit k q (shared w) = Inr (r, s')" and "tasks w i = Some (Arrived q)"
    and "\<forall>res. submit q = Inr res \<longrightarrow> outcome q res"
  shows "\<exists>w'. relay_steps drops k outcome w w' \<and> shared w' = s' \<and> tasks w' i = Some (Answered r)"
  using handler_is_a_run [OF assms(1,2), of outcome drops] assms(3) by blast

text \<open>(C39) Without disconnecting clients the pending set does not leak: in every reachable
  interleaving each pending nullifier belongs to a request that is being submitted, so once
  every request is answered the set is empty again.\<close>

theorem pending_set_drains:
  assumes idle: "pending_nullifiers s = {}" and steps: "relay_steps False k outcome (idle_world s) w"
  shows "pending_nullifiers (shared w) \<subseteq> in_flight w \<and>
    ((\<forall>i ph. tasks w i = Some ph \<longrightarrow> \<not> awaiting ph) \<longrightarrow> pending_nullifiers (shared w) = {})"
proof -
  have "pending_ok (idle_world s)" using idle by (simp add: pending_ok_def idle_world_def)
  then have sub: "pending_nullifiers (shared w) \<subseteq> in_flight w"
    using relay_steps_pending [OF steps] by (simp add: pending_ok_def)
  moreover have "in_flight w = {}" if "\<forall>i ph. tasks w i = Some ph \<longrightarrow> \<not> awaiting ph"
    using that awaiting.simps(5,6) unfolding in_flight_def by blast
  ultimately show ?thesis by blast
qed

text \<open>One request on its way, up to its submission.\<close>

definition demo_world :: world where
  "demo_world = advance 0 (Submitting (demo_request 1)) (relay_insert (demo_request 1) demo_relayer)
     (advance 0 (Checked (demo_request 1)) demo_relayer
       (advance 0 (Arrived (demo_request 1)) demo_relayer (idle_world demo_relayer)))"

lemma demo_world_reached: "relay_steps False demo_crates (\<lambda>_ _. True) (idle_world demo_relayer) demo_world"
proof -
  let ?w0 = "idle_world demo_relayer"
  let ?w1 = "advance 0 (Arrived (demo_request 1)) (shared ?w0) ?w0"
  let ?w2 = "advance 0 (Checked (demo_request 1)) (shared ?w1) ?w1"
  let ?w3 = "advance 0 (Submitting (demo_request 1)) (relay_insert (demo_request 1) (shared ?w2)) ?w2"
  have "relay_step False demo_crates (\<lambda>_ _. True) ?w0 ?w1"
    by (rule arrive) (simp add: idle_world_def)
  moreover have "relay_step False demo_crates (\<lambda>_ _. True) ?w1 ?w2"
    by (rule check_passes) (simp_all add: idle_world_def relay_check_passes demo_request_ok)
  moreover have "relay_step False demo_crates (\<lambda>_ _. True) ?w2 ?w3"
    by (rule relay_step.insert) simp
  moreover have "demo_world = ?w3" by (simp add: demo_world_def idle_world_def)
  ultimately show ?thesis by (auto intro: steps_one)
qed

lemma pending_set_drains_witness:
  "pending_nullifiers (shared demo_world) \<subseteq> in_flight demo_world \<and>
   pending_nullifiers (shared demo_world) = {rq_nullifier_hash_hex (demo_request 1)}"
  using pending_set_drains [OF _ demo_world_reached]
  by (simp add: demo_world_def relay_insert_def)

text \<open>The check and the insertion race: any two valid requests can both pass the capacity
  and duplicate checks before either is inserted, and are then both being submitted. With the
  same nullifier this is the duplicate submission the pending set is meant to prevent; with
  different ones and a capacity of one, the capacity is exceeded.\<close>

lemma relay_check_races:
  assumes "pending_nullifiers s = {}" and "0 < cfg_max_pending (config s)" and "request_ok k a" and "request_ok k b"
  shows "\<exists>w. relay_steps drops k outcome (idle_world s) w \<and>
    tasks w 0 = Some (Submitting a) \<and> tasks w 1 = Some (Submitting b) \<and>
    pending_nullifiers (shared w) = {rq_nullifier_hash_hex a, rq_nullifier_hash_hex b} \<and> config (shared w) = config s"
  by (rule two_in_flight [OF assms])

text \<open>(C40) A client that disconnects leaks its nullifier: dropping the handler while it submits
  skips the removal. Valid requests with distinct nullifiers, as many as the capacity, each
  dropped by its client while it is submitted, lead to a world without any task at work from which there is
  no way out: whatever requests arrive later, however they interleave and whatever the submission would
  answer, the settings and the pending set stay as they are, every check gives 429, and no request that
  arrives is ever answered otherwise. Only a restart of the process empties the set.\<close>

theorem dropped_requests_exhaust_capacity:
  assumes idle: "pending_nullifiers s = {}" and ok: "\<forall>q\<in>set qs. request_ok k q"
    and dist: "distinct (map rq_nullifier_hash_hex qs)" and len: "length qs = cfg_max_pending (config s)"
  shows "\<exists>w. relay_steps True k outcome (idle_world s) w \<and> (\<forall>i ph. tasks w i = Some ph \<longrightarrow> \<not> awaiting ph) \<and>
    (\<forall>drops outcome' w'. relay_steps drops k outcome' w w' \<longrightarrow> shared w' = shared w \<and>
      (\<forall>q. relay_check k q (shared w') = Some (relay_failed 429 (Some AtCapacity))) \<and>
      (\<forall>i r. tasks w' i = Some (Answered r) \<longrightarrow> r = relay_failed 429 (Some AtCapacity)))"
proof -
  obtain w where w: "relay_steps True k outcome (idle_world s) w"
    "pending_nullifiers (shared w) = rq_nullifier_hash_hex ` set qs" "config (shared w) = config s"
    "\<forall>i. tasks w i = (if i < length qs then Some Dropped else None)"
    using drops_fill_pending [OF ok dist _ idle, of outcome] len by auto
  have "card (rq_nullifier_hash_hex ` set qs) = length qs"
    using dist by (metis distinct_card length_map set_map)
  with w len have stuck: "stuck w" by (auto simp: stuck_def split: if_splits)
  have later: "shared w' = shared w \<and> (\<forall>q. relay_check k q (shared w') = Some (relay_failed 429 (Some AtCapacity))) \<and>
      (\<forall>i r. tasks w' i = Some (Answered r) \<longrightarrow> r = relay_failed 429 (Some AtCapacity))"
    if "relay_steps drops k outcome' w w'" for drops outcome' w'
  proof -
    note steps = stuck_steps [OF that stuck]
    have "relay_check k q (shared w') = Some (relay_failed 429 (Some AtCapacity))" for q
      using stuck_check steps by blast
    moreover have "tasks w i \<noteq> Some (Answered r)" for i r using w(4) by (simp split: if_splits)
    ultimately show ?thesis using steps by blast
  qed
  have "\<not> awaiting ph" if "tasks w i = Some ph" for i ph using that w(4) by (simp split: if_splits)
  with w(1) later show ?thesis by blast
qed

lemma dropped_requests_exhaust_capacity_witness:
  "\<exists>w. relay_steps True demo_crates (\<lambda>_ _. True) (idle_world demo_relayer) w \<and>
    relay_check demo_crates (demo_request 9) (shared w) = Some (relay_failed 429 (Some AtCapacity))"
proof -
  obtain w where "relay_steps True demo_crates (\<lambda>_ _. True) (idle_world demo_relayer) w"
    and "\<forall>drops outcome w'. relay_steps drops demo_crates outcome w w' \<longrightarrow> shared w' = shared w \<and>
      (\<forall>q. relay_check demo_crates q (shared w') = Some (relay_failed 429 (Some AtCapacity))) \<and>
      (\<forall>i r. tasks w' i = Some (Answered r) \<longrightarrow> r = relay_failed 429 (Some AtCapacity))"
    using dropped_requests_exhaust_capacity [of demo_relayer "[demo_request 1]" demo_crates "\<lambda>_ _. True"] demo_request_ok
    by auto
  then show ?thesis by blast
qed

end
