(* ===== verification/Startup.thy ===== *)
theory Startup
  imports Relayer
begin

text \<open>
  \<open>main\<close> of \<open>relayer/src/main.rs\<close> and of \<open>indexer/src/main.rs\<close>: the settings read from the
  environment, the state the servers start with, and the listener task of the indexer. A
  variable that is missing or not Unicode is \<open>None\<close>; an \<open>expect\<close> that fails is a panic.
  Logging, binding the port and serving are the libraries'.
\<close>

type_synonym environment = "string \<Rightarrow> string option"

text \<open>\<open>std::env::var(name).unwrap_or_else(|_| default.to_string())\<close>\<close>

definition env_or :: "environment \<Rightarrow> string \<Rightarrow> string \<Rightarrow> string" where
  "env_or vars name dflt = (case vars name of Some v \<Rightarrow> v | None \<Rightarrow> dflt)"

subsection \<open>The relayer\<close>

definition network_passphrase :: "string \<Rightarrow> string" where
  "network_passphrase network =
     (if network = ''mainnet'' then ''Public Global Stellar Network ; September 2015''
      else ''Test SDF Network ; September 2015'')"

definition relayer_start :: "'z relayer_crates_scheme \<Rightarrow> environment \<Rightarrow> (RelayerState \<times> 16 word) run" where
  "relayer_start k vars =
     and_then (unwrap (vars ''RELAYER_SECRET_KEY'')) (\<lambda>secret_key.
     let rpc_url = env_or vars ''SOROBAN_RPC_URL'' ''https://soroban-testnet.stellar.org'';
         network = env_or vars ''STELLAR_NETWORK'' ''testnet'' in
     and_then (unwrap (parse_u16 (env_or vars ''RELAYER_PORT'' ''3002''))) (\<lambda>port.
     and_then (unwrap (parse_u32 (env_or vars ''FEE_BPS'' ''50''))) (\<lambda>fee_bps.
     and_then (unwrap (parse_usize (env_or vars ''MAX_PENDING'' ''10''))) (\<lambda>max_pending.
     Inr (relayer_new k
            \<lparr>cfg_secret_key = secret_key, cfg_rpc_url = rpc_url,
             cfg_network_passphrase = network_passphrase network,
             cfg_fee_bps = fee_bps, cfg_max_pending = max_pending\<rparr>, port)))))"

subsection \<open>The indexer\<close>

record IndexerServer =
  srv_state :: AppState
  srv_rpc_url :: string
  srv_poll_interval :: u64
  srv_port :: "16 word"

text \<open>
  \<open>connect\<close> is \<open>db::Database::connect\<close> with the answers of the two queries that follow: \<open>None\<close>
  when the connection (or the migration) fails, and for each query \<open>None\<close> when it fails. The
  build without the feature \<open>postgres\<close> does not try.
\<close>

type_synonym db_connect = "string \<Rightarrow> ((u32 \<times> bytes32) list option \<times> u32 option) option"

definition attach_database :: "('fr, 'z) field_crypto_scheme \<Rightarrow> bool \<Rightarrow> db_connect \<Rightarrow> environment \<Rightarrow> AppState \<Rightarrow> AppState run" where
  "attach_database c postgres connect vars s =
     (if \<not> postgres then Inr s
      else case vars ''DATABASE_URL'' of
        None \<Rightarrow> Inr s
      | Some database_url \<Rightarrow>
          (case connect database_url of
             None \<Rightarrow> Inr s
           | Some (all_commitments, last_ledger) \<Rightarrow> restore_state c all_commitments last_ledger s))"

definition indexer_start :: "('fr, 'z) field_crypto_scheme \<Rightarrow> codec \<Rightarrow> bool \<Rightarrow> db_connect \<Rightarrow> environment \<Rightarrow> IndexerServer run" where
  "indexer_start c k postgres connect vars =
     (let rpc_url = env_or vars ''SOROBAN_RPC_URL'' ''https://soroban-testnet.stellar.org'' in
     and_then (unwrap (vars ''CONTRACT_ID'')) (\<lambda>contract_id.
     and_then (unwrap (parse_i128 (env_or vars ''DENOMINATION'' ''10000000000''))) (\<lambda>denomination.
     and_then (unwrap (parse_u32 (env_or vars ''TREE_DEPTH'' ''20''))) (\<lambda>tree_depth.
     and_then (unwrap (parse_u16 (env_or vars ''API_PORT'' ''3001''))) (\<lambda>api_port.
     and_then (unwrap (parse_u64 (env_or vars ''POLL_INTERVAL_SECS'' ''5''))) (\<lambda>poll_interval.
     and_then (new_shared_state c k contract_id denomination tree_depth) (\<lambda>shared_state.
     and_then (attach_database c postgres connect vars shared_state) (\<lambda>state.
     Inr \<lparr>srv_state = state, srv_rpc_url = rpc_url, srv_poll_interval = poll_interval, srv_port = api_port\<rparr>))))))))"

subsection \<open>When a start succeeds\<close>

lemma app_state_new_iff: "app_state_new c k cid d depth = Inl f \<longleftrightarrow> f = Panic \<and> depth = - 1"
proof (cases "depth = - 1")
  case True
  then show ?thesis by (auto simp: app_state_new_def tree_new_max)
next
  case False
  then show ?thesis using app_state_new_rep [OF False, of c k cid d] by auto
qed

text \<open>Restoring never panics, whatever the database answers.\<close>

lemma restore_state_rep:
  assumes "state_rep c k depth s []" and "st_last_ledger s = 0"
  shows "\<exists>s'. restore_state c rows ledger s = Inr s' \<and>
    mtree_rep c depth (st_tree s') (case rows of Some rs \<Rightarrow> map snd rs | None \<Rightarrow> []) \<and>
    st_roots s' = root_entries c k depth [] \<and> st_database s' \<and> st_spawned s' = st_spawned s \<and>
    st_contract_id s' = st_contract_id s \<and> st_denomination s' = st_denomination s \<and>
    st_last_ledger s' = (case ledger of Some l \<Rightarrow> l | None \<Rightarrow> 0)"
proof -
  have tree: "mtree_rep c depth (st_tree s) []" and roots: "st_roots s = root_entries c k depth []"
    using assms(1) by (simp_all add: state_rep_def)
  have "\<exists>t. restore_tree c rs (st_tree s) = Inr t \<and> mtree_rep c depth t (map snd rs)" for rs
    using restore_tree_rep [OF tree, of rs] by simp
  then obtain t where t: "\<And>rs. restore_tree c rs (st_tree s) = Inr (t rs) \<and> mtree_rep c depth (t rs) (map snd rs)"
    by metis
  show ?thesis
    using tree roots t assms(2)
    by (cases rows; cases ledger) (auto simp: restore_state_def Let_def word_gt_0)
qed

end
