(* ===== verification/IndexerService.thy ===== *)
theory IndexerService
  imports Startup IndexerApi
begin

text \<open>
  The indexer as a service: the routes of \<open>indexer/src/api.rs\<close>, \<open>Database::connect\<close> of \<open>db.rs\<close> for both
  builds, and the interleaving of the listener's turns with the requests that read the shared state.
  A turn writes under one write lock and a handler reads under one read lock, so a request sees
  the state between two turns.
\<close>

subsection \<open>Connecting to the database\<close>

text \<open>The tables of a server, which may not exist yet.\<close>

record PgTables =
  pt_commitments :: "(32 word \<times> u8 list) list option"
  pt_merkle_roots :: "(u8 list \<times> 32 word) list option"
  pt_indexer_state :: "(string \<rightharpoonup> string) option"

text \<open>\<open>CREATE TABLE IF NOT EXISTS\<close>\<close>

definition create_table :: "'a \<Rightarrow> 'a option \<Rightarrow> 'a option" where
  "create_table none table = (case table of Some rows \<Rightarrow> Some rows | None \<Rightarrow> Some none)"

definition initialize_schema :: "PgTables \<Rightarrow> PgTables" where
  "initialize_schema pg =
     \<lparr>pt_commitments = create_table [] (pt_commitments pg),
      pt_merkle_roots = create_table [] (pt_merkle_roots pg),
      pt_indexer_state = create_table Map.empty (pt_indexer_state pg)\<rparr>"

definition tables :: "PgTables \<Rightarrow> Database option" where
  "tables pg =
     (case (pt_commitments pg, pt_merkle_roots pg, pt_indexer_state pg) of
        (Some cs, Some rs, Some st) \<Rightarrow> Some \<lparr>commitments = cs, merkle_roots = rs, indexer_state = st\<rparr>
      | _ \<Rightarrow> None)"

text \<open>\<open>pool\<close> is \<open>PgPool::connect\<close>, \<open>executes\<close> whether the migration goes through. The build without the
  feature \<open>postgres\<close> has a stub that always fails.\<close>

definition database_connect_stub :: "string \<Rightarrow> Database option" where
  "database_connect_stub database_url = None"

definition database_connect :: "bool \<Rightarrow> (string \<Rightarrow> PgTables option) \<Rightarrow> (PgTables \<Rightarrow> bool) \<Rightarrow> string \<Rightarrow> Database option" where
  "database_connect postgres pool executes database_url =
     (if \<not> postgres then database_connect_stub database_url
      else Option.bind (pool database_url) (\<lambda>pg.
        if executes pg then tables (initialize_schema pg) else None))"

text \<open>The connection with the answers of the two queries of \<open>main\<close>, when they go through.\<close>

definition database_answers :: "(string \<Rightarrow> Database option) \<Rightarrow> db_connect" where
  "database_answers connect url =
     map_option (\<lambda>db. (Some (db_get_all_commitments db), Some (db_get_last_ledger db))) (connect url)"

lemma schema_keeps_tables:
  "tables pg = Some db \<Longrightarrow> tables (initialize_schema pg) = Some db"
  "initialize_schema (initialize_schema pg) = initialize_schema pg"
  "tables (initialize_schema pg) \<noteq> None"
  by (auto simp: tables_def initialize_schema_def create_table_def split: option.splits)

lemma fresh_server_is_empty:
  "tables (initialize_schema \<lparr>pt_commitments = None, pt_merkle_roots = None, pt_indexer_state = None\<rparr>) = Some empty_database"
  by (simp add: tables_def initialize_schema_def create_table_def empty_database_def)

text \<open>The start with a database is the restart from its tables.\<close>

lemma attach_is_restart:
  assumes "vars ''DATABASE_URL'' = Some url" and "connect url = Some db"
    and "app_state_new c k contract_id denomination tree_depth = Inr s"
  shows "attach_database c True (database_answers connect) vars s = restart c k contract_id denomination tree_depth db"
  using assms by (simp add: attach_database_def database_answers_def restart_def)

subsection \<open>Routes\<close>

text \<open>The responses axum makes itself, without a JSON body.\<close>

definition no_json :: "nat \<Rightarrow> HttpResponse" where
  "no_json status = \<lparr>http_status = status, http_body = JNull\<rparr>"

text \<open>\<open>Query<MerklePathQuery>\<close>: the parameter must be there once; others are ignored.\<close>

definition query_commitment :: "(string \<times> string) list \<Rightarrow> string option" where
  "query_commitment params =
     (case filter (\<lambda>(key, _). key = ''commitment'') params of [(_, v)] \<Rightarrow> Some v | _ \<Rightarrow> None)"

text \<open>A \<open>GET\<close> request: the routes, and 404 for any other path.\<close>

definition indexer_get :: "codec \<Rightarrow> string \<Rightarrow> (string \<times> string) list \<Rightarrow> AppState \<Rightarrow> HttpResponse run" where
  "indexer_get k path params s =
     (if path = ''/merkle-path'' then
        (case query_commitment params of Some commitment \<Rightarrow> merkle_path k commitment s | None \<Rightarrow> Inr (no_json 400))
      else if path = ''/pool-state'' then pool_state k s
      else if path = ''/roots'' then Inr (api_roots s)
      else if path = ''/health'' then Inr api_health
      else Inr (no_json 404))"

subsection \<open>The service\<close>

text \<open>What happens at the service: a turn of the listener with the RPC's answers, or a request. A
  handler that panics drops its connection and the server goes on, so a response is a \<open>run\<close>.\<close>

datatype service_event =
    Turn "json option" "u32 \<Rightarrow> RpcResponse option"
  | Get string "(string \<times> string) list"

fun is_get :: "service_event \<Rightarrow> bool" where
  "is_get (Get path params) = True"
| "is_get (Turn get_latest get_events) = False"

fun service_run :: "('fr, 'z) field_crypto_scheme \<Rightarrow> codec \<Rightarrow> service_event list \<Rightarrow> AppState \<Rightarrow>
    (HttpResponse run list \<times> AppState) run" where
  "service_run c k [] s = Inr ([], s)"
| "service_run c k (Turn get_latest get_events # evs) s =
     and_then (listener_turn c k get_latest get_events s) (service_run c k evs)"
| "service_run c k (Get path params # evs) s =
     and_then (service_run c k evs s) (\<lambda>(responses, s'). Inr (indexer_get k path params s # responses, s'))"

lemma service_run_append:
  "service_run c k (as @ bs) s =
     and_then (service_run c k as s) (\<lambda>(rs1, s1). and_then (service_run c k bs s1) (\<lambda>(rs2, s2). Inr (rs1 @ rs2, s2)))"
proof (induction as arbitrary: s)
  case Nil
  show ?case by (cases "service_run c k bs s") auto
next
  case (Cons ev evs)
  show ?case
  proof (cases ev)
    case (Turn gl ge)
    then show ?thesis by (cases "listener_turn c k gl ge s") (simp_all add: Cons.IH)
  next
    case (Get path params)
    show ?thesis
    proof (cases "service_run c k evs s")
      case (Inr r)
      then show ?thesis
        by (cases r; cases "service_run c k bs (snd r)") (auto simp: Get Cons.IH)
    qed (simp add: Get Cons.IH)
  qed
qed

lemma service_run_rep:
  assumes "state_rep c k depth s xs"
  shows "\<exists>rs s' ys. service_run c k evs s = Inr (rs, s') \<and> state_rep c k depth s' (xs @ ys) \<and> length rs = length (filter is_get evs)"
  using assms
proof (induction evs arbitrary: s xs)
  case Nil
  then show ?case by (intro exI [of _ "[]"] exI [of _ s]) simp
next
  case (Cons ev evs)
  show ?case
  proof (cases ev)
    case (Turn gl ge)
    obtain s1 ys where "listener_turn c k gl ge s = Inr s1" "state_rep c k depth s1 (xs @ ys)"
      using listener_turn_rep [OF Cons.prems] by blast
    with Cons.IH [of s1 "xs @ ys"] show ?thesis by (auto simp: Turn)
  next
    case (Get path params)
    with Cons.IH [OF Cons.prems] show ?thesis by (auto simp: Get)
  qed
qed

text \<open>Whatever the tree was restored from, the service never panics while it has fewer than
  \<open>2 ^ 32\<close> leaves, and it answers every request with one of four statuses.\<close>

lemma merkle_path_status: "merkle_path k q s = Inr r \<Longrightarrow> http_status r \<in> {200, 400, 404}"
  by (auto simp: merkle_path_def Let_def and_then_eq_Inr split: option.splits)

lemma indexer_get_answers:
  assumes tree: "mtree_rep c depth (st_tree s) xs" and small: "length xs < 2 ^ 32"
  shows "\<exists>r. indexer_get k path params s = Inr r \<and> http_status r \<in> {200, 400, 404}"
proof -
  have "\<exists>r. merkle_path k q s = Inr r \<and> http_status r \<in> {200, 400, 404}" for q
    using merkle_path_total [OF assms, of k q] merkle_path_status by blast
  then show ?thesis
    by (auto simp: indexer_get_def no_json_def api_roots_def api_health_def pool_state_rep [OF tree] split: option.split)
qed

lemma service_run_tree:
  assumes "mtree_rep c depth (st_tree s) xs"
  shows "\<exists>rs s' ys. service_run c k evs s = Inr (rs, s') \<and> mtree_rep c depth (st_tree s') (xs @ ys) \<and>
    length rs = length (filter is_get evs) \<and>
    (length (xs @ ys) < 2 ^ 32 \<longrightarrow> (\<forall>r\<in>set rs. \<exists>b. r = Inr b \<and> http_status b \<in> {200, 400, 404}))"
  using assms
proof (induction evs arbitrary: s xs)
  case Nil
  then show ?case by (intro exI [of _ "[]"] exI [of _ s]) simp
next
  case (Cons ev evs)
  show ?case
  proof (cases ev)
    case (Turn gl ge)
    obtain s1 ys where "listener_turn c k gl ge s = Inr s1" "mtree_rep c depth (st_tree s1) (xs @ ys)"
      using listener_turn_total [OF Cons.prems] by blast
    moreover from Cons.IH [OF this(2)] obtain rs s' zs where "service_run c k evs s1 = Inr (rs, s')"
        "mtree_rep c depth (st_tree s') ((xs @ ys) @ zs)" "length rs = length (filter is_get evs)"
        "length ((xs @ ys) @ zs) < 2 ^ 32 \<longrightarrow> (\<forall>r\<in>set rs. \<exists>b. r = Inr b \<and> http_status b \<in> {200, 400, 404})" by blast
    ultimately show ?thesis by (intro exI [of _ rs] exI [of _ s'] exI [of _ "ys @ zs"]) (simp add: Turn)
  next
    case (Get path params)
    from Cons.IH [OF Cons.prems] obtain rs s' ys where run: "service_run c k evs s = Inr (rs, s')"
        "mtree_rep c depth (st_tree s') (xs @ ys)" "length rs = length (filter is_get evs)"
      and answers: "length (xs @ ys) < 2 ^ 32 \<longrightarrow> (\<forall>r\<in>set rs. \<exists>b. r = Inr b \<and> http_status b \<in> {200, 400, 404})" by blast
    have "length (xs @ ys) < 2 ^ 32 \<longrightarrow> (\<exists>b. indexer_get k path params s = Inr b \<and> http_status b \<in> {200, 400, 404})"
      using indexer_get_answers [OF Cons.prems] by simp
    with run answers show ?thesis by (auto simp: Get)
  qed
qed

text \<open>What a path served with status 200 says about its root and its leaf.\<close>

lemma merkle_path_ok:
  assumes tree: "mtree_rep c depth (st_tree s) xs" and small: "length xs < 2 ^ 32"
    and r: "merkle_path k q s = Inr r" "http_status r = 200"
  shows "\<exists>l<length xs. json_get ''leaf_index'' (http_body r) = Some (JNumber (int l)) \<and>
    json_get ''root'' (http_body r) = Some (JString (hex_encode k (array_list (idx_node c xs (unat depth) 0))))"
proof -
  have leaves: "mt_leaves (st_tree s) = xs" using tree by (simp add: mtree_rep_def)
  obtain x where x: "hex_commitment k (trim_0x q) = Some x"
    using r by (auto simp: merkle_path_def Let_def split: option.splits)
  obtain i where pos: "vec_position xs x = Some i"
    using r x by (auto simp: merkle_path_def Let_def find_commitment_def leaves split: option.splits)
  then have i: "i < length xs" by (simp add: vec_position_Some)
  let ?i = "word_of_nat i :: u32"
  have u: "unat ?i = i" using i small by (intro unat_of_nat_u32) simp
  then have ui: "uint ?i = int i" by (metis of_nat_unat)
  obtain es ds where "tree_proof ?i (st_tree s) = Inr (Some \<lparr>mp_root = idx_node c xs (unat depth) 0, mp_path_elements = es,
      mp_path_indices = ds, mp_leaf_index = ?i\<rparr>)"
    using tree_proof_rep [OF tree small, of ?i] i unfolding u by blast
  then have "http_body r = JObject
      [(''root'', JString (hex_encode k (array_list (idx_node c xs (unat depth) 0)))),
       (''path_elements'', JArray (map JString (map (\<lambda>e. hex_encode k (array_list e)) es))),
       (''path_indices'', JArray (map (\<lambda>i. JNumber (uint i)) ds)), (''leaf_index'', JNumber (int i))]"
    using r x pos ui by (auto simp: merkle_path_def Let_def find_commitment_def leaves)
  with i show ?thesis by (auto simp: json_get_def)
qed

lemma root_listed:
  assumes "state_rep c k depth s (xs @ ys)" and "length xs < 2 ^ 32"
  shows "\<exists>entries. api_roots s = \<lparr>http_status = 200, http_body = JArray entries\<rparr> \<and>
    JObject [(''root'', JString (hex_encode k (array_list (idx_node c xs (unat depth) 0)))),
      (''deposit_index'', JNumber (int (length xs)))] \<in> set entries"
proof -
  let ?e = "\<lparr>re_root = hex_encode k (array_list (idx_node c xs (unat depth) 0)), re_deposit_index = word_of_nat (length xs)\<rparr>"
  have "?e \<in> set (root_entries c k depth (xs @ ys))"
    unfolding root_entries_def by (auto intro!: image_eqI [of _ _ "length xs"])
  moreover have "uint (word_of_nat (length xs) :: u32) = int (length xs)"
    using unat_of_nat_u32 [of "length xs"] assms(2) by (simp add: uint_nat)
  ultimately show ?thesis
    using assms(1) by (force simp: api_roots_def state_rep_def)
qed

end
