(* ===== verification/RpcJson.thy ===== *)
theory RpcJson
  imports Relayer
begin

text \<open>
  What serde reads from the JSON of the Soroban RPC: the response structures of
  \<open>indexer/src/listener.rs\<close> and of \<open>relayer/src/rpc.rs\<close>. A missing field or one of another type makes
  the whole response unreadable, except for an \<open>Option\<close>, which is \<open>None\<close> for a missing field and for
  \<open>null\<close>. Objects have distinct keys; an array in the place of an object, which serde would
  read by position, counts as unreadable.
\<close>

subsection \<open>Fields\<close>

definition json_as_u32 :: "json \<Rightarrow> u32 option" where
  "json_as_u32 v = (case v of JNumber n \<Rightarrow> if 0 \<le> n \<and> n < 2 ^ 32 then Some (word_of_int n) else None | _ \<Rightarrow> None)"

definition json_as_array :: "json \<Rightarrow> json list option" where
  "json_as_array v = (case v of JArray xs \<Rightarrow> Some xs | _ \<Rightarrow> None)"

definition json_field :: "string \<Rightarrow> (json \<Rightarrow> 'a option) \<Rightarrow> json \<Rightarrow> 'a option" where
  "json_field key read v = Option.bind (json_get key v) read"

text \<open>\<open>Option<T>\<close>: the outer \<open>None\<close> is a failure.\<close>

definition json_option :: "string \<Rightarrow> (json \<Rightarrow> 'a option) \<Rightarrow> json \<Rightarrow> 'a option option" where
  "json_option key read v =
     (case json_get key v of
        None \<Rightarrow> Some None
      | Some JNull \<Rightarrow> Some None
      | Some x \<Rightarrow> map_option Some (read x))"

definition json_is_object :: "json \<Rightarrow> bool" where
  "json_is_object v = (case v of JObject members \<Rightarrow> True | _ \<Rightarrow> False)"

fun read_all :: "(json \<Rightarrow> 'a option) \<Rightarrow> json list \<Rightarrow> 'a list option" where
  "read_all read [] = Some []"
| "read_all read (v # vs) = Option.bind (read v) (\<lambda>x. Option.bind (read_all read vs) (\<lambda>xs. Some (x # xs)))"

subsection \<open>The indexer's side\<close>

definition read_event :: "json \<Rightarrow> EventEntry option" where
  "read_event v =
     Option.bind (json_field ''type'' json_as_str v) (\<lambda>ty.
     Option.bind (json_field ''ledger'' json_as_u32 v) (\<lambda>ledger.
     Option.bind (json_field ''topic'' json_as_array v) (\<lambda>topic.
     Option.bind (json_field ''value'' Some v) (\<lambda>val.
     Some \<lparr>ev_type = ty, ev_ledger = ledger, ev_topic = topic, ev_value = val\<rparr>))))"

definition read_page :: "json \<Rightarrow> GetEventsResult option" where
  "read_page v =
     Option.bind (json_field ''events'' json_as_array v) (\<lambda>entries.
     Option.bind (read_all read_event entries) (\<lambda>events.
     Option.bind (json_field ''latestLedger'' json_as_u32 v) (\<lambda>latest_ledger.
     Some \<lparr>ger_events = events, ger_latest_ledger = latest_ledger\<rparr>)))"

definition read_rpc_response :: "json \<Rightarrow> RpcResponse option" where
  "read_rpc_response v =
     (if \<not> json_is_object v then None
      else Option.bind (json_option ''result'' read_page v) (\<lambda>result.
           Option.bind (json_option ''error'' Some v) (\<lambda>error.
           Some \<lparr>rr_result = result, rr_error = error\<rparr>)))"

text \<open>A turn against an RPC that answers requests with JSON, or not at all.\<close>

definition listener_turn_json :: "('fr, 'z) field_crypto_scheme \<Rightarrow> codec \<Rightarrow> (RpcRequest \<Rightarrow> json option) \<Rightarrow> AppState \<Rightarrow> AppState run" where
  "listener_turn_json c k post s = listener_turn_rpc c k post (\<lambda>req. Option.bind (post req) read_rpc_response) s"

subsection \<open>The relayer's side\<close>

definition health_request :: RpcRequest where
  "health_request = \<lparr>rpc_jsonrpc = ''2.0'', rpc_id = 1, rpc_method = ''getHealth'', rpc_params = JObject []\<rparr>"

record HealthResponse =
  hr_result :: "json option"
  hr_error :: "json option"

definition read_health_response :: "json \<Rightarrow> HealthResponse option" where
  "read_health_response v =
     (if \<not> json_is_object v then None
      else Option.bind (json_option ''result'' Some v) (\<lambda>result.
           Option.bind (json_option ''error'' Some v) (\<lambda>error.
           Some \<lparr>hr_result = result, hr_error = error\<rparr>)))"

text \<open>\<open>client.post(rpc_url).json(&health_req).send()\<close> and \<open>health_resp.json()\<close>: \<open>None\<close> without a connection,
  \<open>Some None\<close> for a body that is not JSON.\<close>

definition health_answer :: "(RpcRequest \<Rightarrow> json option option) \<Rightarrow> HealthAnswer" where
  "health_answer post =
     (case post health_request of
        None \<Rightarrow> NoConnection
      | Some None \<Rightarrow> UnreadableBody
      | Some (Some v) \<Rightarrow>
          (case read_health_response v of
             None \<Rightarrow> UnreadableBody
           | Some health \<Rightarrow> Health (hr_error health)))"

subsection \<open>Round trip\<close>

definition event_json :: "EventEntry \<Rightarrow> json" where
  "event_json ev = JObject [(''type'', JString (ev_type ev)), (''ledger'', JNumber (uint (ev_ledger ev))),
     (''topic'', JArray (ev_topic ev)), (''value'', ev_value ev)]"

definition page_json :: "GetEventsResult \<Rightarrow> json" where
  "page_json page = JObject [(''jsonrpc'', JString ''2.0''), (''id'', JNumber 1),
     (''result'', JObject [(''latestLedger'', JNumber (uint (ger_latest_ledger page))),
       (''events'', JArray (map event_json (ger_events page)))])]"

lemma json_as_u32_uint [simp]: "json_as_u32 (JNumber (uint (n :: u32))) = Some n"
  using uint_lt2p [of n] by (simp add: json_as_u32_def)

lemma read_event_json [simp]: "read_event (event_json ev) = Some ev"
  by (simp add: read_event_def event_json_def json_field_def json_get_def json_as_str_def json_as_array_def)

lemma read_all_map: "(\<And>x. x \<in> set xs \<Longrightarrow> read (f x) = Some x) \<Longrightarrow> read_all read (map f xs) = Some xs"
  by (induction xs) auto

lemma read_page_json: "read_rpc_response (page_json page) = Some \<lparr>rr_result = Some page, rr_error = None\<rparr>"
proof -
  have "read_all read_event (map event_json (ger_events page)) = Some (ger_events page)" by (rule read_all_map) simp
  then show ?thesis
    by (simp add: read_rpc_response_def page_json_def json_is_object_def json_option_def json_get_def read_page_def
        json_field_def json_as_array_def)
qed

subsection \<open>One unreadable event\<close>

lemma read_all_None: "v \<in> set vs \<Longrightarrow> read v = None \<Longrightarrow> read_all read vs = None"
proof (induction vs)
  case (Cons w ws)
  then show ?case by (cases "read w"; cases "read_all read ws") auto
qed simp

text \<open>The loop of \<open>start_event_listener\<close> against an RPC whose answers do not change.\<close>

primrec json_turns :: "('fr, 'z) field_crypto_scheme \<Rightarrow> codec \<Rightarrow> (RpcRequest \<Rightarrow> json option) \<Rightarrow> nat \<Rightarrow> AppState \<Rightarrow> AppState run" where
  "json_turns c k post 0 s = Inr s"
| "json_turns c k post (Suc n) s = and_then (listener_turn_json c k post s) (json_turns c k post n)"

text \<open>A page with an entry that serde refuses is refused as a whole: the turn changes nothing, so that
  the same page is asked for again, and as long as the RPC gives the same answer no later deposit is
  indexed.\<close>

lemma unreadable_event_stalls:
  assumes start: "poll_start (post latest_ledger_request) s = Inr start"
    and answer: "post (events_request (st_contract_id s) start) =
      Some (JObject [(''result'', JObject [(''latestLedger'', latest), (''events'', JArray entries)])])"
    and bad: "v \<in> set entries" "read_event v = None"
  shows "json_turns c k post n s = Inr s"
proof (induction n)
  case 0
  show ?case by simp
next
  case (Suc n)
  have "read_all read_event entries = None" using read_all_None [where read = read_event, OF bad] .
  then have "read_rpc_response (JObject [(''result'', JObject [(''latestLedger'', latest), (''events'', JArray entries)])]) = None"
    by (simp add: read_rpc_response_def json_is_object_def json_option_def json_get_def read_page_def json_field_def json_as_array_def)
  then have "listener_turn_json c k post s = Inr s"
    by (simp add: listener_turn_json_def listener_turn_rpc_def listener_turn_def poll_events_def start answer)
  with Suc show ?case by simp
qed

text \<open>A turn with a readable page is the turn the model of the listener takes with that page.\<close>

lemma readable_page_turn:
  assumes "poll_start (post latest_ledger_request) s = Inr start"
    and "post (events_request (st_contract_id s) start) = Some (page_json page)"
  shows "listener_turn_json c k post s =
    listener_turn c k (post latest_ledger_request) (\<lambda>_. Some \<lparr>rr_result = Some page, rr_error = None\<rparr>) s"
  using assms by (simp add: listener_turn_json_def listener_turn_rpc_def listener_turn_def poll_events_def read_page_json)

lemma health_answer_ok:
  "post health_request = Some (Some (JObject members)) \<Longrightarrow>
   health_answer post = Health (case map_of members ''error'' of Some JNull \<Rightarrow> None | err \<Rightarrow> err)"
  by (auto simp: health_answer_def read_health_response_def json_is_object_def json_option_def json_get_def split: option.splits json.splits)

end
