(* ===== verification/StartupProperties.thy ===== *)
theory StartupProperties
  imports IndexerService RpcJson RelayerProperties
begin

text \<open>
  The properties of the two start-ups with their witnesses: which settings take effect, what
  makes a start abort, and what a start that goes through can still leave broken.
\<close>

subsection \<open>The relayer\<close>

text \<open>No step of the relayer changes its settings or its address.\<close>

lemma relay_step_settings:
  "relay_step drops k outcome w w' \<Longrightarrow>
   config (shared w') = config (shared w) \<and> relayer_address (shared w') = relayer_address (shared w)"
  by (induction rule: relay_step.induct)
    (simp_all add: relay_insert_def relay_remove_def relay_count_def relay_earn_def Let_def)

lemma relay_steps_settings:
  "relay_steps drops k outcome w w' \<Longrightarrow>
   config (shared w') = config (shared w) \<and> relayer_address (shared w') = relayer_address (shared w)"
  by (induction rule: rtranclp_induct) (auto dest: relay_step_settings)

text \<open>The settings survive their text: a relayer started with the decimal text of any port,
  any fee rate and any capacity of their types listens on that port and reports that rate and
  that capacity, now and after any sequence of requests. Nothing bounds them: a rate above
  10000 basis points is a fee above the denomination, and a capacity of zero answers every
  request with 429 for ever.\<close>

lemma relayer_settings_roundtrip:
  assumes "vars ''RELAYER_SECRET_KEY'' = Some key" and "vars ''RELAYER_PORT'' = Some (to_decimal (unat port))"
    and "vars ''FEE_BPS'' = Some (to_decimal (unat bps))" and "vars ''MAX_PENDING'' = Some (to_decimal n)" and "n < 2 ^ 64"
  shows "\<exists>s. relayer_start k vars = Inr (s, port) \<and>
    (\<forall>w. relay_steps drops k outcome (idle_world s) w \<longrightarrow>
      status_fee_bps (handle_status (shared w)) = bps \<and> status_max_pending (handle_status (shared w)) = n \<and>
      (n = 0 \<longrightarrow> (\<forall>q. relay_check k q (shared w) = Some (relay_failed 429 (Some AtCapacity))))) \<and>
    (10000 < unat bps \<longrightarrow> 10000 \<le> unat (d :: u64) \<longrightarrow> unat d < unat (expected_relay_fee d bps))"
proof -
  let ?s = "relayer_new k \<lparr>cfg_secret_key = key,
      cfg_rpc_url = env_or vars ''SOROBAN_RPC_URL'' ''https://soroban-testnet.stellar.org'',
      cfg_network_passphrase = network_passphrase (env_or vars ''STELLAR_NETWORK'' ''testnet''),
      cfg_fee_bps = bps, cfg_max_pending = n\<rparr>"
  have "relayer_start k vars = Inr (?s, port)"
    using assms by (simp add: relayer_start_def env_or_def parse_to_decimal_laws Let_def)
  moreover have "config (shared w) = config ?s" if "relay_steps drops k outcome (idle_world ?s) w" for w
    using relay_steps_settings [OF that] by (simp add: idle_world_def)
  moreover have "unat d < unat (expected_relay_fee d bps)" if "10000 < unat bps" "10000 \<le> unat d"
  proof -
    have "unat d * 10001 \<le> unat d * unat bps" using that by simp
    then show ?thesis using that(2) unfolding unat_expected_relay_fee by linarith
  qed
  moreover have "relay_check k q s = Some (relay_failed 429 (Some AtCapacity))" if "cfg_max_pending (config s) = 0" for q s
    using that by (simp add: relay_check_def)
  ultimately show ?thesis
    by (intro exI [of _ ?s] conjI allI impI) (simp_all add: handle_status_def relayer_new_def)
qed

text \<open>A secret that \<open>PrivateKey::from_string\<close> refuses (a stray space is enough) becomes the
  relayer's public address: the start goes through, and \<open>GET /status\<close> answers with the secret
  itself, now and after any sequence of requests.\<close>

lemma relayer_publishes_unparsed_secret:
  assumes "vars ''RELAYER_SECRET_KEY'' = Some secret" and "private_key_from_string k secret = None"
    and start: "relayer_start k vars = Inr (s, port)" and "relay_steps drops k outcome (idle_world s) w"
  shows "status_address (handle_status (shared w)) = secret"
proof -
  have "relayer_address s = secret"
    using assms(1-3) by (auto simp: relayer_start_def and_then_eq_Inr Let_def relayer_new_def derive_public_address_def)
  then show ?thesis
    using relay_steps_settings [OF assms(4)] by (simp add: handle_status_def idle_world_def)
qed

subsection \<open>The indexer\<close>

definition bad_setting :: "environment \<Rightarrow> string \<Rightarrow> string \<Rightarrow> (string \<Rightarrow> 'a option) \<Rightarrow> bool" where
  "bad_setting vars name dflt parse \<longleftrightarrow> parse (env_or vars name dflt) = None"

lemma attach_database_tree:
  assumes new: "app_state_new c k cid d depth = Inr s"
  shows "\<exists>s'. attach_database c postgres connect vars s = Inr s'"
    and "attach_database c postgres connect vars s = Inr s' \<Longrightarrow> \<exists>xs. mtree_rep c depth (st_tree s') xs"
proof -
  have "depth \<noteq> - 1" using assms by (metis Inr_Inl_False app_state_new_iff)
  then have s: "state_rep c k depth s []" "st_last_ledger s = 0"
    using app_state_new_rep [of depth c k cid d] assms by auto
  then have tree: "mtree_rep c depth (st_tree s) []" by (simp add: state_rep_def)
  have "\<exists>s'. attach_database c postgres connect vars s = Inr s' \<and> (\<exists>xs. mtree_rep c depth (st_tree s') xs)"
  proof (cases "postgres \<and> vars ''DATABASE_URL'' \<noteq> None \<and> connect (the (vars ''DATABASE_URL'')) \<noteq> None")
    case False
    then have "attach_database c postgres connect vars s = Inr s"
      by (auto simp: attach_database_def split: option.split)
    with tree show ?thesis by blast
  next
    case True
    then obtain url rows ledger where "postgres" "vars ''DATABASE_URL'' = Some url" "connect url = Some (rows, ledger)"
      by auto
    then show ?thesis using restore_state_rep [OF s, of rows ledger] by (auto simp: attach_database_def)
  qed
  then show "\<exists>s'. attach_database c postgres connect vars s = Inr s'"
    and "attach_database c postgres connect vars s = Inr s' \<Longrightarrow> \<exists>xs. mtree_rep c depth (st_tree s') xs"
    by auto
qed

text \<open>The indexer's start aborts exactly when \<open>CONTRACT_ID\<close> is missing, one of the four
  numbers does not parse, or \<open>TREE_DEPTH\<close> is the greatest \<open>u32\<close>; no failure of the database
  (connection, migration or either query) aborts it.\<close>

lemma indexer_start_aborts_iff:
  "(\<exists>f. indexer_start c k postgres connect vars = Inl f) \<longleftrightarrow>
     vars ''CONTRACT_ID'' = None \<or> bad_setting vars ''DENOMINATION'' ''10000000000'' parse_i128 \<or>
     bad_setting vars ''TREE_DEPTH'' ''20'' parse_u32 \<or> bad_setting vars ''API_PORT'' ''3001'' parse_u16 \<or>
     bad_setting vars ''POLL_INTERVAL_SECS'' ''5'' parse_u64 \<or>
     parse_u32 (env_or vars ''TREE_DEPTH'' ''20'') = Some (- 1)"
proof -
  have 2: "(\<exists>f. and_then (app_state_new c k cid d depth) (\<lambda>s. and_then (attach_database c postgres connect vars s) (\<lambda>s. Inr (g s))) = Inl f)
      \<longleftrightarrow> depth = - 1" for cid d depth and g :: "AppState \<Rightarrow> IndexerServer"
  proof (cases "app_state_new c k cid d depth")
    case (Inl f)
    then show ?thesis using app_state_new_iff [of c k cid d depth f] by simp
  next
    case (Inr s)
    then have "depth \<noteq> - 1" by (metis Inr_Inl_False app_state_new_iff)
    with Inr attach_database_tree(1) [OF Inr, of postgres connect vars] show ?thesis by auto
  qed
  show ?thesis
    by (cases "vars ''CONTRACT_ID''"; cases "parse_i128 (env_or vars ''DENOMINATION'' ''10000000000'')";
        cases "parse_u32 (env_or vars ''TREE_DEPTH'' ''20'')"; cases "parse_u16 (env_or vars ''API_PORT'' ''3001'')";
        cases "parse_u64 (env_or vars ''POLL_INTERVAL_SECS'' ''5'')")
      (simp_all add: indexer_start_def Let_def bad_setting_def 2)
qed

text \<open>The listener in front of the chain from a given cursor on.\<close>

lemma chain_ticks:
  assumes "mtree_rep c depth (st_tree s) xs" and "\<forall>answer\<in>set answers. chain_rpc chain answer"
    and "covered k chain low (st_last_ledger s) xs" and dist: "distinct (indexed k chain)"
  shows "\<exists>s' ys. listener_ticks c k answers s = Inr s' \<and> mtree_rep c depth (st_tree s') ys \<and>
    covered k chain low (st_last_ledger s') ys"
  using assms(1-3)
proof (induction answers arbitrary: s xs)
  case Nil
  then show ?case by (intro exI [of _ s] exI [of _ xs]) simp
next
  case (Cons answer answers)
  obtain lt ge where answer: "answer = (lt, ge)" by (cases answer)
  with Cons.prems(2) have "chain_rpc chain (lt, ge)" by simp
  from chain_turn [OF Cons.prems(1) this Cons.prems(3) dist] obtain s1 ys where
    s1: "listener_turn c k lt ge s = Inr s1" "mtree_rep c depth (st_tree s1) (xs @ ys)"
      "covered k chain low (st_last_ledger s1) (xs @ ys)" by blast
  from Cons.IH [OF s1(2) _ s1(3)] Cons.prems(2) s1(1) show ?case by (simp add: answer)
qed

text \<open>(C32) A failed read of the stored commitments is only logged, and the cursor is restored all
  the same: the indexer starts with the empty tree past the ledgers it has lost. For as long as
  this process runs, over any number of polls that an RPC in front of the chain answers (pages, errors or
  nothing), no commitment of an event up to the restored cursor becomes a leaf, and its path
  request is answered with 404; and the next commitment is numbered 0, so that its row is
  dropped from the database, where that position is taken. Only another start can bring the rows back.\<close>

theorem failed_restore_loses_leaves:
  assumes start: "indexer_start c k True connect vars = Inr srv" and url: "vars ''DATABASE_URL'' = Some url"
    and answers: "connect url = Some (None, Some l)" and cursor: "l \<noteq> 0" "l \<noteq> - 1"
    and row: "(0, bs) \<in> set (commitments db)"
    and hex: "hex_laws k" and rpc: "\<forall>answer\<in>set polls. chain_rpc chain answer" and dist: "distinct (indexed k chain)"
    and lost: "x \<in> set (indexed k (up_to l chain))"
  shows "mt_leaves (st_tree (srv_state srv)) = [] \<and>
    (\<exists>s. listener_ticks c k polls (srv_state srv) = Inr s \<and> x \<notin> set (mt_leaves (st_tree s)) \<and>
      merkle_path k (hex_encode k (array_list x)) s =
        Inr \<lparr>http_status = 404, http_body = json_error ''Commitment not found in tree''\<rparr>) \<and>
    (\<exists>s. state_insert_commitment c k y (srv_state srv) = Inr (0, s) \<and>
      (\<exists>stmts. st_spawned s = [stmts] \<and> commitments (fold db_exec stmts db) = commitments db))"
proof -
  obtain cid d depth s0 where new: "app_state_new c k cid d depth = Inr s0"
    and att: "attach_database c True connect vars s0 = Inr (srv_state srv)"
    using start by (auto simp: indexer_start_def and_then_eq_Inr Let_def)
  then have "depth \<noteq> - 1" by (metis Inr_Inl_False app_state_new_iff)
  then have s0: "state_rep c k depth s0 []" "st_last_ledger s0 = 0" "st_spawned s0 = []"
    using app_state_new_rep [of depth c k cid d] new by auto
  let ?s = "srv_state srv"
  have s: "mtree_rep c depth (st_tree ?s) []" "st_database ?s" "st_spawned ?s = []" "st_last_ledger ?s = l"
    using restore_state_rep [OF s0(1,2), of None "Some l"] att url answers s0(3)
    by (auto simp: attach_database_def)
  have "covered k chain (l + 1) (st_last_ledger ?s) []" using cursor by (simp add: covered_def s(4))
  from chain_ticks [OF s(1) rpc this dist] obtain s1 ys where
    s1: "listener_ticks c k polls ?s = Inr s1" "mtree_rep c depth (st_tree s1) ys" "covered k chain (l + 1) (st_last_ledger s1) ys"
    by blast
  have "set (indexed k (filter (\<lambda>ev. ev_ledger ev \<le> l) chain)) \<inter>
      set (indexed k (filter (\<lambda>ev. l + 1 \<le> ev_ledger ev \<and> ev_ledger ev \<le> st_last_ledger s1) chain)) = {}"
    by (rule indexed_filter(2) [OF dist]) (auto simp: after_ledger [OF cursor(2)])
  then have x: "x \<notin> set ys" using lost s1(3) by (auto simp: covered_def up_to_def)
  have leaves: "mt_leaves (st_tree s1) = ys" using s1(2) by (simp add: mtree_rep_def)
  obtain s' where ins: "state_insert_commitment c k y ?s = Inr (0, s')"
    and sp: "st_spawned s' = [insert_task c depth [] y]"
    using state_insert_tree [OF s(1), of k y] s by auto
  have "commitments (fold db_exec (insert_task c depth [] y) db) = commitments db"
    using row by (force simp: insert_task_def db_insert_commitment_def db_insert_root_def)
  with ins sp s(1) s1(1) x merkle_path_missing [OF hex leaves x] leaves show ?thesis by (auto simp: mtree_rep_def)
qed

definition demo_indexer_vars :: "environment" where
  "demo_indexer_vars = map_of [(''CONTRACT_ID'', ''CPOOL''), (''DATABASE_URL'', ''db''),
     (''DENOMINATION'', to_decimal 100), (''TREE_DEPTH'', to_decimal (unat (2 :: u32))),
     (''API_PORT'', to_decimal (unat (80 :: 16 word))), (''POLL_INTERVAL_SECS'', to_decimal (unat (5 :: u64)))]"

lemma demo_indexer_start:
  "\<exists>srv. indexer_start demo_host demo_codec postgres connect demo_indexer_vars = Inr srv \<and> srv_poll_interval srv = 5 \<and>
     attach_database demo_host postgres connect demo_indexer_vars demo_state = Inr (srv_state srv)"
proof -
  have parse: "parse_i128 (to_decimal 100) = Some 100" "parse_u32 (to_decimal 2) = Some 2"
    "parse_u16 (to_decimal 80) = Some 80" "parse_u64 (to_decimal 5) = Some 5"
    using parse_i128_to_decimal [of 100] parse_u32_to_decimal [of 2] parse_u16_to_decimal [of 80] parse_u64_to_decimal [of 5]
    by simp_all
  obtain s where "attach_database demo_host postgres connect demo_indexer_vars demo_state = Inr s"
    using attach_database_tree(1) [OF demo_state_rep(1)] by blast
  with demo_state_rep(1) parse show ?thesis
    by (simp add: indexer_start_def env_or_def Let_def demo_indexer_vars_def)
qed

text \<open>The two deposits of ledger 7 are lost when the cursor is restored at 7, polls that get a page included.\<close>

lemma failed_restore_loses_leaves_witness:
  "\<exists>srv s. indexer_start demo_host demo_codec True (\<lambda>_. Some (None, Some 7)) demo_indexer_vars = Inr srv \<and>
     srv_poll_interval srv = 5 \<and> listener_ticks demo_host demo_codec [(None, demo_answer), (None, demo_answer)] (srv_state srv) = Inr s \<and>
     be_array 1 \<notin> set (mt_leaves (st_tree s))"
proof -
  let ?connect = "\<lambda>_. Some (None, Some 7)" and ?chain = "[demo_event 7 1, demo_event 7 2]"
  obtain srv where start: "indexer_start demo_host demo_codec True ?connect demo_indexer_vars = Inr srv" "srv_poll_interval srv = 5"
    using demo_indexer_start by blast
  have row: "(0, [1]) \<in> set (commitments (empty_database\<lparr>commitments := [(0, [1])]\<rparr>))" by simp
  have url: "demo_indexer_vars ''DATABASE_URL'' = Some ''db''" by (simp add: demo_indexer_vars_def)
  have chain: "distinct (indexed demo_codec ?chain)" "be_array 1 \<in> set (indexed demo_codec (up_to 7 ?chain))"
    unfolding demo_page demo_indexed by (simp_all add: be_array_eq_iff)
  have polls: "\<forall>answer\<in>set [(None, demo_answer), (None, demo_answer)]. chain_rpc ?chain answer" by (simp add: demo_answer_chain del: One_nat_def)
  from failed_restore_loses_leaves [OF start(1) url _ _ _ row demo_hex_laws polls chain] start show ?thesis
    by (simp add: word_unat_eq_iff unsigned_minus_1_eq_mask mask_eq_exp_minus_1) blast
qed

text \<open>A started indexer follows the RPC without ever panicking: over any number of ticks with
  any answers the listener goes on and only appends leaves to the tree the start restored,
  except when \<open>POLL_INTERVAL_SECS\<close> is zero, which the start accepts: then the timer panics
  before the first poll, and the API serves the state of the start for ever.\<close>

lemma listener_runs_unless_zero_interval:
  assumes start: "indexer_start c k postgres connect vars = Inr srv"
  shows "if srv_poll_interval srv = 0
    then start_event_listener c k (srv_poll_interval srv) answers (srv_state srv) = Inl Panic
    else \<exists>s ys. start_event_listener c k (srv_poll_interval srv) answers (srv_state srv) = Inr s \<and>
      mt_leaves (st_tree s) = mt_leaves (st_tree (srv_state srv)) @ ys"
proof -
  obtain cid d depth s0 where new: "app_state_new c k cid d depth = Inr s0"
    and att: "attach_database c postgres connect vars s0 = Inr (srv_state srv)"
    using start by (auto simp: indexer_start_def and_then_eq_Inr Let_def)
  from attach_database_tree(2) [OF new att] obtain xs where tree: "mtree_rep c depth (st_tree (srv_state srv)) xs" by blast
  obtain s ys where "listener_ticks c k answers (srv_state srv) = Inr s" "mtree_rep c depth (st_tree s) (xs @ ys)"
    using listener_ticks_total [OF tree] by blast
  with tree show ?thesis by (auto simp: start_event_listener_def mtree_rep_def)
qed

subsection \<open>The service\<close>

lemma in_memory_start:
  assumes "indexer_start c k False connect vars = Inr srv"
  shows "\<exists>depth. state_rep c k depth (srv_state srv) []"
proof -
  obtain cid d depth where new: "app_state_new c k cid d depth = Inr (srv_state srv)"
    using assms by (auto simp: indexer_start_def attach_database_def and_then_eq_Inr Let_def)
  then have "depth \<noteq> - 1" by (metis Inr_Inl_False app_state_new_iff)
  with app_state_new_rep [of depth c k cid d] new show ?thesis by auto
qed

text \<open>Started with a database, the service starts from the restart of its tables; a server without the
  tables is one with empty tables.\<close>

lemma indexer_start_is_restart:
  assumes start: "indexer_start c k True (database_answers (database_connect True pool executes)) vars = Inr srv"
    and url: "vars ''DATABASE_URL'' = Some url" and db: "pool url = Some pg" "executes pg"
  shows "\<exists>contract_id denomination tree_depth db. tables (initialize_schema pg) = Some db \<and>
    restart c k contract_id denomination tree_depth db = Inr (srv_state srv)"
proof -
  obtain contract_id denomination tree_depth s0 where new: "app_state_new c k contract_id denomination tree_depth = Inr s0"
    and att: "attach_database c True (database_answers (database_connect True pool executes)) vars s0 = Inr (srv_state srv)"
    using start by (auto simp: indexer_start_def and_then_eq_Inr Let_def)
  obtain db' where db': "tables (initialize_schema pg) = Some db'" using schema_keeps_tables(3) by blast
  then have "database_connect True pool executes url = Some db'" using db by (simp add: database_connect_def)
  from attach_is_restart [where vars = vars and url = url and connect = "database_connect True pool executes", OF url this new] att db' show ?thesis by auto
qed

text \<open>Whatever the service started from and whatever has happened since, its tree is the tree of its leaves.\<close>

lemma started_tree:
  assumes "indexer_start c k postgres connect vars = Inr srv"
  shows "\<exists>depth xs. mtree_rep c depth (st_tree (srv_state srv)) xs"
proof -
  obtain cid d depth s0 where "app_state_new c k cid d depth = Inr s0"
    and "attach_database c postgres connect vars s0 = Inr (srv_state srv)"
    using assms by (auto simp: indexer_start_def and_then_eq_Inr Let_def)
  with attach_database_tree(2) show ?thesis by blast
qed

lemma running_tree:
  assumes start: "indexer_start c k postgres connect vars = Inr srv"
    and run: "service_run c k evs (srv_state srv) = Inr (responses, s)"
  shows "mtree_rep c (mt_depth (st_tree s)) (st_tree s) (mt_leaves (st_tree s))"
proof -
  obtain depth xs where "mtree_rep c depth (st_tree (srv_state srv)) xs" using started_tree [OF start] by blast
  from service_run_tree [OF this, of k evs] run obtain ys where "mtree_rep c depth (st_tree s) (xs @ ys)" by auto
  then show ?thesis by (simp add: mtree_rep_def)
qed

text \<open>(C16) In every state of a started indexer, with or without a database, restored or not, after any turns of the
  listener and any requests: as long as its leaves fit the tree, \<open>GET /merkle-path\<close> on the encoding of a leaf
  answers 200 with the root, one sibling and one direction bit per level and the index of a
  position of that leaf; the path, verified as the circuit does (\<open>circuits/merkle.circom\<close>), leads from
  the commitment to the served root, which is the contract's root for the same leaves.\<close>

theorem served_path_verifies:
  assumes laws: "hex_laws k" and start: "indexer_start c k postgres connect vars = Inr srv"
    and run: "service_run c k evs (srv_state srv) = Inr (responses, s)"
    and state: "depth = mt_depth (st_tree s)" "xs = mt_leaves (st_tree s)"
    and fits: "length xs \<le> tree_capacity depth" and mem: "x \<in> set xs"
  shows "\<exists>i es (ds :: u32 list). i < length xs \<and> xs ! i = x \<and> length es = unat depth \<and> length ds = unat depth \<and>
    merkle_path k (hex_encode k (array_list x)) s = Inr \<lparr>http_status = 200, http_body = JObject
      [(''root'', JString (hex_encode k (array_list (tree_root c (unat depth) xs)))),
       (''path_elements'', JArray (map JString (map (\<lambda>e. hex_encode k (array_list e)) es))),
       (''path_indices'', JArray (map (\<lambda>i. JNumber (uint i)) ds)),
       (''leaf_index'', JNumber (int i))]\<rparr> \<and>
    climb (hash_pair_bytes c) x (zip es (map unat ds)) = tree_root c (unat depth) xs"
  using served_path [OF laws running_tree [OF start run] fits [unfolded state] mem [unfolded state]] unfolding state by blast

text \<open>An indexer restored from a table with one row serves the path of its leaf.\<close>

lemma demo_restored:
  "\<exists>srv. indexer_start demo_host demo_codec True (\<lambda>_. Some (Some [(0, demo_commitment)], Some 7)) demo_indexer_vars = Inr srv \<and>
     mtree_rep demo_host 2 (st_tree (srv_state srv)) [demo_commitment]"
proof -
  let ?connect = "\<lambda>_. Some (Some [(0, demo_commitment)], Some 7)"
  obtain srv where srv: "indexer_start demo_host demo_codec True ?connect demo_indexer_vars = Inr srv"
    "attach_database demo_host True ?connect demo_indexer_vars demo_state = Inr (srv_state srv)"
    using demo_indexer_start by blast
  have "st_last_ledger demo_state = 0" using app_state_new_rep [OF depth_2, of demo_host demo_codec "''CPOOL''" 100] demo_state_rep(1) by auto
  from restore_state_rep [OF demo_state_rep(2) this, of "Some [(0, demo_commitment)]" "Some 7"] srv show ?thesis
    by (auto simp: attach_database_def demo_indexer_vars_def)
qed

lemma served_path_verifies_witness:
  "\<exists>srv es (ds :: u32 list).
     indexer_start demo_host demo_codec True (\<lambda>_. Some (Some [(0, demo_commitment)], Some 7)) demo_indexer_vars = Inr srv \<and>
     climb (hash_pair_bytes demo_host) demo_commitment (zip es (map unat ds)) = tree_root demo_host 2 [demo_commitment]"
proof -
  obtain srv where start: "indexer_start demo_host demo_codec True (\<lambda>_. Some (Some [(0, demo_commitment)], Some 7)) demo_indexer_vars = Inr srv"
    and "mtree_rep demo_host 2 (st_tree (srv_state srv)) [demo_commitment]" using demo_restored by blast
  then have tree: "2 = mt_depth (st_tree (srv_state srv))" "[demo_commitment] = mt_leaves (st_tree (srv_state srv))"
    by (simp_all add: mtree_rep_def)
  from served_path_verifies [OF demo_hex_laws start _ tree, where evs = "[]" and x = demo_commitment] start show ?thesis
    by (auto simp: tree_capacity_def)
qed



lemma served_status:
  assumes "mtree_rep c depth (st_tree s) xs" and "length xs < 2 ^ 32"
  shows "\<exists>r. indexer_get k ''/merkle-path'' params s = Inr r \<and> http_status r \<in> {200, 400, 404} \<and>
    (http_status r = 200 \<longrightarrow> (\<exists>q. merkle_path k q s = Inr r))"
proof (cases "query_commitment params")
  case None
  then show ?thesis by (simp add: indexer_get_def no_json_def)
next
  case (Some q)
  obtain r where r: "merkle_path k q s = Inr r" using merkle_path_total [OF assms] by blast
  then have "http_status r \<in> {200, 400, 404}"
    by (auto simp: merkle_path_def Let_def and_then_eq_Inr split: option.splits)
  with Some r show ?thesis by (auto simp: indexer_get_def)
qed

text \<open>(C33) A client of an indexer without a database never meets a root the indexer does not list: however
  the listener's turns and other requests interleave, \<open>GET /merkle-path\<close> gets a response, and when that
  is a path, its root is in every later answer of \<open>GET /roots\<close>, with a deposit index above the
  leaf index of the path.\<close>

theorem served_root_is_listed:
  assumes start: "indexer_start c k False connect vars = Inr srv"
    and run: "service_run c k (evs @ [Get ''/merkle-path'' params] @ evs' @ [Get ''/roots'' params']) (srv_state srv) = Inr (responses, s)"
    and small: "length (mt_leaves (st_tree s)) < 2 ^ 32"
  shows "\<exists>r. responses ! length (filter is_get evs) = Inr r \<and> http_status r \<in> {200, 400, 404} \<and>
    (http_status r = 200 \<longrightarrow> (\<exists>root l n entries. json_get ''root'' (http_body r) = Some (JString root) \<and>
      json_get ''leaf_index'' (http_body r) = Some (JNumber l) \<and> 0 \<le> l \<and> l < n \<and>
      last responses = Inr \<lparr>http_status = 200, http_body = JArray entries\<rparr> \<and>
      JObject [(''root'', JString root), (''deposit_index'', JNumber n)] \<in> set entries))"
proof -
  obtain depth where s0: "state_rep c k depth (srv_state srv) []" using in_memory_start [OF start] by blast
  obtain rs1 s1 xs where 1: "service_run c k evs (srv_state srv) = Inr (rs1, s1)" "state_rep c k depth s1 xs"
    "length rs1 = length (filter is_get evs)" using service_run_rep [OF s0, of evs] by auto
  obtain rs2 s2 ys where 2: "service_run c k evs' s1 = Inr (rs2, s2)" "state_rep c k depth s2 (xs @ ys)"
    using service_run_rep [OF 1(2), of evs'] by blast
  have responses: "responses = rs1 @ indexer_get k ''/merkle-path'' params s1 # rs2 @ [Inr (api_roots s2)]" and s: "s = s2"
    using run by (auto simp: service_run_append 1(1) 2(1) indexer_get_def)
  have small: "length xs < 2 ^ 32" using small 2(2) by (simp add: s state_rep_def mtree_rep_def)
  have tree: "mtree_rep c depth (st_tree s1) xs" using 1(2) by (simp add: state_rep_def)
  obtain r where r: "indexer_get k ''/merkle-path'' params s1 = Inr r" "http_status r \<in> {200, 400, 404}"
    "http_status r = 200 \<Longrightarrow> \<exists>q. merkle_path k q s1 = Inr r"
    using served_status [OF tree small, of k params] by blast
  have "\<exists>root l n entries. json_get ''root'' (http_body r) = Some (JString root) \<and>
      json_get ''leaf_index'' (http_body r) = Some (JNumber l) \<and> 0 \<le> l \<and> l < n \<and>
      last responses = Inr \<lparr>http_status = 200, http_body = JArray entries\<rparr> \<and>
      JObject [(''root'', JString root), (''deposit_index'', JNumber n)] \<in> set entries" if ok: "http_status r = 200"
  proof -
    obtain q where q: "merkle_path k q s1 = Inr r" using r(3) [OF ok] by blast
    obtain entries where "api_roots s2 = \<lparr>http_status = 200, http_body = JArray entries\<rparr>"
      "JObject [(''root'', JString (hex_encode k (array_list (idx_node c xs (unat depth) 0)))),
        (''deposit_index'', JNumber (int (length xs)))] \<in> set entries"
      using root_listed [OF 2(2) small] by blast
    moreover obtain l where "l < length xs" "json_get ''leaf_index'' (http_body r) = Some (JNumber (int l))"
      "json_get ''root'' (http_body r) = Some (JString (hex_encode k (array_list (idx_node c xs (unat depth) 0))))"
      using merkle_path_ok [OF tree small q ok] by blast
    ultimately show ?thesis by (force simp: responses)
  qed
  with r(1,2) 1(3) show ?thesis by (auto simp: responses nth_append)
qed

text \<open>One deposit is indexed, its path is asked for, and then the roots.\<close>

definition demo_turn :: service_event where
  "demo_turn = Turn (Some JNull) (\<lambda>_. Some \<lparr>rr_result = Some \<lparr>ger_events = [demo_event 7 1], ger_latest_ledger = 7\<rparr>, rr_error = None\<rparr>)"

definition demo_query :: "(string \<times> string) list" where
  "demo_query = [(''commitment'', hex_encode demo_codec (array_list (be_array 1 :: bytes32)))]"

lemma demo_served:
  assumes "state_rep demo_host demo_codec depth s []"
  shows "\<exists>s' r. service_run demo_host demo_codec [demo_turn] s = Inr ([], s') \<and> st_roots s' \<noteq> [] \<and>
    mt_leaves (st_tree s') = [be_array 1] \<and> indexer_get demo_codec ''/merkle-path'' demo_query s' = Inr r \<and> http_status r = 200"
proof -
  let ?page = "\<lparr>ger_events = [demo_event 7 1], ger_latest_ledger = 7\<rparr>"
  let ?answer = "\<lambda>_ :: u32. Some \<lparr>rr_result = Some ?page, rr_error = None\<rparr>"
  have "indexed demo_codec [demo_event 7 1] = [be_array 1]"
    using demo_indexed by (simp split: option.splits if_splits)
  moreover have "poll_start (Some JNull) s \<in> range Inr" by (simp add: poll_start_def Let_def)
  ultimately obtain s' where s': "listener_turn demo_host demo_codec (Some JNull) ?answer s = Inr s'"
    "mtree_rep demo_host depth (st_tree s') [be_array 1]"
    using listener_turn_page [of demo_host depth s "[]" "Some JNull" _ ?answer ?page demo_codec] assms
    by (auto simp: state_rep_def)
  moreover obtain s'' ys where "listener_turn demo_host demo_codec (Some JNull) ?answer s = Inr s''"
    "state_rep demo_host demo_codec depth s'' ([] @ ys)" using listener_turn_rep [OF assms] by blast
  ultimately have rep: "state_rep demo_host demo_codec depth s' [be_array 1]"
    by (auto simp: state_rep_def mtree_rep_def)
  have tree: "mtree_rep demo_host depth (st_tree s') [be_array 1]" using rep by (simp add: state_rep_def)
  have "vec_position [be_array 1 :: bytes32] (be_array 1) = Some 0" by (simp add: vec_position_Some)
  from merkle_path_found [OF demo_hex_laws tree _ this] obtain r where
    "merkle_path demo_codec (hex_encode demo_codec (array_list (be_array 1 :: bytes32))) s' = Inr r" "http_status r = 200"
    by auto
  with s' rep show ?thesis
    by (auto simp: demo_turn_def demo_query_def indexer_get_def query_commitment_def state_rep_def root_entries_def mtree_rep_def)
qed

lemma served_root_is_listed_witness:
  "\<exists>srv responses s r root entries n. indexer_start demo_host demo_codec False (\<lambda>_. None) demo_indexer_vars = Inr srv \<and>
     service_run demo_host demo_codec [demo_turn, Get ''/merkle-path'' demo_query, Get ''/roots'' []] (srv_state srv) =
       Inr (responses, s) \<and>
     responses ! 0 = Inr r \<and> http_status r = 200 \<and> json_get ''root'' (http_body r) = Some (JString root) \<and>
     last responses = Inr \<lparr>http_status = 200, http_body = JArray entries\<rparr> \<and>
     JObject [(''root'', JString root), (''deposit_index'', JNumber n)] \<in> set entries"
proof -
  obtain srv where start: "indexer_start demo_host demo_codec False (\<lambda>_. None) demo_indexer_vars = Inr srv"
    using demo_indexer_start by blast
  obtain depth where "state_rep demo_host demo_codec depth (srv_state srv) []" using in_memory_start [OF start] by blast
  from demo_served [OF this] obtain s r where
    s: "service_run demo_host demo_codec [demo_turn] (srv_state srv) = Inr ([], s)" "mt_leaves (st_tree s) = [be_array 1]"
    and r: "indexer_get demo_codec ''/merkle-path'' demo_query s = Inr r" "http_status r = 200" by blast
  have run: "service_run demo_host demo_codec ([demo_turn] @ [Get ''/merkle-path'' demo_query] @ [] @ [Get ''/roots'' []]) (srv_state srv) =
      Inr ([Inr r, Inr (api_roots s)], s)"
    unfolding service_run_append s(1) by (simp add: r) (simp add: indexer_get_def)
  have "length (mt_leaves (st_tree s)) < 2 ^ 32" "length (filter is_get [demo_turn]) = 0"
    by (simp_all add: s demo_turn_def)
  with served_root_is_listed [OF start run] r start run show ?thesis by auto
qed

text \<open>An RPC in front of the contract: every page it answers with holds events with the pool's topics,
  as the RPC encodes them.\<close>

definition pool_rpc :: "(u32 \<Rightarrow> RpcResponse option) \<Rightarrow> bool" where
  "pool_rpc get_events \<longleftrightarrow> (\<forall>start resp page. get_events start = Some resp \<longrightarrow> rr_result resp = Some page \<longrightarrow>
     (\<forall>ev\<in>set (ger_events page). \<exists>pe. ev_topic ev = [rpc_topic pe]))"

lemma pool_rpc_turn:
  assumes rep: "state_rep c k depth s xs" and rpc: "pool_rpc get_events"
  shows "\<exists>s'. listener_turn c k lt get_events s = Inr s' \<and> state_rep c k depth s' xs"
proof (cases "\<exists>start page. poll_start lt s = Inr start \<and> get_events start = Some \<lparr>rr_result = Some page, rr_error = None\<rparr>")
  case True
  then obtain start evs latest where start: "poll_start lt s = Inr start"
    and page: "get_events start = Some \<lparr>rr_result = Some \<lparr>ger_events = evs, ger_latest_ledger = latest\<rparr>, rr_error = None\<rparr>"
    by (metis GetEventsResult.surjective old.unit.exhaust)
  then have "\<forall>ev\<in>set evs. \<exists>pe. ev_topic ev = [rpc_topic pe]"
    using rpc by (fastforce simp: pool_rpc_def)
  from contract_page_moves_cursor [where get_events = get_events and c = c and k = k, OF start page this] rep show ?thesis
    by (simp add: update_last_ledger_rep)
next
  case False
  then have "listener_turn c k lt get_events s = Inr s" by (intro listener_turn_idle) blast
  with rep show ?thesis by blast
qed

lemma empty_tree_serves_no_path:
  assumes "state_rep c k depth s []"
  shows "\<exists>r. indexer_get k ''/merkle-path'' params s = Inr r \<and> http_status r \<in> {400, 404}"
    and "\<exists>root. indexer_get k ''/roots'' params s = Inr \<lparr>http_status = 200,
      http_body = JArray [JObject [(''root'', JString root), (''deposit_index'', JNumber 0)]]\<rparr>"
proof -
  have "mt_leaves (st_tree s) = []" "\<exists>root. st_roots s = [\<lparr>re_root = root, re_deposit_index = 0\<rparr>]"
    using assms by (simp_all add: state_rep_def mtree_rep_def root_entries_def)
  moreover have "vec_position [] x = None" for x :: bytes32 by (simp add: vec_position_None)
  ultimately show "\<exists>r. indexer_get k ''/merkle-path'' params s = Inr r \<and> http_status r \<in> {400, 404}"
    and "\<exists>root. indexer_get k ''/roots'' params s = Inr \<lparr>http_status = 200,
      http_body = JArray [JObject [(''root'', JString root), (''deposit_index'', JNumber 0)]]\<rparr>"
    by (auto simp: indexer_get_def no_json_def merkle_path_def Let_def find_commitment_def api_roots_def split: option.split)
qed

text \<open>What a request to an indexer that has no leaf is answered.\<close>

definition no_leaf_answer :: "service_event \<Rightarrow> HttpResponse run \<Rightarrow> bool" where
  "no_leaf_answer request response =
     (case request of
        Get path params \<Rightarrow>
          (path = ''/merkle-path'' \<longrightarrow> (case response of Inr r \<Rightarrow> http_status r = 400 \<or> http_status r = 404 | Inl _ \<Rightarrow> False)) \<and>
          (path = ''/roots'' \<longrightarrow> (case response of
             Inr r \<Rightarrow> (case http_body r of JArray [entry] \<Rightarrow> json_get ''deposit_index'' entry = Some (JNumber 0) | _ \<Rightarrow> False)
           | Inl _ \<Rightarrow> False))
      | Turn _ _ \<Rightarrow> False)"

lemma pool_rpc_service:
  assumes "state_rep c k depth s []" and "\<forall>lt get_events. Turn lt get_events \<in> set evs \<longrightarrow> pool_rpc get_events"
  shows "\<exists>responses s'. service_run c k evs s = Inr (responses, s') \<and> state_rep c k depth s' [] \<and>
    list_all2 no_leaf_answer (filter is_get evs) responses"
  using assms
proof (induction evs arbitrary: s)
  case Nil
  then show ?case by simp
next
  case (Cons ev evs)
  show ?case
  proof (cases ev)
    case (Turn lt get_events)
    with Cons.prems have "pool_rpc get_events" by simp
    from pool_rpc_turn [OF Cons.prems(1) this] obtain s1 where
      "listener_turn c k lt get_events s = Inr s1" "state_rep c k depth s1 []" by blast
    with Cons.IH [of s1] Cons.prems(2) show ?thesis by (auto simp: Turn)
  next
    case (Get path params)
    have "no_leaf_answer ev (indexer_get k path params s)"
      using empty_tree_serves_no_path [OF Cons.prems(1), where params = params] by (auto simp: Get no_leaf_answer_def json_get_def)
    with Cons.IH [OF Cons.prems(1)] Cons.prems(2) show ?thesis by (auto simp: Get)
  qed
qed

text \<open>(C31) An indexer without a database in front of the deployed contract serves no path, ever: the RPC
  returns the topics of the pool's events as base64 XDR, in which the listener's search for
  \<open>deposit\<close> finds nothing. However many deposits the pages hold and however turns and requests
  interleave, nothing panics, the tree stays empty, every answer of \<open>GET /merkle-path\<close> is 400 or 404,
  and \<open>GET /roots\<close> lists one root, with deposit index 0.\<close>

theorem deployed_indexer_serves_no_path:
  assumes start: "indexer_start c k False connect vars = Inr srv"
    and rpc: "\<forall>lt get_events. Turn lt get_events \<in> set evs \<longrightarrow> pool_rpc get_events"
  shows "\<exists>responses s. service_run c k evs (srv_state srv) = Inr (responses, s) \<and> mt_leaves (st_tree s) = [] \<and>
    list_all2 no_leaf_answer (filter is_get evs) responses"
proof -
  obtain depth where "state_rep c k depth (srv_state srv) []" using in_memory_start [OF start] by blast
  from pool_rpc_service [OF this rpc] show ?thesis by (auto simp: state_rep_def mtree_rep_def)
qed

definition pool_turn :: service_event where
  "pool_turn = Turn (Some JNull) (\<lambda>_. Some \<lparr>rr_result = Some \<lparr>ger_events =
     [demo_event 7 1\<lparr>ev_topic := [rpc_topic (DepositEvent (be_array 1) 0)]\<rparr>], ger_latest_ledger = 7\<rparr>, rr_error = None\<rparr>)"

lemma deployed_indexer_serves_no_path_witness:
  "\<exists>srv r s. indexer_start demo_host demo_codec False (\<lambda>_. None) demo_indexer_vars = Inr srv \<and>
     service_run demo_host demo_codec [pool_turn, Get ''/merkle-path'' demo_query] (srv_state srv) = Inr ([Inr r], s) \<and>
     mt_leaves (st_tree s) = [] \<and> http_status r \<in> {400, 404}"
proof -
  obtain srv where start: "indexer_start demo_host demo_codec False (\<lambda>_. None) demo_indexer_vars = Inr srv"
    using demo_indexer_start by blast
  have "\<forall>lt get_events. Turn lt get_events \<in> set [pool_turn, Get ''/merkle-path'' demo_query] \<longrightarrow> pool_rpc get_events"
    by (auto simp: pool_turn_def pool_rpc_def)
  from deployed_indexer_serves_no_path [OF start this] obtain responses s where
    run: "service_run demo_host demo_codec [pool_turn, Get ''/merkle-path'' demo_query] (srv_state srv) = Inr (responses, s)"
    and s: "mt_leaves (st_tree s) = []" and answers: "list_all2 no_leaf_answer [Get ''/merkle-path'' demo_query] responses"
    by (auto simp: pool_turn_def)
  then obtain response where "responses = [response]" "no_leaf_answer (Get ''/merkle-path'' demo_query) response"
    by (auto simp: list_all2_Cons1)
  with start run s show ?thesis by (auto simp: no_leaf_answer_def split: sum.splits)
qed

end
