(* ===== verification/ClientPrelude.thy ===== *)
theory ClientPrelude
  imports IndexerListener "HOL-Library.AList"
begin

text \<open>
  What the TypeScript client uses of JavaScript: thrown errors, the text of a \<open>bigint\<close> in a radix
  and \<open>BigInt(text)\<close>, byte arrays written and read big-endian, the \<open>Map\<close> with its insertion
  order, and \<open>JSON.stringify\<close> / \<open>JSON.parse\<close>. A \<open>bigint\<close> is an \<open>int\<close>, a \<open>number\<close> used as an index
  an \<open>int\<close>, a \<open>Uint8Array\<close> a list of bytes.
\<close>

subsection \<open>Errors\<close>

text \<open>The errors the client throws itself or receives from the runtime; \<open>Panic\<close> never occurs.\<close>

datatype ClientError =
  NotInitialized | SyntaxError | TypeError | ReferenceError
  | LeafOutOfBounds int nat | CommitmentMismatch
  | PasswordTooShort | UnsupportedEncryption int | UnsupportedBackup int | DecryptionFailed
  | NoteNotFound string
  | ProverFailed string | ProofTimeout int | WorkerTerminated | WorkerFailed string | UnknownWorkerError

type_synonym 'a js = "(ClientError, 'a) result"

text \<open>\<open>xs.map(f)\<close> with an \<open>f\<close> that may throw.\<close>

fun js_map :: "('a \<Rightarrow> 'b js) \<Rightarrow> 'a list \<Rightarrow> 'b list js" where
  "js_map f [] = Inr []"
| "js_map f (x # xs) = and_then (f x) (\<lambda>y. and_then (js_map f xs) (\<lambda>ys. Inr (y # ys)))"

lemma js_map_Inr: "(\<And>x. x \<in> set xs \<Longrightarrow> f x = Inr (g x)) \<Longrightarrow> js_map f xs = Inr (map g xs)"
  by (induction xs) auto

text \<open>\<open>xs[i]\<close>, which is \<open>undefined\<close> outside of the array.\<close>

definition js_get :: "'a list \<Rightarrow> int \<Rightarrow> 'a option" where
  "js_get xs i = (if 0 \<le> i \<and> nat i < length xs then Some (xs ! nat i) else None)"

text \<open>\<open>a % b\<close>, whose sign is that of \<open>a\<close>.\<close>

definition js_rem :: "int \<Rightarrow> int \<Rightarrow> int" where
  "js_rem a b = (if a < 0 then - ((- a) mod b) else a mod b)"

subsection \<open>Numbers as text\<close>

definition radix_digit :: "nat \<Rightarrow> char" where
  "radix_digit d = (if d < 10 then char_of (48 + d) else char_of (87 + d))"

fun to_radix :: "nat \<Rightarrow> nat \<Rightarrow> string" where
  "to_radix b n = (if b < 2 \<or> n < b then [radix_digit n] else to_radix b (n div b) @ [radix_digit (n mod b)])"

declare to_radix.simps [simp del]

text \<open>\<open>n.toString(radix)\<close>\<close>

definition js_to_string :: "nat \<Rightarrow> int \<Rightarrow> string" where
  "js_to_string b n = (if n < 0 then CHR ''-'' # to_radix b (nat (- n)) else to_radix b (nat n))"

definition pad_start :: "nat \<Rightarrow> char \<Rightarrow> string \<Rightarrow> string" where
  "pad_start len ch s = replicate (len - length s) ch @ s"

text \<open>\<open>"0x" + n.toString(16).padStart(64, "0")\<close>\<close>

definition hex64 :: "int \<Rightarrow> string" where
  "hex64 n = ''0x'' @ pad_start 64 (CHR ''0'') (js_to_string 16 n)"

definition digit_value :: "char \<Rightarrow> nat option" where
  "digit_value ch =
     (let d = of_char ch in
      if 48 \<le> d \<and> d \<le> 57 then Some (d - 48)
      else if 97 \<le> d \<and> d \<le> 122 then Some (d - 87)
      else if 65 \<le> d \<and> d \<le> 90 then Some (d - 55)
      else None)"

fun parse_radix :: "nat \<Rightarrow> nat \<Rightarrow> string \<Rightarrow> nat option" where
  "parse_radix b acc [] = Some acc"
| "parse_radix b acc (ch # cs) =
     (case digit_value ch of
        Some d \<Rightarrow> if d < b then parse_radix b (acc * b + d) cs else None
      | None \<Rightarrow> None)"

text \<open>At least one digit.\<close>

definition parse_number :: "nat \<Rightarrow> string \<Rightarrow> int js" where
  "parse_number b s = (if s = [] then Inl (Err SyntaxError) else and_then (ok_or SyntaxError (parse_radix b 0 s)) (\<lambda>n. Inr (int n)))"

definition js_space :: "char \<Rightarrow> bool" where
  "js_space ch \<longleftrightarrow> of_char ch \<in> {9, 10, 11, 12, 13, 32, 160 :: nat}"

definition js_trim :: "string \<Rightarrow> string" where
  "js_trim s = rev (dropWhile js_space (rev (dropWhile js_space s)))"

text \<open>\<open>BigInt(text)\<close>: surrounding space is dropped, the empty text is zero, the prefixes \<open>0x\<close>, \<open>0o\<close>
  and \<open>0b\<close> select a radix and admit no sign, and anything else that is not a decimal integer is a
  \<open>SyntaxError\<close>.\<close>

definition js_BigInt :: "string \<Rightarrow> int js" where
  "js_BigInt text =
     (case js_trim text of
        [] \<Rightarrow> Inr 0
      | ch # cs \<Rightarrow>
          if ch = CHR ''0'' \<and> cs \<noteq> [] \<and> hd cs \<in> set ''xX'' then parse_number 16 (tl cs)
          else if ch = CHR ''0'' \<and> cs \<noteq> [] \<and> hd cs \<in> set ''oO'' then parse_number 8 (tl cs)
          else if ch = CHR ''0'' \<and> cs \<noteq> [] \<and> hd cs \<in> set ''bB'' then parse_number 2 (tl cs)
          else if ch = CHR ''-'' then and_then (parse_number 10 cs) (\<lambda>n. Inr (- n))
          else if ch = CHR ''+'' then parse_number 10 cs
          else parse_number 10 (ch # cs))"

lemma digit_value_radix_digit: "d < 36 \<Longrightarrow> digit_value (radix_digit d) = Some d"
  by (auto simp: digit_value_def radix_digit_def Let_def)

lemma parse_radix_append:
  "parse_radix b acc (xs @ ys) = Option.bind (parse_radix b acc xs) (\<lambda>a. parse_radix b a ys)"
  by (induction b acc xs rule: parse_radix.induct) (auto split: option.split)

lemma parse_to_radix:
  assumes "2 \<le> b" and "b \<le> 36"
  shows "parse_radix b 0 (to_radix b n) = Some n"
proof (induction n rule: less_induct)
  case (less n)
  show ?case
  proof (cases "n < b")
    case True
    then show ?thesis using assms by (simp add: to_radix.simps [of b n] digit_value_radix_digit)
  next
    case False
    then have "parse_radix b 0 (to_radix b (n div b)) = Some (n div b)" using assms by (intro less) simp
    moreover have "n mod b < b" using assms by simp
    moreover from this have "n mod b < 36" using assms by linarith
    ultimately show ?thesis
      using False assms by (simp add: to_radix.simps [of b n] parse_radix_append digit_value_radix_digit)
  qed
qed

lemma to_radix_nonempty [simp]: "to_radix b n \<noteq> []"
  by (simp add: to_radix.simps [of b n])

lemma parse_radix_zeros: "2 \<le> b \<Longrightarrow> parse_radix b 0 (replicate k (CHR ''0'') @ s) = parse_radix b 0 s"
  by (induction k) (simp_all add: digit_value_def)

text \<open>The digits are letters and figures: no sign, no space, no prefix.\<close>

definition radix_chars :: string where
  "radix_chars = ''0123456789abcdef''"

lemma to_radix_digits:
  assumes "2 \<le> b"
  shows "set (to_radix b n) \<subseteq> radix_digit ` {..<b}"
proof (induction n rule: less_induct)
  case (less n)
  have "n mod b < b" using assms by simp
  moreover have "set (to_radix b (n div b)) \<subseteq> radix_digit ` {..<b}" if "\<not> n < b" using that assms by (intro less) simp
  ultimately show ?case using assms by (auto simp: to_radix.simps [of b n])
qed

lemma decimal_chars: "set (to_radix 10 n) \<subseteq> set ''0123456789''"
proof -
  have "\<forall>d\<in>set [0..<10]. radix_digit d \<in> set ''0123456789''" by code_simp
  then show ?thesis using to_radix_digits [of 10 n] by fastforce
qed

lemma hex_chars: "set (to_radix 16 n) \<subseteq> set radix_chars"
proof -
  have "\<forall>d\<in>set [0..<16]. radix_digit d \<in> set radix_chars" by code_simp
  then show ?thesis using to_radix_digits [of 16 n] by fastforce
qed

lemma decimal_chars_hex: "set (to_radix 10 n) \<subseteq> set radix_chars"
proof -
  have "set ''0123456789'' \<subseteq> set radix_chars" by code_simp
  with decimal_chars [of n] show ?thesis by (rule subset_trans)
qed

lemma radix_chars_not_space: "ch \<in> set radix_chars \<Longrightarrow> \<not> js_space ch \<and> ch \<notin> set ''xXoO+-''"
  by (auto simp: radix_chars_def js_space_def)

lemma js_trim_id: "(\<And>ch. ch \<in> set s \<Longrightarrow> \<not> js_space ch) \<Longrightarrow> js_trim s = s"
  unfolding js_trim_def by (metis dropWhile_eq_self_iff hd_in_set rev_rev_ident set_rev)

lemma radix_text_trim: "set s \<subseteq> set radix_chars \<Longrightarrow> js_trim s = s"
  using radix_chars_not_space by (intro js_trim_id) blast

text \<open>What is printed is read back.\<close>

lemma BigInt_decimal: "js_BigInt (js_to_string 10 n) = Inr n"
proof -
  let ?s = "to_radix 10 (nat \<bar>n\<bar>)"
  have chars: "set ?s \<subseteq> set radix_chars" by (rule decimal_chars_hex)
  have num: "parse_number 10 ?s = Inr \<bar>n\<bar>" by (simp add: parse_number_def parse_to_radix)
  obtain ch cs where s: "?s = ch # cs" using to_radix_nonempty [of 10 "nat \<bar>n\<bar>"] by (cases ?s) auto
  show ?thesis
  proof (cases "n < 0")
    case True
    have "js_trim (CHR ''-'' # ?s) = CHR ''-'' # ?s"
      using chars radix_chars_not_space by (intro js_trim_id) (auto simp: js_space_def)
    with True num show ?thesis by (simp add: js_BigInt_def js_to_string_def)
  next
    case False
    have "ch \<noteq> CHR ''-''" "ch \<noteq> CHR ''+''" using chars radix_chars_not_space unfolding s by fastforce+
    moreover have "cs = [] \<or> hd cs \<notin> set ''xXoObB''"
      using decimal_chars [of "nat \<bar>n\<bar>"] unfolding s by (cases cs) auto
    ultimately show ?thesis
      using False num radix_text_trim [OF chars] s by (auto simp: js_BigInt_def js_to_string_def)
  qed
qed

lemma BigInt_hex64: "0 \<le> n \<Longrightarrow> js_BigInt (hex64 n) = Inr n"
proof -
  assume n: "0 \<le> n"
  let ?s = "to_radix 16 (nat n)"
  have chars: "set ?s \<subseteq> set radix_chars" by (rule hex_chars)
  have "js_trim (hex64 n) = hex64 n"
    using n chars radix_chars_not_space
    by (intro js_trim_id) (auto simp: hex64_def pad_start_def js_to_string_def js_space_def)
  moreover have "parse_number 16 (pad_start 64 (CHR ''0'') ?s) = Inr n"
    using n by (simp add: parse_number_def pad_start_def parse_radix_zeros parse_to_radix)
  ultimately show ?thesis
    using n by (simp add: js_BigInt_def hex64_def js_to_string_def)
qed

subsection \<open>Bytes\<close>

text \<open>\<open>for (const b of bytes) { n = (n << 8n) | BigInt(b); }\<close>\<close>

definition be_bigint :: "u8 list \<Rightarrow> int" where
  "be_bigint bytes = fold (\<lambda>b n. push_bit 8 n OR uint b) bytes 0"

text \<open>\<open>for i: bytes[i] = Number(val & 0xffn); val >>= 8n;\<close> over the given positions. A write outside of a
  \<open>Uint8Array\<close> is ignored.\<close>

fun write_bytes :: "nat list \<Rightarrow> u8 list \<Rightarrow> int \<Rightarrow> u8 list" where
  "write_bytes [] bytes val = bytes"
| "write_bytes (i # is) bytes val = write_bytes is (bytes[i := word_of_int (val AND 0xff)]) (drop_bit 8 val)"

lemma be_bigint_eq: "be_bigint bytes = int (be_val bytes)"
proof -
  have or_add: "push_bit 8 n OR uint (b :: u8) = 256 * n + uint b" for n b
  proof -
    have "push_bit 8 n OR uint b = push_bit 8 n + uint b"
      by (intro disjunctive_add [symmetric]) (auto simp: bit_push_bit_iff_int bit_uint_iff)
    then show ?thesis by (simp add: push_bit_eq_mult)
  qed
  have "fold (\<lambda>b n. push_bit 8 n OR uint b) bytes a = a * 256 ^ length bytes + int (be_val bytes)" for a
  proof (induction bytes arbitrary: a)
    case Nil
    show ?case by (simp add: be_val_def)
  next
    case (Cons b bytes)
    then show ?case
      by (simp add: or_add be_val_def le_val_append algebra_simps)
  qed
  from this [of 0] show ?thesis by (simp add: be_bigint_def)
qed

lemma to_be_bytes_Suc: "to_be_bytes (Suc k) n = to_be_bytes k (n div 256) @ [word_of_nat (n mod 256)]"
  by (simp add: to_be_bytes_def)

text \<open>The lowest byte of a number, and the bytes of the rest.\<close>

lemma be_bytes_step:
  "to_be_bytes (Suc k) (nat (v mod 256 ^ Suc k)) =
     to_be_bytes k (nat (drop_bit 8 v mod 256 ^ k)) @ [word_of_int (v AND 0xff)]"
proof -
  let ?n = "nat (v mod 256 ^ Suc k)"
  have "v AND 0xff = take_bit 8 v" by (simp add: take_bit_eq_mask mask_eq_exp_minus_1)
  then have low: "v AND 0xff = v mod 256" by (simp add: take_bit_eq_mod)
  have "v mod 256 ^ Suc k = 256 * (v div 256 mod 256 ^ k) + v mod 256" by (simp add: zmod_zmult2_eq)
  moreover have "0 \<le> v div 256 mod 256 ^ k" "0 \<le> v mod 256" "v mod 256 < 256" by simp_all
  ultimately have "?n = 256 * nat (v div 256 mod 256 ^ k) + nat (v mod 256)" and "nat (v mod 256) < 256"
    by (simp_all add: nat_add_distrib nat_mult_distrib)
  then have "?n div 256 = nat (v div 256 mod 256 ^ k)" "?n mod 256 = nat (v mod 256)"
    by simp_all
  then show ?thesis by (simp add: to_be_bytes_Suc low drop_bit_eq_div)
qed

lemma write_bytes_eq:
  assumes "off + k \<le> length buf"
  shows "write_bytes (map ((+) off) (rev [0..<k])) buf v =
    take off buf @ to_be_bytes k (nat (v mod 256 ^ k)) @ drop (off + k) buf"
  using assms
proof (induction k arbitrary: buf v)
  case 0
  then show ?case by (simp add: to_be_bytes_def)
next
  case (Suc k)
  let ?b = "word_of_int (v AND 0xff) :: u8"
  have "drop (off + k) (buf[off + k := ?b]) = ?b # drop (off + Suc k) buf"
    using Suc.prems by (simp add: drop_update_swap Cons_nth_drop_Suc [symmetric])
  then show ?case
    using Suc.prems Suc.IH [of "buf[off + k := ?b]" "drop_bit 8 v"] be_bytes_step [of k v] by simp
qed

text \<open>UTF-8 of a text of code points below 256.\<close>

definition utf8_encode :: "string \<Rightarrow> u8 list" where
  "utf8_encode s = concat (map (\<lambda>ch. let d = of_char ch :: nat in
     if d < 128 then [word_of_nat d] else [word_of_nat (192 + d div 64), word_of_nat (128 + d mod 64)]) s)"

lemma utf8_ascii:
  "(\<And>ch. ch \<in> set s \<Longrightarrow> of_char ch < (128 :: nat)) \<Longrightarrow> utf8_encode s = map (\<lambda>ch. word_of_nat (of_char ch)) s"
  by (induction s) (auto simp: utf8_encode_def)

end
