(* ===== verification/ClientJson.thy ===== *)
theory ClientJson
  imports ClientPrelude
begin

text \<open>
  \<open>JSON.stringify\<close> of an object of strings and \<open>JSON.parse\<close>, as the wallet and the relay client use
  them. The characters are those of code points below 256, a number is an integer (a text with a
  fraction, an exponent or another character in it does not parse here), and a repeated key
  replaces the earlier value. The fuel of the parser is the length of the text, one unit for every
  value and every member, each of which takes at least one character.
\<close>

subsection \<open>Writing\<close>

definition json_escape :: "char \<Rightarrow> string" where
  "json_escape ch =
     (let d = of_char ch :: nat in
      if d = 34 then [CHR 0x5C, CHR 0x22]
      else if d = 92 then [CHR 0x5C, CHR 0x5C]
      else if d = 8 then [CHR 0x5C, CHR ''b'']
      else if d = 9 then [CHR 0x5C, CHR ''t'']
      else if d = 10 then [CHR 0x5C, CHR ''n'']
      else if d = 12 then [CHR 0x5C, CHR ''f'']
      else if d = 13 then [CHR 0x5C, CHR ''r'']
      else if d < 32 then [CHR 0x5C, CHR ''u''] @ pad_start 4 (CHR ''0'') (to_radix 16 d)
      else [ch])"

definition json_quote :: "string \<Rightarrow> string" where
  "json_quote s = CHR 0x22 # concat (map json_escape s) @ [CHR 0x22]"

fun json_members_text :: "(string \<times> string) list \<Rightarrow> string" where
  "json_members_text [] = ''}''"
| "json_members_text [(k, v)] = json_quote k @ '':'' @ json_quote v @ ''}''"
| "json_members_text ((k, v) # kvs) = json_quote k @ '':'' @ json_quote v @ '','' @ json_members_text kvs"

definition json_stringify :: "(string \<times> string) list \<Rightarrow> string" where
  "json_stringify kvs = CHR ''{'' # json_members_text kvs"

subsection \<open>Reading\<close>

definition json_space :: "char \<Rightarrow> bool" where
  "json_space ch \<longleftrightarrow> of_char ch \<in> {9, 10, 13, 32 :: nat}"

definition json_skip :: "string \<Rightarrow> string" where
  "json_skip s = dropWhile json_space s"

definition json_unescape :: "char \<Rightarrow> char option" where
  "json_unescape ch = map_of
     [(CHR 0x22, CHR 0x22), (CHR 0x5C, CHR 0x5C), (CHR ''/'', CHR ''/''), (CHR ''b'', CHR 0x08),
      (CHR ''f'', CHR 0x0C), (CHR ''n'', CHR 0x0A), (CHR ''r'', CHR 0x0D), (CHR ''t'', CHR 0x09)] ch"

text \<open>The rest of a string after its opening quote, and what follows it.\<close>

fun json_string :: "string \<Rightarrow> string \<Rightarrow> (string \<times> string) option" where
  "json_string acc [] = None"
| "json_string acc (ch # cs) =
     (if ch = CHR 0x22 then Some (acc, cs)
      else if ch = CHR 0x5C then
        (case cs of
           [] \<Rightarrow> None
         | e # rest \<Rightarrow>
             if e = CHR ''u'' then
               (case parse_radix 16 0 (take 4 rest) of
                  Some d \<Rightarrow> if length (take 4 rest) = 4 \<and> d < 256 then json_string (acc @ [char_of d]) (drop 4 rest) else None
                | None \<Rightarrow> None)
             else (case json_unescape e of Some x \<Rightarrow> json_string (acc @ [x]) rest | None \<Rightarrow> None))
      else if of_char ch < (32 :: nat) then None
      else json_string (acc @ [ch]) cs)"

definition is_digit :: "char \<Rightarrow> bool" where
  "is_digit ch \<longleftrightarrow> ch \<in> set ''0123456789''"

definition json_integer :: "string \<Rightarrow> (int \<times> string) option" where
  "json_integer s =
     (let (sign, body) = (case s of ch # cs \<Rightarrow> if ch = CHR ''-'' then (- 1, cs) else (1, s) | [] \<Rightarrow> (1, s));
          digits = takeWhile is_digit body
      in if digits = [] \<or> (hd digits = CHR ''0'' \<and> length digits > 1) then None
         else map_option (\<lambda>n. (sign * int n, dropWhile is_digit body)) (parse_radix 10 0 digits))"

fun json_value :: "nat \<Rightarrow> string \<Rightarrow> (json \<times> string) option"
and json_members :: "nat \<Rightarrow> (string \<times> json) list \<Rightarrow> string \<Rightarrow> (json \<times> string) option"
and json_elements :: "nat \<Rightarrow> json list \<Rightarrow> string \<Rightarrow> (json \<times> string) option" where
  "json_value 0 s = None"
| "json_value (Suc fuel) s =
     (case json_skip s of
        [] \<Rightarrow> None
      | ch # cs \<Rightarrow>
          if ch = CHR ''{'' then
            (case json_skip cs of
               c # rest \<Rightarrow> if c = CHR ''}'' then Some (JObject [], rest) else json_members fuel [] cs
             | [] \<Rightarrow> None)
          else if ch = CHR ''['' then
            (case json_skip cs of
               c # rest \<Rightarrow> if c = CHR '']'' then Some (JArray [], rest) else json_elements fuel [] cs
             | [] \<Rightarrow> None)
          else if ch = CHR 0x22 then map_option (\<lambda>(t, rest). (JString t, rest)) (json_string [] cs)
          else if starts_with ''true'' (ch # cs) then Some (JBool True, drop 3 cs)
          else if starts_with ''false'' (ch # cs) then Some (JBool False, drop 4 cs)
          else if starts_with ''null'' (ch # cs) then Some (JNull, drop 3 cs)
          else map_option (\<lambda>(n, rest). (JNumber n, rest)) (json_integer (ch # cs)))"
| "json_members 0 acc s = None"
| "json_members (Suc fuel) acc s =
     (case json_skip s of
        [] \<Rightarrow> None
      | ch # cs \<Rightarrow>
          if ch \<noteq> CHR 0x22 then None
          else Option.bind (json_string [] cs) (\<lambda>(k, rest).
            (case json_skip rest of
               [] \<Rightarrow> None
             | c # rest \<Rightarrow>
                 if c \<noteq> CHR '':'' then None
                 else Option.bind (json_value fuel rest) (\<lambda>(v, rest).
                   (case json_skip rest of
                      [] \<Rightarrow> None
                    | c # rest \<Rightarrow>
                        if c = CHR '','' then json_members fuel (AList.update k v acc) rest
                        else if c = CHR ''}'' then Some (JObject (AList.update k v acc), rest)
                        else None)))))"
| "json_elements 0 acc s = None"
| "json_elements (Suc fuel) acc s =
     Option.bind (json_value fuel s) (\<lambda>(v, rest).
       (case json_skip rest of
          [] \<Rightarrow> None
        | c # rest \<Rightarrow>
            if c = CHR '','' then json_elements fuel (acc @ [v]) rest
            else if c = CHR '']'' then Some (JArray (acc @ [v]), rest)
            else None))"

definition json_parse :: "string \<Rightarrow> json js" where
  "json_parse text =
     (case json_value (Suc (length text)) text of
        Some (v, rest) \<Rightarrow> if json_skip rest = [] then Inr v else Inl (Err SyntaxError)
      | None \<Rightarrow> Inl (Err SyntaxError))"

subsection \<open>What is written is read back\<close>

definition json_plain :: "string \<Rightarrow> bool" where
  "json_plain s \<longleftrightarrow> (\<forall>ch\<in>set s. 32 \<le> (of_char ch :: nat) \<and> of_char ch \<noteq> (34 :: nat) \<and> of_char ch \<noteq> (92 :: nat))"

lemma json_plain_escape: "json_plain s \<Longrightarrow> concat (map json_escape s) = s"
  by (induction s) (auto simp: json_plain_def json_escape_def Let_def)

lemma json_string_plain: "json_plain s \<Longrightarrow> json_string acc (s @ CHR 0x22 # rest) = Some (acc @ s, rest)"
proof (induction s arbitrary: acc)
  case Nil
  show ?case by simp
next
  case (Cons ch s)
  have "32 \<le> (of_char ch :: nat)" "of_char ch \<noteq> (34 :: nat)" "of_char ch \<noteq> (92 :: nat)"
    using Cons.prems by (simp_all add: json_plain_def)
  then have "ch \<noteq> CHR 0x22" "ch \<noteq> CHR 0x5C" "\<not> of_char ch < (32 :: nat)" by auto
  moreover have "json_plain s" using Cons.prems by (simp add: json_plain_def)
  ultimately show ?case using Cons.IH [of "acc @ [ch]"] by simp
qed

lemma json_skip_simps [simp]:
  "json_skip (CHR 0x22 # s) = CHR 0x22 # s" "json_skip (CHR '':'' # s) = CHR '':'' # s"
  "json_skip (CHR '','' # s) = CHR '','' # s" "json_skip (CHR ''}'' # s) = CHR ''}'' # s"
  "json_skip (CHR ''{'' # s) = CHR ''{'' # s" "json_skip [] = []"
  by (simp_all add: json_skip_def json_space_def)

lemma json_value_string:
  "json_plain v \<Longrightarrow> json_value (Suc fuel) (json_quote v @ rest) = Some (JString v, rest)"
  by (simp add: json_quote_def json_plain_escape json_string_plain)

definition string_members :: "(string \<times> string) list \<Rightarrow> (string \<times> json) list" where
  "string_members kvs = map (\<lambda>(k, v). (k, JString v)) kvs"

lemma AList_update_new: "k \<notin> fst ` set al \<Longrightarrow> AList.update k v al = al @ [(k, v)]"
  by (induction al) auto

lemma json_members_text_parse:
  assumes "kvs \<noteq> []" and "\<forall>(k, v)\<in>set kvs. json_plain k \<and> json_plain v"
    and "distinct (map fst acc @ map fst kvs)" and "length kvs < fuel"
  shows "json_members fuel acc (json_members_text kvs @ rest) = Some (JObject (acc @ string_members kvs), rest)"
  using assms
proof (induction kvs arbitrary: acc fuel rule: json_members_text.induct)
  case 1
  then show ?case by simp
next
  case (2 k v)
  then obtain f where f: "fuel = Suc (Suc f)" by (cases fuel; cases "fuel - 1") auto
  have plain: "json_plain k" "json_plain v" using 2 by auto
  have new: "AList.update k x acc = acc @ [(k, x)]" for x using 2 by (intro AList_update_new) auto
  have "json_value (Suc f) (json_quote v @ CHR ''}'' # rest) = Some (JString v, CHR ''}'' # rest)"
    by (rule json_value_string [OF plain(2)])
  then show ?case
    by (simp add: f json_quote_def [of k] json_plain_escape plain json_string_plain new string_members_def
        del: json_value.simps)
next
  case (3 k v kv kvs)
  then obtain f where f: "fuel = Suc (Suc f)" by (cases fuel; cases "fuel - 1") auto
  have plain: "json_plain k" "json_plain v" using 3 by auto
  have new: "AList.update k x acc = acc @ [(k, x)]" for x using "3.prems"(3) by (intro AList_update_new) auto
  have "json_value (Suc f) (json_quote v @ CHR '','' # t) = Some (JString v, CHR '','' # t)" for t
    by (rule json_value_string [OF plain(2)])
  then have "json_members fuel acc (json_members_text ((k, v) # kv # kvs) @ rest) =
      json_members (Suc f) (acc @ [(k, JString v)]) (json_members_text (kv # kvs) @ rest)"
    by (simp add: f json_quote_def [of k] json_plain_escape plain json_string_plain new
        del: json_value.simps json_members.simps(2)) (simp add: json_plain_escape plain json_string_plain new del: json_value.simps)
  also have "\<dots> = Some (JObject ((acc @ [(k, JString v)]) @ string_members (kv # kvs)), rest)"
    using "3.prems" f by (intro "3.IH") auto
  finally show ?case by (simp add: string_members_def)
qed

lemma json_parse_stringify:
  assumes "kvs \<noteq> []" and "\<forall>(k, v)\<in>set kvs. json_plain k \<and> json_plain v" and "distinct (map fst kvs)"
  shows "json_parse (json_stringify kvs) = Inr (JObject (string_members kvs))"
proof -
  obtain k v kvs' where kvs: "kvs = (k, v) # kvs'" using assms(1) by (cases kvs) auto
  have len: "length kvs < length (json_stringify kvs)"
  proof -
    have "length kvs < Suc (length (json_members_text kvs))"
      by (induction kvs rule: json_members_text.induct) (auto simp: json_quote_def)
    then show ?thesis by (simp add: json_stringify_def)
  qed
  have head: "\<exists>t. json_members_text kvs = CHR 0x22 # t"
    by (cases kvs rule: json_members_text.cases) (use kvs in \<open>auto simp: json_quote_def\<close>)
  have "json_members (length (json_stringify kvs)) [] (json_members_text kvs @ []) = Some (JObject ([] @ string_members kvs), [])"
    using assms len by (intro json_members_text_parse) auto
  then have "json_value (Suc (length (json_stringify kvs))) (json_stringify kvs) = Some (JObject (string_members kvs), [])"
    using head by (auto simp: json_stringify_def simp del: json_members.simps)
  then show ?thesis by (simp add: json_parse_def del: json_value.simps)
qed

lemma radix_chars_plain: "set s \<subseteq> set radix_chars \<Longrightarrow> json_plain s"
proof -
  have "\<forall>ch\<in>set radix_chars. 32 \<le> (of_char ch :: nat) \<and> of_char ch \<noteq> (34 :: nat) \<and> of_char ch \<noteq> (92 :: nat)" by code_simp
  then show "set s \<subseteq> set radix_chars \<Longrightarrow> json_plain s" unfolding json_plain_def by blast
qed

lemma hex64_plain: "0 \<le> n \<Longrightarrow> json_plain (hex64 n)"
proof -
  assume "0 \<le> n"
  have "json_plain (pad_start 64 (CHR ''0'') (to_radix 16 (nat n)))"
    using hex_chars [of "nat n"] by (intro radix_chars_plain) (auto simp: pad_start_def radix_chars_def)
  with \<open>0 \<le> n\<close> show ?thesis by (simp add: hex64_def js_to_string_def json_plain_def)
qed

end
