(* ===== verification/ClientCrypto.thy ===== *)
theory ClientCrypto
  imports ClientPrelude Poseidon
begin

text \<open>
  \<open>client/src/crypto/poseidon.ts\<close> and \<open>secrets.ts\<close>: the Poseidon wrappers of the client, deposit
  notes and their text, and the conversion of addresses; and how the integers of the client
  stand for the field elements and the byte strings of the contract.
\<close>

subsection \<open>poseidon.ts\<close>

text \<open>The hasher circomlibjs builds: it maps a list of inputs to an internal representation, which
  \<open>F.toObject\<close> reads as a number.\<close>

record poseidon_hasher =
  hash_inputs :: "int list \<Rightarrow> u8 list"
  to_object :: "u8 list \<Rightarrow> int"

text \<open>The module variable \<open>poseidonHasher\<close>, and \<open>buildPoseidon\<close> as the argument.\<close>

definition initPoseidon :: "poseidon_hasher \<Rightarrow> poseidon_hasher option \<Rightarrow> poseidon_hasher option" where
  "initPoseidon built poseidonHasher = (case poseidonHasher of Some hasher \<Rightarrow> Some hasher | None \<Rightarrow> Some built)"

definition getHasher :: "poseidon_hasher option \<Rightarrow> poseidon_hasher js" where
  "getHasher poseidonHasher = (case poseidonHasher of None \<Rightarrow> Inl (Err NotInitialized) | Some hasher \<Rightarrow> Inr hasher)"

definition poseidonHash2 :: "poseidon_hasher option \<Rightarrow> int \<Rightarrow> int \<Rightarrow> int js" where
  "poseidonHash2 ph a b =
     and_then (getHasher ph) (\<lambda>hasher. let hash = hash_inputs hasher [a, b] in Inr (to_object hasher hash))"

definition poseidonHash1 :: "poseidon_hasher option \<Rightarrow> int \<Rightarrow> int js" where
  "poseidonHash1 ph a =
     and_then (getHasher ph) (\<lambda>hasher. let hash = hash_inputs hasher [a] in Inr (to_object hasher hash))"

definition bytesToBigInt :: "u8 list \<Rightarrow> int" where
  "bytesToBigInt bytes = be_bigint bytes"

definition bigIntToBytes :: "int \<Rightarrow> u8 list" where
  "bigIntToBytes n = write_bytes (rev [0..<32]) (replicate 32 0) n"

subsection \<open>secrets.ts\<close>

definition BN254_FIELD_ORDER :: int where
  "BN254_FIELD_ORDER = 21888242871839275222246405745257275088548364400416034343698204186575808495617"

record DepositNote =
  dn_secret :: int
  dn_nullifier :: int
  dn_commitment :: int
  dn_nullifierHash :: int

text \<open>The argument is the result of \<open>randomBytes(31)\<close>.\<close>

definition randomFieldElement :: "u8 list \<Rightarrow> int" where
  "randomFieldElement bytes = be_bigint bytes mod BN254_FIELD_ORDER"

definition recomputeNote :: "poseidon_hasher option \<Rightarrow> int \<Rightarrow> int \<Rightarrow> DepositNote js" where
  "recomputeNote ph secret nullifier =
     and_then (poseidonHash2 ph secret nullifier) (\<lambda>commitment.
     and_then (poseidonHash1 ph nullifier) (\<lambda>nullifierHash.
     Inr \<lparr>dn_secret = secret, dn_nullifier = nullifier, dn_commitment = commitment, dn_nullifierHash = nullifierHash\<rparr>))"

definition generateDepositNote :: "poseidon_hasher option \<Rightarrow> u8 list \<Rightarrow> u8 list \<Rightarrow> DepositNote js" where
  "generateDepositNote ph random1 random2 =
     (let secret = randomFieldElement random1; nullifier = randomFieldElement random2 in
      and_then (poseidonHash2 ph secret nullifier) (\<lambda>commitment.
      and_then (poseidonHash1 ph nullifier) (\<lambda>nullifierHash.
      Inr \<lparr>dn_secret = secret, dn_nullifier = nullifier, dn_commitment = commitment, dn_nullifierHash = nullifierHash\<rparr>)))"

text \<open>An object of strings: its properties in the order of their definition.\<close>

type_synonym string_record = "(string \<times> string) list"

definition serializeNote :: "DepositNote \<Rightarrow> string_record" where
  "serializeNote note =
     [(''secret'', hex64 (dn_secret note)), (''nullifier'', hex64 (dn_nullifier note)),
      (''commitment'', hex64 (dn_commitment note)), (''nullifierHash'', hex64 (dn_nullifierHash note))]"

text \<open>\<open>BigInt(value)\<close> of a property of a parsed JSON value: a missing property and \<open>null\<close> are type
  errors, an array or an object is first turned into text.\<close>

fun json_text :: "json \<Rightarrow> string" where
  "json_text JNull = ''null''"
| "json_text (JBool b) = (if b then ''true'' else ''false'')"
| "json_text (JNumber n) = js_to_string 10 n"
| "json_text (JString s) = s"
| "json_text (JArray xs) =
     (case map (\<lambda>x. case x of JNull \<Rightarrow> '''' | _ \<Rightarrow> json_text x) xs of
        [] \<Rightarrow> ''''
      | t # ts \<Rightarrow> t @ concat (map (\<lambda>u. CHR '','' # u) ts))"
| "json_text (JObject members) = ''[object Object]''"

definition BigInt_of :: "json option \<Rightarrow> int js" where
  "BigInt_of v =
     (case v of
        None \<Rightarrow> Inl (Err TypeError)
      | Some JNull \<Rightarrow> Inl (Err TypeError)
      | Some (JBool b) \<Rightarrow> Inr (if b then 1 else 0)
      | Some (JNumber n) \<Rightarrow> Inr n
      | Some x \<Rightarrow> js_BigInt (json_text x))"

definition deserializeNote :: "poseidon_hasher option \<Rightarrow> json \<Rightarrow> DepositNote js" where
  "deserializeNote ph data =
     and_then (BigInt_of (json_get ''secret'' data)) (\<lambda>secret.
     and_then (BigInt_of (json_get ''nullifier'' data)) (\<lambda>nullifier.
     and_then (recomputeNote ph secret nullifier) (\<lambda>note.
     and_then (BigInt_of (json_get ''commitment'' data)) (\<lambda>expectedCommitment.
     if dn_commitment note \<noteq> expectedCommitment then Inl (Err CommitmentMismatch) else Inr note))))"

text \<open>The name \<open>require\<close>: it is not bound in an ES module, and the package is of type \<open>module\<close>, so that
  reading it throws. In a CommonJS build \<open>require("crypto")\<close> gives Node's SHA-256.\<close>

type_synonym node_require = "(u8 list \<Rightarrow> bytes32) option"

definition addressToFieldBytes :: "node_require \<Rightarrow> string \<Rightarrow> u8 list js" where
  "addressToFieldBytes require address =
     (case require of
        None \<Rightarrow> Inl (Err ReferenceError)
      | Some sha256 \<Rightarrow> Inr (array_list (sha256 (utf8_encode address))))"

definition addressToField :: "node_require \<Rightarrow> string \<Rightarrow> int js" where
  "addressToField require address =
     and_then (addressToFieldBytes require address) (\<lambda>bytes. Inr (bytesToBigInt bytes mod BN254_FIELD_ORDER))"

subsection \<open>Initialised and not\<close>

lemma poseidonHash_simps [simp]:
  "poseidonHash2 (Some hs) a b = Inr (to_object hs (hash_inputs hs [a, b]))"
  "poseidonHash1 (Some hs) a = Inr (to_object hs (hash_inputs hs [a]))"
  "poseidonHash2 None a b = Inl (Err NotInitialized)"
  "poseidonHash1 None a = Inl (Err NotInitialized)"
  by (simp_all add: poseidonHash2_def poseidonHash1_def getHasher_def)

lemma generate_is_recompute:
  "generateDepositNote ph r1 r2 = recomputeNote ph (randomFieldElement r1) (randomFieldElement r2)"
  by (simp add: generateDepositNote_def recomputeNote_def Let_def)

subsection \<open>Numbers, bytes and field elements\<close>

lemma BN254_order [simp]: "BN254_FIELD_ORDER = int bn254_r"
  by (simp add: BN254_FIELD_ORDER_def bn254_r_def)

lemma bytesToBigInt_array: "bytesToBigInt (array_list a) = int (array_val a)"
  by (simp add: bytesToBigInt_def be_bigint_eq array_val_def)

lemma bigIntToBytes_eq: "bigIntToBytes n = to_be_bytes 32 (nat (n mod 256 ^ 32))"
proof -
  have "map ((+) 0) (rev [0..<32]) = rev [0..<32 :: nat]" by (simp add: map_idI)
  then show ?thesis
    using write_bytes_eq [of 0 32 "replicate 32 0" n] by (simp add: bigIntToBytes_def)
qed

lemma length_bigIntToBytes [simp]: "length (bigIntToBytes n) = 32"
  by (simp add: bigIntToBytes_eq)

lemma bigIntToBytes_be_array: "0 \<le> n \<Longrightarrow> n < 256 ^ 32 \<Longrightarrow> array_of (bigIntToBytes n) = (be_array (nat n) :: bytes32)"
  by (simp add: bigIntToBytes_eq be_array_def)

lemma bigIntToBytes_array: "bigIntToBytes (int (array_val (a :: bytes32))) = array_list a"
proof -
  have "be_val (array_list a) < 256 ^ length (array_list a)" by (rule be_val_less)
  then have "be_val (array_list a) < 256 ^ 32" by simp
  then have "be_val (to_be_bytes 32 (nat (int (array_val a) mod 256 ^ 32))) = be_val (array_list a)"
    by (simp add: be_val_to_be_bytes array_val_def nat_mod_distrib nat_power_eq)
  then show ?thesis unfolding bigIntToBytes_eq by (intro be_val_inject) simp_all
qed

text \<open>A field element as a number of the client, and back.\<close>

definition fr_int :: "('fr, 'c) field_crypto_scheme \<Rightarrow> 'fr \<Rightarrow> int" where
  "fr_int c x = int (array_val (fr_to_bytes c x))"

definition fr_of_int :: "('fr, 'c) field_crypto_scheme \<Rightarrow> int \<Rightarrow> 'fr" where
  "fr_of_int c a = bytes_to_fr c (be_array (nat a))"

lemma fr_of_int_array: "fr_of_int c (int (array_val b)) = bytes_to_fr c b"
  by (simp add: fr_of_int_def)

lemma fr_int_range:
  assumes "fr_laws c"
  shows "0 \<le> fr_int c x" "fr_int c x < int bn254_r"
  using fr_to_bytes_canonical [OF assms, of x] by (simp_all add: fr_int_def)

lemma bn254_r_256: "int bn254_r < 256 ^ 32"
  by (simp add: bn254_r_def)

lemma fr_int_small: "fr_laws c \<Longrightarrow> fr_int c x < 256 ^ 32"
  using fr_int_range(2) [of c x] bn254_r_256 by linarith

lemma fr_of_int_fr_int: "fr_laws c \<Longrightarrow> fr_of_int c (fr_int c x) = x"
  by (simp add: fr_of_int_def fr_int_def bytes_to_fr_to_bytes)

lemma fr_int_fr_of_int:
  assumes "fr_laws c" and "0 \<le> a" and "a < 256 ^ 32"
  shows "fr_int c (fr_of_int c a) = a mod int bn254_r"
proof -
  have "nat a < 256 ^ 32" using assms(2,3) by (simp add: nat_less_iff)
  then have "array_val (be_array (nat a) :: bytes32) = nat a" by (simp add: array_val_be_array)
  then show ?thesis using assms(2) by (simp add: fr_int_def fr_of_int_def array_val_bytes_to_fr [OF assms(1)] zmod_int)
qed

lemma fr_of_int_mod:
  assumes "fr_laws c" and "0 \<le> a" and "a < 256 ^ 32"
  shows "fr_of_int c (a mod int bn254_r) = fr_of_int c a"
  using fr_int_fr_of_int [OF assms] fr_of_int_fr_int [OF assms(1), of "fr_of_int c a"] by simp

lemma fr_int_bytes: "array_of (bigIntToBytes (fr_int c x)) = fr_to_bytes c x"
  using bigIntToBytes_array [of "fr_to_bytes c x"] by (simp add: fr_int_def)

lemma randomFieldElement_range: "0 \<le> randomFieldElement r" "randomFieldElement r < int bn254_r"
  by (simp_all add: randomFieldElement_def bn254_r_def)

text \<open>31 bytes stay below the order: nothing is lost by the reduction.\<close>

lemma randomFieldElement_exact:
  assumes "length r = 31"
  shows "randomFieldElement r = int (be_val r)"
proof -
  have "be_val r < 256 ^ 31" using be_val_less [of r] assms by simp
  also have "256 ^ 31 < bn254_r" by (simp add: bn254_r_def)
  finally show ?thesis by (simp add: randomFieldElement_def be_bigint_eq)
qed

text \<open>circomlibjs computes the same permutation as light-poseidon, on inputs reduced to the field.\<close>

definition hasher_laws :: "('fr, 'c) field_crypto_scheme \<Rightarrow> poseidon_hasher \<Rightarrow> bool" where
  "hasher_laws c hs \<longleftrightarrow>
     (\<forall>a. 0 \<le> a \<longrightarrow> a < 256 ^ 32 \<longrightarrow> to_object hs (hash_inputs hs [a]) = fr_int c (poseidon1 c (fr_of_int c a))) \<and>
     (\<forall>a b. 0 \<le> a \<longrightarrow> a < 256 ^ 32 \<longrightarrow> 0 \<le> b \<longrightarrow> b < 256 ^ 32 \<longrightarrow>
        to_object hs (hash_inputs hs [a, b]) = fr_int c (poseidon2 c (fr_of_int c a) (fr_of_int c b)))"

end
