(* ===== verification/ClientWallet.thy ===== *)
theory ClientWallet
  imports ClientJson ClientCrypto
begin

text \<open>
  \<open>client/src/crypto/encryption.ts\<close> and \<open>client/src/wallet/notestore.ts\<close>: password encryption and
  the store of deposit notes. PBKDF2 and AES-256-GCM are Node's, the record \<open>node_crypto\<close>; the
  random salt and initialisation vector and the clock are arguments.
\<close>

subsection \<open>encryption.ts\<close>

record node_crypto =
  pbkdf2_sha256 :: "string \<Rightarrow> u8 list \<Rightarrow> nat \<Rightarrow> nat \<Rightarrow> u8 list"
  aes_gcm_seal :: "u8 list \<Rightarrow> u8 list \<Rightarrow> u8 list \<Rightarrow> u8 list \<times> u8 list"
  aes_gcm_open :: "u8 list \<Rightarrow> u8 list \<Rightarrow> u8 list \<Rightarrow> u8 list \<Rightarrow> u8 list option"

text \<open>What is sealed with a key and a vector opens with them and the tag.\<close>

definition aead_law :: "node_crypto \<Rightarrow> bool" where
  "aead_law k \<longleftrightarrow> (\<forall>key iv text ct tag. aes_gcm_seal k key iv text = (ct, tag) \<longrightarrow> aes_gcm_open k key iv tag ct = Some text)"

definition KEY_LENGTH :: nat where "KEY_LENGTH = 32"
definition PBKDF2_ITERATIONS :: nat where "PBKDF2_ITERATIONS = 600000"

record EncryptedPayload =
  ep_version :: int
  ep_salt :: string
  ep_iv :: string
  ep_authTag :: string
  ep_ciphertext :: string

text \<open>\<open>buffer.toString("hex")\<close>, and \<open>Buffer.from(text, "hex")\<close>, which stops at the first pair of
  characters that are not hexadecimal digits.\<close>

definition buffer_hex :: "u8 list \<Rightarrow> string" where
  "buffer_hex bytes = concat (map (\<lambda>b. [radix_digit (unat b div 16), radix_digit (unat b mod 16)]) bytes)"

definition hex_value :: "char \<Rightarrow> nat option" where
  "hex_value ch = (case digit_value ch of Some d \<Rightarrow> if d < 16 then Some d else None | None \<Rightarrow> None)"

fun buffer_from_hex :: "string \<Rightarrow> u8 list" where
  "buffer_from_hex (a # b # cs) =
     (case (hex_value a, hex_value b) of
        (Some x, Some y) \<Rightarrow> word_of_nat (16 * x + y) # buffer_from_hex cs
      | _ \<Rightarrow> [])"
| "buffer_from_hex _ = []"

text \<open>\<open>buffer.toString("utf8")\<close>; a sequence that is not the encoding of a code point below 256 is read
  as a question mark.\<close>

fun utf8_decode :: "u8 list \<Rightarrow> string" where
  "utf8_decode [] = ''''"
| "utf8_decode (b # bs) =
     (if unat b < 128 then char_of (unat b) # utf8_decode bs
      else (case bs of
          c # cs \<Rightarrow>
            if 194 \<le> unat b \<and> unat b \<le> 195 \<and> 128 \<le> unat c \<and> unat c < 192
            then char_of (64 * (unat b - 192) + (unat c - 128)) # utf8_decode cs
            else CHR ''?'' # utf8_decode bs
        | [] \<Rightarrow> ''?''))"

definition deriveKey :: "node_crypto \<Rightarrow> string \<Rightarrow> u8 list \<Rightarrow> u8 list" where
  "deriveKey k password salt = pbkdf2_sha256 k password salt PBKDF2_ITERATIONS KEY_LENGTH"

definition encrypt :: "node_crypto \<Rightarrow> u8 list \<Rightarrow> u8 list \<Rightarrow> string \<Rightarrow> string \<Rightarrow> EncryptedPayload js" where
  "encrypt k salt iv plaintext password =
     (if password = [] \<or> length password < 8 then Inl (Err PasswordTooShort)
      else
        (let key = deriveKey k password salt;
             (encrypted, authTag) = aes_gcm_seal k key iv (utf8_encode plaintext)
         in Inr \<lparr>ep_version = 1, ep_salt = buffer_hex salt, ep_iv = buffer_hex iv,
                 ep_authTag = buffer_hex authTag, ep_ciphertext = buffer_hex encrypted\<rparr>))"

definition decrypt :: "node_crypto \<Rightarrow> EncryptedPayload \<Rightarrow> string \<Rightarrow> string js" where
  "decrypt k payload password =
     (if ep_version payload \<noteq> 1 then Inl (Err (UnsupportedEncryption (ep_version payload)))
      else
        (let salt = buffer_from_hex (ep_salt payload);
             iv = buffer_from_hex (ep_iv payload);
             authTag = buffer_from_hex (ep_authTag payload);
             ciphertext = buffer_from_hex (ep_ciphertext payload);
             key = deriveKey k password salt
         in and_then (ok_or DecryptionFailed (aes_gcm_open k key iv authTag ciphertext)) (\<lambda>decrypted.
            Inr (utf8_decode decrypted))))"

subsection \<open>notestore.ts\<close>

record StoredNote =
  sn_note :: DepositNote
  sn_poolId :: string
  sn_depositTimestamp :: int
  sn_leafIndex :: "int option"
  sn_spent :: bool

record NoteBackup =
  nb_version :: int
  nb_poolId :: string
  nb_depositTimestamp :: int
  nb_leafIndex :: "int option"
  nb_encrypted :: EncryptedPayload

text \<open>The \<open>Map\<close> \<open>notes\<close>: its entries in the order of their insertion.\<close>

type_synonym NoteStore = "(string \<times> StoredNote) list"

definition note_key :: "DepositNote \<Rightarrow> string" where
  "note_key note = hex64 (dn_commitment note)"

definition store_add :: "int \<Rightarrow> DepositNote \<Rightarrow> string \<Rightarrow> int option \<Rightarrow> NoteStore \<Rightarrow> NoteStore" where
  "store_add now note poolId leafIndex store =
     AList.update (note_key note)
       \<lparr>sn_note = note, sn_poolId = poolId, sn_depositTimestamp = now, sn_leafIndex = leafIndex, sn_spent = False\<rparr> store"

definition store_get :: "string \<Rightarrow> NoteStore \<Rightarrow> StoredNote option" where
  "store_get commitmentHex store = map_of store commitmentHex"

definition markSpent :: "string \<Rightarrow> NoteStore \<Rightarrow> NoteStore" where
  "markSpent commitmentHex store =
     (case store_get commitmentHex store of
        Some stored \<Rightarrow> AList.update commitmentHex (stored\<lparr>sn_spent := True\<rparr>) store
      | None \<Rightarrow> store)"

definition getUnspent :: "string \<Rightarrow> NoteStore \<Rightarrow> StoredNote list" where
  "getUnspent poolId store = filter (\<lambda>n. sn_poolId n = poolId \<and> \<not> sn_spent n) (map snd store)"

definition getAll :: "NoteStore \<Rightarrow> StoredNote list" where
  "getAll store = map snd store"

definition exportNote :: "node_crypto \<Rightarrow> u8 list \<Rightarrow> u8 list \<Rightarrow> string \<Rightarrow> string \<Rightarrow> NoteStore \<Rightarrow> NoteBackup js" where
  "exportNote k salt iv commitmentHex password store =
     and_then (ok_or (NoteNotFound commitmentHex) (store_get commitmentHex store)) (\<lambda>stored.
       let serialized = serializeNote (sn_note stored);
           plaintext = json_stringify serialized
       in and_then (encrypt k salt iv plaintext password) (\<lambda>encrypted.
          Inr \<lparr>nb_version = 1, nb_poolId = sn_poolId stored, nb_depositTimestamp = sn_depositTimestamp stored,
               nb_leafIndex = sn_leafIndex stored, nb_encrypted = encrypted\<rparr>))"

definition importNote :: "node_crypto \<Rightarrow> poseidon_hasher option \<Rightarrow> NoteBackup \<Rightarrow> string \<Rightarrow> NoteStore \<Rightarrow>
    (DepositNote \<times> NoteStore) js" where
  "importNote k ph backup password store =
     (if nb_version backup \<noteq> 1 then Inl (Err (UnsupportedBackup (nb_version backup)))
      else
        and_then (decrypt k (nb_encrypted backup) password) (\<lambda>plaintext.
        and_then (json_parse plaintext) (\<lambda>serialized.
        and_then (deserializeNote ph serialized) (\<lambda>note.
        Inr (note, AList.update (hex64 (dn_commitment note))
          \<lparr>sn_note = note, sn_poolId = nb_poolId backup, sn_depositTimestamp = nb_depositTimestamp backup,
           sn_leafIndex = nb_leafIndex backup, sn_spent = False\<rparr> store)))))"

text \<open>\<open>for (const [key] of this.notes) backups.push(this.exportNote(key, password))\<close>; each export draws
  its own salt and vector.\<close>

fun export_keys :: "node_crypto \<Rightarrow> (nat \<Rightarrow> u8 list \<times> u8 list) \<Rightarrow> string \<Rightarrow> NoteStore \<Rightarrow> string list \<Rightarrow> NoteBackup list \<Rightarrow>
    NoteBackup list js" where
  "export_keys k random password store [] backups = Inr backups"
| "export_keys k random password store (key # keys) backups =
     (let (salt, iv) = random (length backups) in
      and_then (exportNote k salt iv key password store) (\<lambda>backup.
      export_keys k random password store keys (backups @ [backup])))"

definition exportAll :: "node_crypto \<Rightarrow> (nat \<Rightarrow> u8 list \<times> u8 list) \<Rightarrow> string \<Rightarrow> NoteStore \<Rightarrow> NoteBackup list js" where
  "exportAll k random password store = export_keys k random password store (map fst store) []"

subsection \<open>Bytes and text\<close>

lemma hex_value_radix_digit: "d < 16 \<Longrightarrow> hex_value (radix_digit d) = Some d"
  by (simp add: hex_value_def digit_value_radix_digit)

lemma buffer_hex_roundtrip [simp]: "buffer_from_hex (buffer_hex bytes) = bytes"
proof (induction bytes)
  case Nil
  show ?case by (simp add: buffer_hex_def)
next
  case (Cons b bytes)
  have "unat b < 256" by (rule unat_byte_less)
  then have "unat b div 16 < 16" "unat b mod 16 < 16" by linarith+
  then show ?case using Cons.IH by (simp add: buffer_hex_def hex_value_radix_digit)
qed

lemma unat_u8: "n < 256 \<Longrightarrow> unat (word_of_nat n :: u8) = n"
  by (simp add: unat_of_nat)

lemma utf8_roundtrip: "utf8_decode (utf8_encode s) = s"
proof (induction s)
  case Nil
  show ?case by (simp add: utf8_encode_def)
next
  case (Cons ch s)
  let ?d = "of_char ch :: nat"
  have d: "?d < 256" by (metis mod_less_divisor of_char_mod_256 zero_less_numeral)
  show ?case
  proof (cases "?d < 128")
    case True
    then have "unat (word_of_nat ?d :: u8) = ?d" by (simp add: unat_of_nat)
    with True Cons.IH show ?thesis by (simp add: utf8_encode_def)
  next
    case False
    with d have "?d div 64 = 2 \<or> ?d div 64 = 3" by linarith
    then have "unat (word_of_nat (192 + ?d div 64) :: u8) = 192 + ?d div 64" by (intro unat_u8) auto
    moreover have "?d mod 64 < 64" by simp
    then have "unat (word_of_nat (128 + ?d mod 64) :: u8) = 128 + ?d mod 64" by (intro unat_u8) linarith
    moreover have "64 * (192 + ?d div 64 - 192) + (128 + ?d mod 64 - 128) = ?d" by simp
    ultimately show ?thesis
      using False \<open>?d div 64 = 2 \<or> ?d div 64 = 3\<close> Cons.IH by (auto simp: utf8_encode_def Let_def)
  qed
qed

lemma encrypt_total:
  assumes "8 \<le> length password"
  shows "\<exists>payload. encrypt k salt iv plaintext password = Inr payload"
proof -
  have "password \<noteq> []" using assms by auto
  then show ?thesis using assms by (simp add: encrypt_def Let_def split: prod.split)
qed

lemma decrypt_encrypt:
  assumes "aead_law k" and "8 \<le> length password"
  shows "\<exists>payload. encrypt k salt iv plaintext password = Inr payload \<and> decrypt k payload password = Inr plaintext"
proof -
  obtain ct tag where seal: "aes_gcm_seal k (deriveKey k password salt) iv (utf8_encode plaintext) = (ct, tag)"
    by (cases "aes_gcm_seal k (deriveKey k password salt) iv (utf8_encode plaintext)")
  then have "aes_gcm_open k (deriveKey k password salt) iv tag ct = Some (utf8_encode plaintext)"
    using assms(1) by (simp add: aead_law_def)
  with seal assms(2) show ?thesis by (auto simp: encrypt_def decrypt_def Let_def utf8_roundtrip)
qed

subsection \<open>Notes as text\<close>

text \<open>A note whose hashes are those of its secrets, as the client makes them.\<close>

definition note_ok :: "poseidon_hasher option \<Rightarrow> DepositNote \<Rightarrow> bool" where
  "note_ok ph note \<longleftrightarrow> recomputeNote ph (dn_secret note) (dn_nullifier note) = Inr note \<and>
     0 \<le> dn_secret note \<and> 0 \<le> dn_nullifier note \<and> 0 \<le> dn_commitment note \<and> 0 \<le> dn_nullifierHash note"

text \<open>A fresh note is such a note.\<close>

lemma generated_note_ok:
  assumes "\<forall>bs. 0 \<le> to_object hs bs" and "generateDepositNote (Some hs) random1 random2 = Inr note"
  shows "note_ok (Some hs) note"
  using assms randomFieldElement_range(1) by (auto simp: note_ok_def generate_is_recompute recomputeNote_def)

lemma string_members_get:
  "json_get key (JObject (string_members kvs)) = map_option JString (map_of kvs key)"
  by (simp add: json_get_def string_members_def map_of_map)

lemma deserialize_serialize:
  assumes "note_ok ph note"
  shows "deserializeNote ph (JObject (string_members (serializeNote note))) = Inr note"
  using assms by (simp add: deserializeNote_def string_members_get serializeNote_def note_ok_def BigInt_of_def BigInt_hex64)

lemma serializeNote_json:
  assumes "note_ok ph note"
  shows "json_parse (json_stringify (serializeNote note)) = Inr (JObject (string_members (serializeNote note)))"
proof (rule json_parse_stringify)
  have "json_plain ''secret''" "json_plain ''nullifier''" "json_plain ''commitment''" "json_plain ''nullifierHash''"
    by (simp_all add: json_plain_def)
  with assms show "\<forall>(k, v)\<in>set (serializeNote note). json_plain k \<and> json_plain v"
    by (simp add: serializeNote_def note_ok_def hex64_plain)
qed (simp_all add: serializeNote_def)

lemma import_export:
  assumes "aead_law k" and "8 \<le> length password" and "store_get key store = Some stored" and "note_ok ph (sn_note stored)"
  shows "\<exists>backup. exportNote k salt iv key password store = Inr backup \<and>
    importNote k ph backup password other =
      Inr (sn_note stored, AList.update (note_key (sn_note stored)) (stored\<lparr>sn_spent := False\<rparr>) other)"
proof -
  obtain payload where "encrypt k salt iv (json_stringify (serializeNote (sn_note stored))) password = Inr payload"
    and "decrypt k payload password = Inr (json_stringify (serializeNote (sn_note stored)))"
    using decrypt_encrypt [OF assms(1,2)] by blast
  then show ?thesis
    using assms(3,4)
    by (simp add: exportNote_def importNote_def Let_def serializeNote_json [OF assms(4)] deserialize_serialize note_key_def)
      (cases stored; simp)
qed

subsection \<open>The store\<close>

text \<open>Every note lies under the text of its commitment, once.\<close>

definition store_ok :: "NoteStore \<Rightarrow> bool" where
  "store_ok store \<longleftrightarrow> distinct (map fst store) \<and> (\<forall>(key, stored)\<in>set store. key = note_key (sn_note stored))"

lemma AList_update_set: "set (AList.update k v al) \<subseteq> insert (k, v) (set al)"
  by (induction al) auto

lemma store_update_ok:
  assumes "store_ok store" and "key = note_key (sn_note stored)"
  shows "store_ok (AList.update key stored store)"
proof -
  have "distinct (map fst (AList.update key stored store))"
    using assms(1) by (intro distinct_update) (simp add: store_ok_def)
  with assms AList_update_set [of key stored store] show ?thesis by (auto simp: store_ok_def)
qed

lemma store_get_key: "store_ok store \<Longrightarrow> store_get key store = Some stored \<Longrightarrow> key = note_key (sn_note stored)"
  by (auto simp: store_get_def store_ok_def dest: map_of_SomeD)

lemma store_ops_ok:
  assumes "store_ok store"
  shows "store_ok (store_add now note poolId leafIndex store)" "store_ok (markSpent key store)"
    "importNote k ph backup password store = Inr (note', store') \<Longrightarrow> store_ok store'"
proof -
  show "store_ok (store_add now note poolId leafIndex store)"
    unfolding store_add_def by (rule store_update_ok [OF assms]) simp
  show "store_ok (markSpent key store)"
    using store_get_key [OF assms] assms
    by (auto simp: markSpent_def split: option.split intro!: store_update_ok)
  show "importNote k ph backup password store = Inr (note', store') \<Longrightarrow> store_ok store'"
    by (auto simp: importNote_def and_then_eq_Inr note_key_def intro!: store_update_ok [OF assms] split: if_splits)
qed

text \<open>A note marked as spent is no longer offered, and no other note is touched.\<close>

lemma markSpent_unspent:
  assumes "store_ok store"
  shows "getUnspent poolId (markSpent key store) = filter (\<lambda>n. note_key (sn_note n) \<noteq> key) (getUnspent poolId store)"
proof (cases "store_get key store")
  case None
  then have "key \<notin> fst ` set store" by (simp add: store_get_def map_of_eq_None_iff)
  then have "\<forall>n\<in>snd ` set store. note_key (sn_note n) \<noteq> key" using assms by (force simp: store_ok_def)
  then have "filter (\<lambda>n. sn_poolId n = poolId \<and> \<not> sn_spent n) (map snd store) =
    filter (\<lambda>n. note_key (sn_note n) \<noteq> key) (filter (\<lambda>n. sn_poolId n = poolId \<and> \<not> sn_spent n) (map snd store))"
    by (simp add: filter_filter) (rule filter_cong, auto)
  with None show ?thesis by (simp add: markSpent_def getUnspent_def)
next
  case (Some stored)
  have "filter (\<lambda>n. sn_poolId n = poolId \<and> \<not> sn_spent n) (map snd (AList.update key (stored\<lparr>sn_spent := True\<rparr>) store)) =
    filter (\<lambda>n. note_key (sn_note n) \<noteq> key) (filter (\<lambda>n. sn_poolId n = poolId \<and> \<not> sn_spent n) (map snd store))"
    using assms Some [unfolded store_get_def]
  proof (induction store)
    case Nil
    then show ?case by simp
  next
    case (Cons entry store)
    obtain k v where entry: "entry = (k, v)" by (cases entry)
    have ok: "store_ok store" "k \<notin> fst ` set store" "k = note_key (sn_note v)"
      using Cons.prems(1) by (auto simp: store_ok_def entry)
    show ?case
    proof (cases "k = key")
      case True
      have "\<forall>n\<in>snd ` set store. note_key (sn_note n) \<noteq> key" using ok True by (force simp: store_ok_def)
      then have "filter (\<lambda>n. sn_poolId n = poolId \<and> \<not> sn_spent n) (map snd store) =
        filter (\<lambda>n. note_key (sn_note n) \<noteq> key) (filter (\<lambda>n. sn_poolId n = poolId \<and> \<not> sn_spent n) (map snd store))"
        by (simp add: filter_filter) (rule filter_cong, auto)
      with True ok show ?thesis by (simp add: entry)
    next
      case False
      with Cons ok show ?thesis by (simp add: entry)
    qed
  qed
  with Some show ?thesis by (simp add: markSpent_def getUnspent_def)
qed

end
