(* ===== verification/ClientMerkle.thy ===== *)
theory ClientMerkle
  imports ClientCrypto MerkleSpec
begin

text \<open>
  \<open>client/src/crypto/merkle.ts\<close>: the client's own Merkle tree over numbers, and the proof that it
  provides the interface of an append-only tree and authentication paths.
\<close>

subsection \<open>The class\<close>

record ClientProof =
  cp_pathElements :: "int list"
  cp_pathIndices :: "int list"
  cp_root :: int
  cp_leafIndex :: int

record ClientTree =
  ct_depth :: nat
  ct_leaves :: "int list"
  ct_zeroValues :: "int list"
  ct_layers :: "int list list"

text \<open>\<open>for i in 1..depth { zeroValues[i] = poseidonHash2(zeroValues[i - 1], zeroValues[i - 1]) }\<close>\<close>

fun fill_zero_values :: "poseidon_hasher option \<Rightarrow> nat list \<Rightarrow> int list \<Rightarrow> int list js" where
  "fill_zero_values ph [] zeroValues = Inr zeroValues"
| "fill_zero_values ph (i # is) zeroValues =
     and_then (poseidonHash2 ph (zeroValues ! (i - 1)) (zeroValues ! (i - 1))) (\<lambda>z.
       fill_zero_values ph is (zeroValues[i := z]))"

definition client_tree_new :: "poseidon_hasher option \<Rightarrow> nat \<Rightarrow> ClientTree js" where
  "client_tree_new ph depth =
     and_then (poseidonHash1 ph 0) (\<lambda>z0.
     and_then (fill_zero_values ph [1..<Suc depth] ((replicate (Suc depth) 0)[0 := z0])) (\<lambda>zeroValues.
     Inr \<lparr>ct_depth = depth, ct_leaves = [], ct_zeroValues = zeroValues,
          ct_layers = map (\<lambda>_. []) [0..<Suc depth]\<rparr>))"

text \<open>\<open>this.layers[level][i] ?? this.zeroValues[level]\<close>\<close>

definition node_or_zero_value :: "ClientTree \<Rightarrow> nat \<Rightarrow> int \<Rightarrow> int" where
  "node_or_zero_value t level i =
     (case js_get (ct_layers t ! level) i of Some x \<Rightarrow> x | None \<Rightarrow> ct_zeroValues t ! level)"

text \<open>The levels of \<open>rebuild\<close>: the layer above is filled from left to right.\<close>

fun rebuild_layers :: "poseidon_hasher option \<Rightarrow> nat list \<Rightarrow> ClientTree \<Rightarrow> ClientTree js" where
  "rebuild_layers ph [] t = Inr t"
| "rebuild_layers ph (level # levels) t =
     (let layerSize = (length (ct_layers t ! level) + 1) div 2 in
      and_then (js_map (\<lambda>i. poseidonHash2 ph (node_or_zero_value t level (int (i * 2)))
                               (node_or_zero_value t level (int (i * 2 + 1)))) [0..<layerSize]) (\<lambda>up.
      rebuild_layers ph levels (t\<lparr>ct_layers := (ct_layers t)[level + 1 := up]\<rparr>)))"

definition client_rebuild :: "poseidon_hasher option \<Rightarrow> ClientTree \<Rightarrow> ClientTree js" where
  "client_rebuild ph t = rebuild_layers ph [0..<ct_depth t] t"

definition client_insert :: "poseidon_hasher option \<Rightarrow> int \<Rightarrow> ClientTree \<Rightarrow> (nat \<times> ClientTree) js" where
  "client_insert ph commitment t =
     (let index = length (ct_leaves t); leaves = ct_leaves t @ [commitment] in
      and_then (client_rebuild ph (t\<lparr>ct_leaves := leaves, ct_layers := (ct_layers t)[0 := leaves]\<rparr>)) (\<lambda>t.
      Inr (index, t)))"

definition getRoot :: "ClientTree \<Rightarrow> int" where
  "getRoot t =
     (if length (ct_layers t ! ct_depth t) = 0 then ct_zeroValues t ! ct_depth t else ct_layers t ! ct_depth t ! 0)"

text \<open>The loop of \<open>getProof\<close>; \<open>Math.floor(currentIndex / 2)\<close> is the integer division.\<close>

fun proof_entries :: "ClientTree \<Rightarrow> nat list \<Rightarrow> int \<Rightarrow> int list \<Rightarrow> int list \<Rightarrow> int list \<times> int list" where
  "proof_entries t [] currentIndex pathElements pathIndices = (pathElements, pathIndices)"
| "proof_entries t (level # levels) currentIndex pathElements pathIndices =
     (let siblingIndex = (if js_rem currentIndex 2 = 0 then currentIndex + 1 else currentIndex - 1);
          sib = node_or_zero_value t level siblingIndex
      in proof_entries t levels (currentIndex div 2) (pathElements @ [sib]) (pathIndices @ [js_rem currentIndex 2]))"

definition getProof :: "int \<Rightarrow> ClientTree \<Rightarrow> ClientProof js" where
  "getProof index t =
     (if index \<ge> int (length (ct_leaves t)) then Inl (Err (LeafOutOfBounds index (length (ct_leaves t))))
      else (let (pathElements, pathIndices) = proof_entries t [0..<ct_depth t] index [] []
            in Inr \<lparr>cp_pathElements = pathElements, cp_pathIndices = pathIndices, cp_root = getRoot t,
                    cp_leafIndex = index\<rparr>))"

definition leafCount :: "ClientTree \<Rightarrow> nat" where
  "leafCount t = length (ct_leaves t)"

subsection \<open>What the tree holds\<close>

definition H2 :: "poseidon_hasher \<Rightarrow> int \<Rightarrow> int \<Rightarrow> int" where
  "H2 hs a b = to_object hs (hash_inputs hs [a, b])"

definition Z0 :: "poseidon_hasher \<Rightarrow> int" where
  "Z0 hs = to_object hs (hash_inputs hs [0])"

lemma hash_named: "poseidonHash2 (Some hs) a b = Inr (H2 hs a b)" "poseidonHash1 (Some hs) 0 = Inr (Z0 hs)"
  by (simp_all add: H2_def Z0_def)

definition ctree_rep :: "poseidon_hasher \<Rightarrow> nat \<Rightarrow> ClientTree \<Rightarrow> int list \<Rightarrow> bool" where
  "ctree_rep hs depth t xs \<longleftrightarrow> ct_depth t = depth \<and> ct_leaves t = xs \<and>
     ct_zeroValues t = map (empty_node (H2 hs) (Z0 hs)) [0..<Suc depth] \<and>
     ct_layers t = map (spec_layer (H2 hs) (Z0 hs) xs) [0..<Suc depth]"

lemma fill_zero_values_ok:
  assumes "length zs = Suc d" and "\<forall>j<k. zs ! j = empty_node (H2 hs) (Z0 hs) j" and "0 < k" and "k \<le> Suc d"
  shows "fill_zero_values (Some hs) [k..<Suc d] zs = Inr (map (empty_node (H2 hs) (Z0 hs)) [0..<Suc d])"
  using assms
proof (induction "Suc d - k" arbitrary: k zs)
  case 0
  then have "k = Suc d" by simp
  with 0 show ?case by (auto intro!: nth_equalityI simp del: upt_Suc)
next
  case (Suc n)
  then have k: "k < Suc d" by simp
  let ?zs = "zs[k := empty_node (H2 hs) (Z0 hs) k]"
  have "empty_node (H2 hs) (Z0 hs) k = H2 hs (zs ! (k - 1)) (zs ! (k - 1))"
    using Suc.prems(2,3) by (cases k) auto
  then have "fill_zero_values (Some hs) [k..<Suc d] zs = fill_zero_values (Some hs) [Suc k..<Suc d] ?zs"
    using k by (simp add: upt_conv_Cons hash_named del: upt_Suc poseidonHash_simps)
  also have "\<dots> = Inr (map (empty_node (H2 hs) (Z0 hs)) [0..<Suc d])"
    using Suc.hyps(2) Suc.prems k by (intro Suc.hyps(1)) (auto simp: nth_list_update less_Suc_eq)
  finally show ?case .
qed

lemma client_tree_new_rep: "\<exists>t. client_tree_new (Some hs) depth = Inr t \<and> ctree_rep hs depth t []"
proof -
  have "fill_zero_values (Some hs) [1..<Suc depth] ((replicate (Suc depth) 0)[0 := Z0 hs]) =
      Inr (map (empty_node (H2 hs) (Z0 hs)) [0..<Suc depth])"
    by (rule fill_zero_values_ok) auto
  then show ?thesis
    by (simp add: client_tree_new_def hash_named ctree_rep_def spec_layer_def del: upt_Suc poseidonHash_simps)
qed

lemma node_or_zero_value_node:
  assumes "ct_layers t ! level = spec_layer (H2 hs) (Z0 hs) xs level"
    and "ct_zeroValues t ! level = empty_node (H2 hs) (Z0 hs) level"
  shows "node_or_zero_value t level (int i) = node (H2 hs) (Z0 hs) xs level i"
  using spec_layer_get [of i "H2 hs" "Z0 hs" xs level] assms
  by (simp add: node_or_zero_value_def js_get_def split: if_splits)

lemma rebuild_layers_ok:
  assumes "\<forall>j\<le>level. ct_layers t ! j = spec_layer (H2 hs) (Z0 hs) xs j" and "level \<le> ct_depth t"
    and "length (ct_layers t) = Suc (ct_depth t)"
    and "ct_zeroValues t = map (empty_node (H2 hs) (Z0 hs)) [0..<Suc (ct_depth t)]"
  shows "rebuild_layers (Some hs) [level..<ct_depth t] t =
    Inr (t\<lparr>ct_layers := map (spec_layer (H2 hs) (Z0 hs) xs) [0..<Suc (ct_depth t)]\<rparr>)"
  using assms
proof (induction "ct_depth t - level" arbitrary: level t)
  case 0
  then have "level = ct_depth t" by simp
  with 0 have "ct_layers t = map (spec_layer (H2 hs) (Z0 hs) xs) [0..<Suc (ct_depth t)]"
    by (intro nth_equalityI) (auto simp del: upt_Suc)
  with \<open>level = ct_depth t\<close> show ?case by (cases t) simp
next
  case (Suc n)
  then have lt: "level < ct_depth t" by simp
  let ?up = "spec_layer (H2 hs) (Z0 hs) xs (Suc level)"
  let ?t = "t\<lparr>ct_layers := (ct_layers t)[Suc level := ?up]\<rparr>"
  have at: "ct_layers t ! level = spec_layer (H2 hs) (Z0 hs) xs level" using Suc.prems(1) by simp
  have "ct_zeroValues t ! level = empty_node (H2 hs) (Z0 hs) level" using Suc.prems(4) lt by (simp del: upt_Suc)
  note entry = node_or_zero_value_node [OF at this]
  have "js_map (\<lambda>i. poseidonHash2 (Some hs) (node_or_zero_value t level (int (i * 2)))
      (node_or_zero_value t level (int (i * 2 + 1)))) [0..<layer_count (length xs) (Suc level)] = Inr ?up"
    unfolding entry hash_named spec_layer_def by (subst js_map_Inr [OF refl]) (simp add: mult.commute)
  then have "rebuild_layers (Some hs) [level..<ct_depth t] t = rebuild_layers (Some hs) [Suc level..<ct_depth t] ?t"
    by (simp add: upt_conv_Cons [OF lt] at)
  also have "\<dots> = Inr (?t\<lparr>ct_layers := map (spec_layer (H2 hs) (Z0 hs) xs) [0..<Suc (ct_depth ?t)]\<rparr>)"
    using Suc.hyps(1) [of ?t "Suc level"] Suc.hyps(2) Suc.prems lt by (simp add: nth_list_update le_Suc_eq)
  finally show ?case by simp
qed

lemma client_insert_rep:
  assumes "ctree_rep hs depth t xs"
  shows "\<exists>t'. client_insert (Some hs) x t = Inr (length xs, t') \<and> ctree_rep hs depth t' (xs @ [x])"
proof -
  let ?u = "t\<lparr>ct_leaves := xs @ [x], ct_layers := (ct_layers t)[0 := xs @ [x]]\<rparr>"
  have t: "ct_depth t = depth" "ct_leaves t = xs" "length (ct_layers t) = Suc depth"
    "ct_zeroValues t = map (empty_node (H2 hs) (Z0 hs)) [0..<Suc depth]"
    using assms by (simp_all add: ctree_rep_def)
  then have "client_rebuild (Some hs) ?u =
      Inr (?u\<lparr>ct_layers := map (spec_layer (H2 hs) (Z0 hs) (xs @ [x])) [0..<Suc (ct_depth ?u)]\<rparr>)"
    unfolding client_rebuild_def by (intro rebuild_layers_ok) (simp_all del: upt_Suc)
  with t show ?thesis by (simp add: client_insert_def ctree_rep_def Let_def del: upt_Suc)
qed

lemma ctree_at:
  assumes "ctree_rep hs depth t xs" and "l \<le> depth"
  shows "ct_layers t ! l = spec_layer (H2 hs) (Z0 hs) xs l" "ct_zeroValues t ! l = empty_node (H2 hs) (Z0 hs) l"
  using assms by (simp_all add: ctree_rep_def del: upt_Suc)

lemma getRoot_rep:
  assumes "ctree_rep hs depth t xs"
  shows "getRoot t = node (H2 hs) (Z0 hs) xs depth 0"
proof -
  have d: "ct_depth t = depth" using assms by (simp add: ctree_rep_def)
  show ?thesis
    using spec_layer_get [of 0 "H2 hs" "Z0 hs" xs depth]
    by (simp add: getRoot_def d ctree_at [OF assms] split: if_splits)
qed

definition client_insert_only :: "poseidon_hasher \<Rightarrow> int \<Rightarrow> ClientTree \<Rightarrow> ClientTree js" where
  "client_insert_only hs x t = and_then (client_insert (Some hs) x t) (\<lambda>(_, t'). Inr t')"

text \<open>The tree provides the interface of an append-only Merkle tree. It has no capacity of its own:
  the law holds for every bound.\<close>

interpretation client_tree: merkle_accumulator
  "H2 hs" "Z0 hs" depth capacity "ctree_rep hs depth" "client_insert_only hs" "\<lambda>t. Inr (getRoot t) :: int js"
  for hs :: poseidon_hasher and depth capacity :: nat
proof
  fix t xs x
  show "ctree_rep hs depth t xs \<Longrightarrow> Inr (getRoot t) = Inr (node (H2 hs) (Z0 hs) xs depth 0)"
    by (simp add: getRoot_rep)
  assume "ctree_rep hs depth t xs"
  from client_insert_rep [OF this, of x]
  show "\<exists>t'. client_insert_only hs x t = Inr t' \<and> ctree_rep hs depth t' (xs @ [x])"
    by (auto simp: client_insert_only_def)
qed

subsection \<open>Its proofs\<close>

lemma proof_entries_rep:
  assumes rep: "ctree_rep hs depth t xs" and "set levels \<subseteq> {..depth}" and "levels = [l..<m]"
    and "cur = int (i div 2 ^ l)"
  shows "\<exists>es ds. proof_entries t levels cur pe pi = (pe @ es, pi @ map int ds) \<and> length es = length levels \<and>
    length ds = length levels \<and>
    zip es ds = map (\<lambda>l. (node (H2 hs) (Z0 hs) xs l (sibling (i div 2 ^ l)), i div 2 ^ l mod 2)) levels"
  using assms(2-)
proof (induction levels arbitrary: l cur pe pi)
  case Nil
  show ?case by simp
next
  case (Cons level levels)
  from Cons.prems(2) have "[l..<m] = level # levels" by simp
  then have l: "level = l" "levels = [Suc l..<m]" by (auto simp: upt_eq_Cons_conv)
  let ?j = "i div 2 ^ l"
  have cur: "cur = int ?j" using Cons.prems(3) by simp
  have half: "cur div 2 = int (i div 2 ^ Suc l)" by (simp add: cur div_two_power_Suc zdiv_int)
  have rem: "js_rem cur 2 = int (?j mod 2)" by (simp add: js_rem_def cur zmod_int)
  have "(if js_rem cur 2 = 0 then cur + 1 else cur - 1) = int (sibling ?j)"
    unfolding rem by (cases "even ?j") (auto simp: cur sibling_def even_iff_mod_2_eq_zero of_nat_diff odd_pos)
  then have sib: "node_or_zero_value t level (if js_rem cur 2 = 0 then cur + 1 else cur - 1) =
      node (H2 hs) (Z0 hs) xs level (sibling ?j)"
    using node_or_zero_value_node [OF ctree_at [OF rep, of level]] Cons.prems(1) by simp
  let ?e = "node (H2 hs) (Z0 hs) xs level (sibling ?j)"
  have sub: "set levels \<subseteq> {..depth}" using Cons.prems(1) by simp
  obtain es ds where IH: "proof_entries t levels (cur div 2) (pe @ [?e]) (pi @ [int (?j mod 2)]) =
        ((pe @ [?e]) @ es, (pi @ [int (?j mod 2)]) @ map int ds)"
    and len: "length es = length levels" "length ds = length levels"
    and zip: "zip es ds = map (\<lambda>l. (node (H2 hs) (Z0 hs) xs l (sibling (i div 2 ^ l)), i div 2 ^ l mod 2)) levels"
    using Cons.IH [OF sub l(2) half] by blast
  have "proof_entries t (level # levels) cur pe pi = (pe @ ?e # es, pi @ map int ((?j mod 2) # ds))"
    unfolding proof_entries.simps Let_def sib unfolding rem using IH by simp
  then show ?case
    using len zip l(1) by (intro exI [of _ "?e # es"] exI [of _ "(?j mod 2) # ds"]) simp
qed

lemma getProof_rep:
  assumes rep: "ctree_rep hs depth t xs" and i: "i < length xs"
  shows "\<exists>es ds. getProof (int i) t = Inr \<lparr>cp_pathElements = es, cp_pathIndices = map int ds,
      cp_root = node (H2 hs) (Z0 hs) xs depth 0, cp_leafIndex = int i\<rparr> \<and>
    length es = depth \<and> length ds = depth \<and> zip es ds = auth_path (H2 hs) (Z0 hs) xs depth i"
proof -
  have t: "ct_depth t = depth" "ct_leaves t = xs" using rep by (simp_all add: ctree_rep_def)
  have sub: "set [0..<depth] \<subseteq> {..depth}" by auto
  obtain es ds where "proof_entries t [0..<depth] (int i) [] [] = ([] @ es, [] @ map int ds)"
    and "length es = depth" "length ds = depth"
    and "zip es ds = map (\<lambda>l. (node (H2 hs) (Z0 hs) xs l (sibling (i div 2 ^ l)), i div 2 ^ l mod 2)) [0..<depth]"
    using proof_entries_rep [OF rep sub refl, of "int i" i "[]" "[]"] by auto
  then show ?thesis
    using i by (intro exI [of _ es] exI [of _ ds]) (simp add: getProof_def t getRoot_rep [OF rep] auth_path_def)
qed

end
