(* ===== verification/ClientProver.thy ===== *)
theory ClientProver
  imports ClientMerkle Verifier Circuit
begin

text \<open>
  \<open>client/src/proof/prover.ts\<close>: the input of the circuit as text, the call of snarkjs, and the
  encoding of its proof into the 256 bytes the contract decodes; \<open>buildCircuitInput\<close> of
  \<open>worker-prover.ts\<close>; and how the text of an input stands for the signals of the circuit.
\<close>

subsection \<open>Inputs\<close>

record Groth16Proof =
  pi_a :: "string list"
  pi_b :: "string list list"
  pi_c :: "string list"

record ProofResult =
  pr_proof :: Groth16Proof
  pr_publicSignals :: "string list"

record WithdrawalProofInput =
  wi_note :: DepositNote
  wi_merkleProof :: ClientProof
  wi_recipient :: string
  wi_relayer :: string
  wi_fee :: int

record CircuitInput =
  ci_root :: string
  ci_nullifierHash :: string
  ci_recipient :: string
  ci_relayer :: string
  ci_fee :: string
  ci_secret :: string
  ci_nullifier :: string
  ci_pathElements :: "string list"
  ci_pathIndices :: "string list"

text \<open>The object built in \<open>generateWithdrawalProof\<close>.\<close>

definition circuit_input :: "node_require \<Rightarrow> WithdrawalProofInput \<Rightarrow> CircuitInput js" where
  "circuit_input require inp =
     and_then (addressToField require (wi_recipient inp)) (\<lambda>recipientField.
     and_then (addressToField require (wi_relayer inp)) (\<lambda>relayerField.
     Inr \<lparr>ci_root = js_to_string 10 (cp_root (wi_merkleProof inp)),
          ci_nullifierHash = js_to_string 10 (dn_nullifierHash (wi_note inp)),
          ci_recipient = js_to_string 10 recipientField,
          ci_relayer = js_to_string 10 relayerField,
          ci_fee = js_to_string 10 (wi_fee inp),
          ci_secret = js_to_string 10 (dn_secret (wi_note inp)),
          ci_nullifier = js_to_string 10 (dn_nullifier (wi_note inp)),
          ci_pathElements = map (js_to_string 10) (cp_pathElements (wi_merkleProof inp)),
          ci_pathIndices = map (js_to_string 10) (cp_pathIndices (wi_merkleProof inp))\<rparr>))"

text \<open>\<open>snarkjs.groth16.fullProve(input, wasm, zkey)\<close>, which may throw.\<close>

type_synonym snarkjs = "CircuitInput \<Rightarrow> string \<Rightarrow> string \<Rightarrow> ProofResult js"

definition generateWithdrawalProof :: "node_require \<Rightarrow> snarkjs \<Rightarrow> WithdrawalProofInput \<Rightarrow> string \<Rightarrow> string \<Rightarrow>
    ProofResult js" where
  "generateWithdrawalProof require fullProve inp wasmPath zkeyPath =
     and_then (circuit_input require inp) (\<lambda>circuitInput.
     and_then (fullProve circuitInput wasmPath zkeyPath) (\<lambda>res.
     Inr \<lparr>pr_proof = pr_proof res, pr_publicSignals = pr_publicSignals res\<rparr>))"

text \<open>The copy in \<open>worker-prover.ts\<close>.\<close>

definition buildCircuitInput :: "node_require \<Rightarrow> WithdrawalProofInput \<Rightarrow> CircuitInput js" where
  "buildCircuitInput require inp =
     and_then (addressToField require (wi_recipient inp)) (\<lambda>recipientField.
     and_then (addressToField require (wi_relayer inp)) (\<lambda>relayerField.
     let m = wi_merkleProof inp; note = wi_note inp
     in Inr \<lparr>ci_root = js_to_string 10 (cp_root m), ci_nullifierHash = js_to_string 10 (dn_nullifierHash note),
          ci_recipient = js_to_string 10 recipientField, ci_relayer = js_to_string 10 relayerField,
          ci_fee = js_to_string 10 (wi_fee inp), ci_secret = js_to_string 10 (dn_secret note),
          ci_nullifier = js_to_string 10 (dn_nullifier note),
          ci_pathElements = map (js_to_string 10) (cp_pathElements m),
          ci_pathIndices = map (js_to_string 10) (cp_pathIndices m)\<rparr>))"

lemma buildCircuitInput_eq: "buildCircuitInput = circuit_input"
  by (simp add: fun_eq_iff buildCircuitInput_def circuit_input_def Let_def)

subsection \<open>The encoding of a proof\<close>

definition writeFieldElement :: "u8 list \<Rightarrow> nat \<Rightarrow> int \<Rightarrow> u8 list" where
  "writeFieldElement buf offset v = write_bytes (map ((+) offset) (rev [0..<32])) buf v"

text \<open>\<open>BigInt(xs[i])\<close> and \<open>BigInt(xss[i][j])\<close>; an index outside of the array gives \<open>undefined\<close>.\<close>

definition coordinate :: "string list \<Rightarrow> nat \<Rightarrow> int js" where
  "coordinate xs i = and_then (ok_or TypeError (vec_get xs i)) js_BigInt"

definition coordinate2 :: "string list list \<Rightarrow> nat \<Rightarrow> nat \<Rightarrow> int js" where
  "coordinate2 xss i j = and_then (ok_or TypeError (vec_get xss i)) (\<lambda>xs. coordinate xs j)"

definition encodeProofForContract :: "Groth16Proof \<Rightarrow> u8 list js" where
  "encodeProofForContract pf =
     (let result = replicate 256 0 in
      and_then (coordinate (pi_a pf) 0) (\<lambda>v. let result = writeFieldElement result 0 v in
      and_then (coordinate (pi_a pf) 1) (\<lambda>v. let result = writeFieldElement result 32 v in
      and_then (coordinate2 (pi_b pf) 0 1) (\<lambda>v. let result = writeFieldElement result 64 v in
      and_then (coordinate2 (pi_b pf) 0 0) (\<lambda>v. let result = writeFieldElement result 96 v in
      and_then (coordinate2 (pi_b pf) 1 1) (\<lambda>v. let result = writeFieldElement result 128 v in
      and_then (coordinate2 (pi_b pf) 1 0) (\<lambda>v. let result = writeFieldElement result 160 v in
      and_then (coordinate (pi_c pf) 0) (\<lambda>v. let result = writeFieldElement result 192 v in
      and_then (coordinate (pi_c pf) 1) (\<lambda>v. let result = writeFieldElement result 224 v in
      Inr result)))))))))"

subsection \<open>Points as snarkjs prints them\<close>

definition dec32 :: "bytes32 \<Rightarrow> string" where
  "dec32 b = js_to_string 10 (int (array_val b))"

definition g1_text :: "G1Point \<Rightarrow> string list" where
  "g1_text p = [dec32 (g1x p), dec32 (g1y p), ''1'']"

text \<open>The order the comments of \<open>prover.ts\<close> and \<open>export_vk_rust.js\<close> state, \<open>c1\<close> before \<open>c0\<close>.\<close>

definition g2_text :: "G2Point \<Rightarrow> string list list" where
  "g2_text q = [[dec32 (x_c1 q), dec32 (x_c0 q)], [dec32 (y_c1 q), dec32 (y_c0 q)], [''1'', ''0'']]"

definition proof_text :: "G1Point \<Rightarrow> G2Point \<Rightarrow> G1Point \<Rightarrow> Groth16Proof" where
  "proof_text a b c = \<lparr>pi_a = g1_text a, pi_b = g2_text b, pi_c = g1_text c\<rparr>"

lemma dec32_value [simp]: "js_BigInt (dec32 b) = Inr (int (array_val b))"
  by (simp add: dec32_def BigInt_decimal)

lemma coordinate_texts [simp]:
  "coordinate (g1_text p) 0 = Inr (int (array_val (g1x p)))"
  "coordinate (g1_text p) (Suc 0) = Inr (int (array_val (g1y p)))"
  "coordinate2 (g2_text q) 0 0 = Inr (int (array_val (x_c1 q)))"
  "coordinate2 (g2_text q) 0 (Suc 0) = Inr (int (array_val (x_c0 q)))"
  "coordinate2 (g2_text q) (Suc 0) 0 = Inr (int (array_val (y_c1 q)))"
  "coordinate2 (g2_text q) (Suc 0) (Suc 0) = Inr (int (array_val (y_c0 q)))"
  by (simp_all add: coordinate_def coordinate2_def g1_text_def g2_text_def vec_get_def)

lemma writeFieldElement_at:
  assumes "length pre = offset" and "32 \<le> length rest"
  shows "writeFieldElement (pre @ rest) offset (int (array_val (b :: bytes32))) = (pre @ array_list b) @ drop 32 rest"
proof -
  have "to_be_bytes 32 (nat (int (array_val b) mod 256 ^ 32)) = array_list b"
    using bigIntToBytes_array [of b] by (simp add: bigIntToBytes_eq)
  then show ?thesis
    unfolding writeFieldElement_def using assms by (subst write_bytes_eq) (simp_all add: drop_append)
qed

text \<open>The writes fill the buffer from left to right.\<close>

fun write_all :: "nat \<Rightarrow> bytes32 list \<Rightarrow> u8 list \<Rightarrow> u8 list" where
  "write_all offset [] buf = buf"
| "write_all offset (b # bs) buf = write_all (offset + 32) bs (writeFieldElement buf offset (int (array_val b)))"

lemma write_all_eq:
  "length pre = offset \<Longrightarrow> 32 * length bs \<le> length rest \<Longrightarrow>
   write_all offset bs (pre @ rest) = pre @ concat (map array_list bs) @ drop (32 * length bs) rest"
proof (induction bs arbitrary: offset pre rest)
  case Nil
  then show ?case by simp
next
  case (Cons b bs)
  have "write_all offset (b # bs) (pre @ rest) = write_all (offset + 32) bs ((pre @ array_list b) @ drop 32 rest)"
    using writeFieldElement_at [of pre offset rest b] Cons.prems by simp
  also have "\<dots> = (pre @ array_list b) @ concat (map array_list bs) @ drop (32 * length bs) (drop 32 rest)"
    using Cons.prems by (intro Cons.IH) simp_all
  finally show ?case by (simp add: add.commute)
qed

lemma encode_proof_text: "encodeProofForContract (proof_text a b c) = Inr (array_list (encode_proof a b c))"
proof -
  let ?bs = "[g1x a, g1y a, x_c0 b, x_c1 b, y_c0 b, y_c1 b, g1x c, g1y c]"
  have len: "length (concat (map array_list ?bs)) = 256" by simp
  have "encodeProofForContract (proof_text a b c) = Inr (write_all 0 ?bs (replicate 256 0))"
    by (simp add: encodeProofForContract_def proof_text_def Let_def)
  also have "write_all 0 ?bs (replicate 256 0) = concat (map array_list ?bs)"
    using write_all_eq [of "[]" 0 ?bs "replicate 256 0"] by simp
  also have "\<dots> = array_list (encode_proof a b c)"
    unfolding encode_proof_def using len by (subst array_list_array_of) simp_all
  finally show ?thesis .
qed

subsection \<open>Text as field elements\<close>

text \<open>A decimal text stands for a field element; the witness calculator of snarkjs reads the
  texts of an input and computes the squares itself.\<close>

definition text_denotes :: "('fr, 'c) field_crypto_scheme \<Rightarrow> string \<Rightarrow> 'fr \<Rightarrow> bool" where
  "text_denotes c t x \<longleftrightarrow> (\<exists>v. js_BigInt t = Inr v \<and> 0 \<le> v \<and> v < 256 ^ 32 \<and> x = fr_of_int c v)"

definition input_denotes :: "('fr, 'c) field_crypto_scheme \<Rightarrow> CircuitInput \<Rightarrow> 'fr signals \<Rightarrow> bool" where
  "input_denotes c ci s \<longleftrightarrow>
     text_denotes c (ci_root ci) (sg_root s) \<and> text_denotes c (ci_nullifierHash ci) (sg_nullifier_hash s) \<and>
     text_denotes c (ci_recipient ci) (sg_recipient s) \<and> text_denotes c (ci_relayer ci) (sg_relayer s) \<and>
     text_denotes c (ci_fee ci) (sg_fee s) \<and> text_denotes c (ci_secret ci) (sg_secret s) \<and>
     text_denotes c (ci_nullifier ci) (sg_nullifier s) \<and>
     list_all2 (text_denotes c) (ci_pathElements ci) (sg_path_elements s) \<and>
     list_all2 (text_denotes c) (ci_pathIndices ci) (sg_path_indices s)"

lemma text_denotes_decimal: "0 \<le> v \<Longrightarrow> v < 256 ^ 32 \<Longrightarrow> text_denotes c (js_to_string 10 v) (fr_of_int c v)"
  by (auto simp: text_denotes_def BigInt_decimal)

end
