(* ===== verification/ClientSdk.thy ===== *)
theory ClientSdk
  imports ClientWallet ClientProver IndexerApi
begin

text \<open>
  \<open>client/src/sdk/mixer.ts\<close>: the calls of a wallet, from a fresh note to the arguments of
  \<open>withdraw\<close>, and the conversion of the indexer's answer. The submission of the transactions is left to the
  caller by the source. The module imports \<open>bigIntToBytes\<close> from \<open>secrets.ts\<close>, which does not export it:
  a linker of ES modules refuses it as a whole, and where the import is looked up when it is used, as
  in a CommonJS build, it is \<open>undefined\<close>. The definitions are the functions in the second case.
\<close>

text \<open>\<open>verifyProof\<close> of \<open>proof/prover.ts\<close>: the key is read from a file and parsed, \<open>verify\<close> is snarkjs.\<close>

definition verifyProof :: "(string \<Rightarrow> string js) \<Rightarrow> (json \<Rightarrow> string list \<Rightarrow> Groth16Proof \<Rightarrow> bool js) \<Rightarrow> Groth16Proof \<Rightarrow>
    string list \<Rightarrow> string \<Rightarrow> bool js" where
  "verifyProof readFile verify pf publicSignals vkPath =
     and_then (readFile vkPath) (\<lambda>text.
     and_then (json_parse text) (\<lambda>vk.
     verify vk publicSignals pf))"

record MixerConfig =
  mc_contractId :: string
  mc_denomination :: int
  mc_wasmPath :: string
  mc_zkeyPath :: string
  mc_networkPassphrase :: string
  mc_rpcUrl :: string

record DepositResult =
  dr_note :: DepositNote
  dr_commitmentHex :: string
  dr_leafIndex :: "int option"

record WithdrawResult =
  wr_proof :: ProofResult
  wr_proofBytes :: "u8 list"
  wr_nullifierHashHex :: string
  wr_publicInputs :: "u8 list list"

record MixerSDK =
  sdk_config :: MixerConfig
  sdk_noteStore :: NoteStore

definition sdk_new :: "MixerConfig \<Rightarrow> MixerSDK" where
  "sdk_new config = \<lparr>sdk_config = config, sdk_noteStore = []\<rparr>"

definition prepareDeposit :: "poseidon_hasher option \<Rightarrow> u8 list \<Rightarrow> u8 list \<Rightarrow> int \<Rightarrow> MixerSDK \<Rightarrow>
    (DepositResult \<times> MixerSDK) js" where
  "prepareDeposit ph random1 random2 now sdk =
     and_then (generateDepositNote ph random1 random2) (\<lambda>note.
       let commitmentHex = hex64 (dn_commitment note);
           store = store_add now note (mc_contractId (sdk_config sdk)) None (sdk_noteStore sdk)
       in Inr (\<lparr>dr_note = note, dr_commitmentHex = commitmentHex, dr_leafIndex = None\<rparr>, sdk\<lparr>sdk_noteStore := store\<rparr>))"

text \<open>A call of the \<open>bigIntToBytes\<close> of this module: \<open>undefined\<close> is not a function.\<close>

definition missing_bigIntToBytes :: "int \<Rightarrow> u8 list js" where
  "missing_bigIntToBytes n = Inl (Err TypeError)"

definition getCommitmentBytes :: "DepositNote \<Rightarrow> u8 list js" where
  "getCommitmentBytes note = missing_bigIntToBytes (dn_commitment note)"

definition finalizeDeposit :: "string \<Rightarrow> int \<Rightarrow> MixerSDK \<Rightarrow> MixerSDK" where
  "finalizeDeposit commitmentHex leafIndex sdk =
     (case store_get commitmentHex (sdk_noteStore sdk) of
        Some stored \<Rightarrow>
          sdk\<lparr>sdk_noteStore := AList.update commitmentHex (stored\<lparr>sn_leafIndex := Some leafIndex\<rparr>) (sdk_noteStore sdk)\<rparr>
      | None \<Rightarrow> sdk)"

definition prepareWithdrawal :: "node_require \<Rightarrow> snarkjs \<Rightarrow> DepositNote \<Rightarrow> ClientProof \<Rightarrow> string \<Rightarrow> string \<Rightarrow> int \<Rightarrow>
    MixerSDK \<Rightarrow> WithdrawResult js" where
  "prepareWithdrawal require fullProve note merkleProof recipient relayer fee sdk =
     and_then (generateWithdrawalProof require fullProve
         \<lparr>wi_note = note, wi_merkleProof = merkleProof, wi_recipient = recipient, wi_relayer = relayer, wi_fee = fee\<rparr>
         (mc_wasmPath (sdk_config sdk)) (mc_zkeyPath (sdk_config sdk))) (\<lambda>proofResult.
     and_then (encodeProofForContract (pr_proof proofResult)) (\<lambda>proofBytes.
     let nullifierHashHex = hex64 (dn_nullifierHash note) in
     and_then (missing_bigIntToBytes (cp_root merkleProof)) (\<lambda>root.
     and_then (missing_bigIntToBytes (dn_nullifierHash note)) (\<lambda>nullifierHash.
     and_then (addressToField require recipient) (\<lambda>recipientField.
     and_then (missing_bigIntToBytes recipientField) (\<lambda>recipientBytes.
     and_then (addressToField require relayer) (\<lambda>relayerField.
     and_then (missing_bigIntToBytes relayerField) (\<lambda>relayerBytes.
     and_then (missing_bigIntToBytes fee) (\<lambda>feeBytes.
     Inr \<lparr>wr_proof = proofResult, wr_proofBytes = proofBytes, wr_nullifierHashHex = nullifierHashHex,
          wr_publicInputs = [root, nullifierHash, recipientBytes, relayerBytes, feeBytes]\<rparr>)))))))))"

definition finalizeWithdrawal :: "string \<Rightarrow> MixerSDK \<Rightarrow> MixerSDK" where
  "finalizeWithdrawal commitmentHex sdk = sdk\<lparr>sdk_noteStore := markSpent commitmentHex (sdk_noteStore sdk)\<rparr>"

text \<open>The result of \<open>parseMerklePathResponse\<close>: the two properties it copies are whatever the answer has.\<close>

record ParsedPath =
  pp_root :: int
  pp_pathElements :: "int list"
  pp_pathIndices :: "json option"
  pp_leafIndex :: "json option"

text \<open>\<open>response.pathElements.map(..)\<close>: only an array has a \<open>map\<close>.\<close>

definition parseMerklePathResponse :: "json \<Rightarrow> ParsedPath js" where
  "parseMerklePathResponse response =
     and_then (BigInt_of (json_get ''root'' response)) (\<lambda>root.
     and_then (case json_get ''pathElements'' response of
                 Some (JArray es) \<Rightarrow> js_map (\<lambda>e. BigInt_of (Some e)) es
               | _ \<Rightarrow> Inl (Err TypeError)) (\<lambda>pathElements.
     Inr \<lparr>pp_root = root, pp_pathElements = pathElements, pp_pathIndices = json_get ''pathIndices'' response,
          pp_leafIndex = json_get ''leafIndex'' response\<rparr>))"

subsection \<open>What a withdrawal of the SDK comes to\<close>

text \<open>It ends in an error, at the latest when the public inputs are encoded.\<close>

lemma prepareWithdrawal_fails: "prepareWithdrawal require fullProve note pf recipient relayer fee sdk \<noteq> Inr res"
  by (simp add: prepareWithdrawal_def missing_bigIntToBytes_def and_then_eq_Inr)

subsection \<open>The wallet of the SDK\<close>

lemma finalizeDeposit_ok:
  assumes "store_ok (sdk_noteStore sdk)"
  shows "store_ok (sdk_noteStore (finalizeDeposit key i sdk))"
  using store_get_key [OF assms] assms
  by (auto simp: finalizeDeposit_def split: option.split intro!: store_update_ok)

lemma BigInt_of_failure: "BigInt_of v = Inl e \<Longrightarrow> e = Err SyntaxError \<or> e = Err TypeError"
proof -
  have num: "parse_number b s = Inl e \<Longrightarrow> e = Err SyntaxError" for b s e
    by (cases "parse_radix b 0 s") (auto simp: parse_number_def split: if_splits)
  have "js_BigInt t = Inl e \<Longrightarrow> e = Err SyntaxError" for t e
    using num by (fastforce simp: js_BigInt_def and_then_eq_Inl split: list.splits if_splits)
  then show "BigInt_of v = Inl e \<Longrightarrow> e = Err SyntaxError \<or> e = Err TypeError"
    by (auto simp: BigInt_of_def split: option.splits json.splits)
qed

lemma parse_without_elements:
  assumes "json_get ''pathElements'' response = None"
  shows "parseMerklePathResponse response \<in> {Inl (Err SyntaxError), Inl (Err TypeError)}"
  using BigInt_of_failure [of "json_get ''root'' response"] assms
  by (cases "BigInt_of (json_get ''root'' response)") (auto simp: parseMerklePathResponse_def)

lemma merkle_path_keys:
  assumes "merkle_path k q s = Inr r"
  shows "json_get ''pathElements'' (http_body r) = None"
  using assms
  by (auto simp: merkle_path_def Let_def and_then_eq_Inr json_get_def json_error_def split: option.splits)

text \<open>The entry of a note from its deposit to its withdrawal.\<close>

lemma deposit_to_withdrawal:
  assumes dep: "prepareDeposit ph random1 random2 now sdk = Inr (res, sdk1)"
  shows "generateDepositNote ph random1 random2 = Inr (dr_note res) \<and> dr_commitmentHex res = note_key (dr_note res) \<and>
    store_get (dr_commitmentHex res) (sdk_noteStore (finalizeWithdrawal (dr_commitmentHex res)
        (finalizeDeposit (dr_commitmentHex res) i sdk1))) =
      Some \<lparr>sn_note = dr_note res, sn_poolId = mc_contractId (sdk_config sdk), sn_depositTimestamp = now, sn_leafIndex = Some i,
            sn_spent = True\<rparr>"
  using dep
  by (auto simp: prepareDeposit_def and_then_eq_Inr Let_def note_key_def store_add_def finalizeDeposit_def finalizeWithdrawal_def
      markSpent_def store_get_def update_conv')

subsection \<open>The life of a wallet\<close>

text \<open>What a user of the SDK can do with its notes: prepare and confirm deposits, mark withdrawals, add
  notes by hand, and import backups, whoever wrote them.\<close>

inductive sdk_step :: "node_crypto \<Rightarrow> poseidon_hasher option \<Rightarrow> MixerSDK \<Rightarrow> MixerSDK \<Rightarrow> bool" for k ph where
  deposit: "prepareDeposit ph random1 random2 now sdk = Inr (res, sdk') \<Longrightarrow> sdk_step k ph sdk sdk'"
| confirm: "sdk_step k ph sdk (finalizeDeposit key i sdk)"
| withdrawn: "sdk_step k ph sdk (finalizeWithdrawal key sdk)"
| add: "sdk_step k ph sdk (sdk\<lparr>sdk_noteStore := store_add now nt poolId i (sdk_noteStore sdk)\<rparr>)"
| restore: "importNote k ph backup password (sdk_noteStore sdk) = Inr (nt, store) \<Longrightarrow>
    sdk_step k ph sdk (sdk\<lparr>sdk_noteStore := store\<rparr>)"

inductive sdk_reach :: "node_crypto \<Rightarrow> poseidon_hasher option \<Rightarrow> MixerConfig \<Rightarrow> MixerSDK \<Rightarrow> bool" for k ph cfg where
  start: "sdk_reach k ph cfg (sdk_new cfg)"
| step: "sdk_reach k ph cfg sdk \<Longrightarrow> sdk_step k ph sdk sdk' \<Longrightarrow> sdk_reach k ph cfg sdk'"

lemma AList_update_keys: "set (map fst store) \<subseteq> set (map fst (AList.update key x store))"
  by (induction store) auto

lemma sdk_step_ok:
  assumes "sdk_step k ph sdk sdk'" and "store_ok (sdk_noteStore sdk)"
  shows "store_ok (sdk_noteStore sdk')" "set (map fst (sdk_noteStore sdk)) \<subseteq> set (map fst (sdk_noteStore sdk'))"
proof -
  note keys = AList_update_keys [of "sdk_noteStore sdk"]
  have "store_ok (sdk_noteStore sdk') \<and> set (map fst (sdk_noteStore sdk)) \<subseteq> set (map fst (sdk_noteStore sdk'))"
    using assms(1)
  proof cases
    case (deposit random1 random2 now res)
    then obtain nt where "sdk_noteStore sdk' = store_add now nt (mc_contractId (sdk_config sdk)) None (sdk_noteStore sdk)"
      by (auto simp: prepareDeposit_def and_then_eq_Inr)
    then show ?thesis using store_ops_ok(1) [OF assms(2)] keys by (simp add: store_add_def)
  next
    case (confirm key i)
    then show ?thesis
      using finalizeDeposit_ok [OF assms(2)] keys by (simp add: finalizeDeposit_def split: option.split)
  next
    case (withdrawn key)
    then show ?thesis
      using store_ops_ok(2) [OF assms(2)] keys by (simp add: finalizeWithdrawal_def markSpent_def split: option.split)
  next
    case (add now nt poolId i)
    then show ?thesis using store_ops_ok(1) [OF assms(2)] keys by (simp add: store_add_def)
  next
    case (restore backup password nt store)
    from restore(2) obtain key stored where "store = AList.update key stored (sdk_noteStore sdk)"
      by (auto simp: importNote_def and_then_eq_Inr split: if_splits)
    then have "set (map fst (sdk_noteStore sdk)) \<subseteq> set (map fst store)" by (simp only: keys)
    with restore store_ops_ok(3) [OF assms(2) restore(2)] show ?thesis by simp
  qed
  then show "store_ok (sdk_noteStore sdk')" "set (map fst (sdk_noteStore sdk)) \<subseteq> set (map fst (sdk_noteStore sdk'))"
    by simp_all
qed

lemma sdk_reach_ok: "sdk_reach k ph cfg sdk \<Longrightarrow> store_ok (sdk_noteStore sdk)"
  by (induction rule: sdk_reach.induct) (auto simp: sdk_new_def store_ok_def dest: sdk_step_ok(1) [unfolded store_ok_def])

text \<open>With a password that is long enough every note is exported, in order.\<close>

lemma export_keys_total:
  assumes "8 \<le> length password" and "set keys \<subseteq> set (map fst store)"
  shows "\<exists>more. export_keys k random password store keys backups = Inr (backups @ more) \<and> length more = length keys"
  using assms(2)
proof (induction keys arbitrary: backups)
  case Nil
  then show ?case by simp
next
  case (Cons key keys)
  obtain salt iv where r: "random (length backups) = (salt, iv)" by (cases "random (length backups)")
  have "key \<in> dom (map_of store)" using Cons.prems by (simp add: dom_map_of_conv_image_fst)
  then obtain stored where stored: "map_of store key = Some stored" by auto
  obtain payload where "encrypt k salt iv (json_stringify (serializeNote (sn_note stored))) password = Inr payload"
    using encrypt_total [OF assms(1)] by blast
  with stored have "\<exists>b. exportNote k salt iv key password store = Inr b" by (simp add: exportNote_def store_get_def Let_def)
  then obtain b where b: "exportNote k salt iv key password store = Inr b" by blast
  obtain more where "export_keys k random password store keys (backups @ [b]) = Inr ((backups @ [b]) @ more)" "length more = length keys"
    using Cons.IH [of "backups @ [b]"] Cons.prems by auto
  with b r show ?case by (intro exI [of _ "b # more"]) simp
qed

lemma exportAll_total:
  "8 \<le> length password \<Longrightarrow> \<exists>backups. exportAll k random password store = Inr backups \<and> length backups = length store"
  using export_keys_total [of password "map fst store" store k random "[]"] by (auto simp: exportAll_def)

lemma short_password_exports_nothing:
  assumes "length password < 8" and "store \<noteq> []"
  shows "exportAll k random password store = Inl (Err PasswordTooShort)"
proof -
  obtain key stored rest where store: "store = (key, stored) # rest" using assms(2) by (cases store) auto
  obtain salt iv where r: "random 0 = (salt, iv)" by (cases "random 0")
  show ?thesis using assms(1) by (simp add: exportAll_def store r exportNote_def store_get_def encrypt_def)
qed

end
