(* ===== verification/ClientBridge.thy ===== *)
theory ClientBridge
  imports ClientSdk CircuitProperties
begin

text \<open>
  The client against the contract: its numbers as the byte strings of the chain, its tree as the
  tree of the contract, its public inputs as those the contract builds, and the text it gives to
  snarkjs as a satisfying assignment of the circuit.
\<close>

subsection \<open>The two trees\<close>

definition leaf_int :: "bytes32 \<Rightarrow> int" where
  "leaf_int b = bytesToBigInt (array_list b)"

lemma leaf_int_eq: "leaf_int b = int (array_val b)"
  by (simp add: leaf_int_def bytesToBigInt_array)

lemma leaf_int_range: "0 \<le> leaf_int b" "leaf_int b < 256 ^ 32"
proof -
  have "array_val b < 256 ^ 32" using array_val_less [of b] by simp
  then have "int (array_val b) < int (256 ^ 32)" by (rule of_nat_less_iff [THEN iffD2])
  then show "leaf_int b < 256 ^ 32" by (simp add: leaf_int_eq)
qed (simp add: leaf_int_eq)

lemma leaf_int_bytes [simp]: "bigIntToBytes (leaf_int b) = array_list b"
  by (simp add: leaf_int_eq bigIntToBytes_array)

lemma fr_of_leaf_int [simp]: "fr_of_int c (leaf_int b) = bytes_to_fr c b"
  by (simp add: leaf_int_eq fr_of_int_array)

lemma fr_int_leaf_int: "fr_int c x = leaf_int (fr_to_bytes c x)"
  by (simp add: fr_int_def leaf_int_eq)

lemma H2_leaf_int:
  assumes "hasher_laws c hs"
  shows "H2 hs (leaf_int a) (leaf_int b) = leaf_int (hash_pair_bytes c a b)"
  using assms leaf_int_range [of a] leaf_int_range [of b]
  by (simp add: hasher_laws_def H2_def fr_int_leaf_int hash_pair_bytes_def hash_pair_def Let_def)

lemma Z0_leaf_int:
  assumes "hasher_laws c hs"
  shows "Z0 hs = leaf_int (zero_leaf c)"
proof -
  have "to_be_bytes 32 0 = replicate 32 0"
    by (intro nth_equalityI) (simp_all add: nth_to_be_bytes)
  then have "fr_of_int c 0 = bytes_to_fr c (array_of (replicate 32 0))"
    by (simp add: fr_of_int_def be_array_def)
  with assms show ?thesis
    by (simp add: hasher_laws_def Z0_def fr_int_leaf_int zero_leaf_def hash_single_bytes_def hash_single_def)
qed

text \<open>The nodes of the client are those of the contract, read as numbers.\<close>

lemma client_node:
  assumes "hasher_laws c hs"
  shows "node (H2 hs) (Z0 hs) (map leaf_int xs) l i = leaf_int (tree_node c xs l i)"
proof (induction l arbitrary: i)
  case 0
  show ?case by (simp add: Z0_leaf_int [OF assms])
next
  case (Suc l)
  then show ?case by (simp add: H2_leaf_int [OF assms])
qed

lemma client_path:
  assumes "hasher_laws c hs"
  shows "auth_path (H2 hs) (Z0 hs) (map leaf_int xs) depth i =
    map (\<lambda>(e, b). (leaf_int e, b)) (auth_path (hash_pair_bytes c) (zero_leaf c) xs depth i)"
  by (simp add: auth_path_def client_node [OF assms])

text \<open>A client that inserts the commitments of the chain has the root of the chain, and the proof of a
  leaf is the path of the contract's tree.\<close>

lemma client_tree_of_leaves:
  assumes "hasher_laws c hs"
  shows "\<exists>t0 t. client_tree_new (Some hs) depth = Inr t0 \<and> insert_all (client_insert_only hs) (map leaf_int xs) t0 = Inr t \<and>
    ctree_rep hs depth t (map leaf_int xs) \<and> getRoot t = leaf_int (tree_root c depth xs)"
proof -
  obtain t0 where t0: "client_tree_new (Some hs) depth = Inr t0" "ctree_rep hs depth t0 []"
    using client_tree_new_rep by blast
  obtain t where t: "insert_all (client_insert_only hs) (map leaf_int xs) t0 = Inr t" "ctree_rep hs depth t (map leaf_int xs)"
    using client_tree.insert_all_rep [OF t0(2), of "map leaf_int xs" "length xs"] by auto
  then have "getRoot t = leaf_int (tree_root c depth xs)"
    by (simp add: getRoot_rep client_node [OF assms])
  with t0 t show ?thesis by blast
qed

lemma client_proof:
  assumes law: "hasher_laws c hs" and rep: "ctree_rep hs depth t (map leaf_int xs)" and i: "i < length xs" "i < 2 ^ depth"
  shows "\<exists>es (ds :: u32 list). getProof (int i) t = Inr \<lparr>cp_pathElements = map leaf_int es, cp_pathIndices = map uint ds,
      cp_root = leaf_int (tree_root c depth xs), cp_leafIndex = int i\<rparr> \<and>
    length es = depth \<and> length ds = depth \<and> (\<forall>d\<in>set ds. unat d = 0 \<or> unat d = 1) \<and>
    climb (hash_pair_bytes c) (xs ! i) (zip es (map unat ds)) = tree_root c depth xs"
proof -
  let ?path = "auth_path (hash_pair_bytes c) (zero_leaf c) xs depth i"
  obtain fs ns where served: "getProof (int i) t = Inr \<lparr>cp_pathElements = fs, cp_pathIndices = map int ns,
      cp_root = node (H2 hs) (Z0 hs) (map leaf_int xs) depth 0, cp_leafIndex = int i\<rparr>"
    and len: "length fs = depth" "length ns = depth"
    and path: "zip fs ns = map (\<lambda>(e, b). (leaf_int e, b)) ?path"
    using getProof_rep [OF rep, of i] i client_path [OF law, of xs depth i] by auto
  have fs: "fs = map leaf_int (map fst ?path)" and ns: "ns = map snd ?path"
    using arg_cong [OF path, of "map fst"] arg_cong [OF path, of "map snd"] len
    by (simp_all add: comp_def case_prod_unfold)
  define ds :: "u32 list" where "ds = map word_of_nat ns"
  have bit: "b = 0 \<or> b = 1" if "b \<in> set ns" for b
    using auth_path_bits [of b "hash_pair_bytes c" "zero_leaf c" xs depth i] that unfolding ns by force
  then have unat_ds: "map unat ds = ns" and uint_ds: "map uint ds = map int ns"
    by (force simp: ds_def intro!: map_idI)+
  have "zip (map fst ?path) (map unat ds) = ?path" unfolding unat_ds ns by (rule zip_map_fst_snd)
  then have "climb (hash_pair_bytes c) (xs ! i) (zip (map fst ?path) (map unat ds)) = tree_root c depth xs"
    using auth_path_root [OF i] by simp
  moreover have "\<forall>d\<in>set ds. unat d = 0 \<or> unat d = 1" using bit unat_ds by (metis image_eqI set_map)
  moreover have "length ds = depth" by (simp add: ds_def len)
  ultimately show ?thesis
    using served unfolding fs client_node [OF law] uint_ds [symmetric]
    by (intro exI [of _ "map fst ?path"] exI [of _ ds]) simp
qed

subsection \<open>The two lists of public inputs\<close>

text \<open>A strkey is ASCII text of at most 56 characters.\<close>

definition strkey_ok :: "string \<Rightarrow> bool" where
  "strkey_ok s \<longleftrightarrow> length s \<le> 56 \<and> (\<forall>ch\<in>set s. of_char ch < (128 :: nat))"

lemma client_address:
  assumes "strkey_ok s"
  shows "address_to_field_bytes h (Address s) = Inr (host_sha256 h (utf8_encode s))"
    "addressToField (Some (host_sha256 h)) s = Inr (leaf_int (host_sha256 h (utf8_encode s)) mod int bn254_r)"
  using assms utf8_ascii [of s]
  by (simp_all add: strkey_ok_def address_to_field_bytes_def Let_def addressToField_def addressToFieldBytes_def leaf_int_def)

lemma fee_to_bytes_leaf_int:
  assumes "0 \<le> sint fee"
  shows "leaf_int (fee_to_bytes fee) = sint fee"
proof -
  have "unat fee < 256 ^ 16" using unsigned_less [of fee, where ?'a = nat] by simp
  then have "be_val (to_be_bytes 16 (unat fee)) = unat fee" by (simp add: be_val_to_be_bytes)
  then have "be_val (replicate 16 0 @ to_be_bytes 16 (unat fee)) = unat fee"
    by (simp add: be_val_def le_val_append del: replicate.simps)
  then have "array_val (fee_to_bytes fee) = unat fee"
    unfolding fee_to_bytes_def array_val_def by (subst array_list_array_of) simp_all
  moreover have "int (unat fee) = sint fee"
  proof -
    have "sint fee < 2 ^ 127" using sint_lt [of fee] by simp
    then have "uint fee = sint fee" unfolding uint_sint using assms by (intro take_bit_int_eq_self) simp_all
    then show ?thesis by simp
  qed
  ultimately show ?thesis by (simp add: leaf_int_eq)
qed

definition contract_inputs :: "('fr, 'fq, 'g1, 'g1p, 'g2, 'gt, 'l) pool_host \<Rightarrow> bytes32 \<Rightarrow> bytes32 \<Rightarrow> string \<Rightarrow> string \<Rightarrow> i128 \<Rightarrow> bytes32 list" where
  "contract_inputs h root n recipient relayer fee =
     [root, n, host_sha256 h (utf8_encode recipient), host_sha256 h (utf8_encode relayer), fee_to_bytes fee]"

lemma build_public_inputs_client:
  assumes "strkey_ok recipient" and "strkey_ok relayer"
  shows "build_public_inputs h root n (Address recipient) (Address relayer) fee = Inr (contract_inputs h root n recipient relayer fee)"
  by (simp add: build_public_inputs_def contract_inputs_def client_address(1) [OF assms(1)] client_address(1) [OF assms(2)])

subsection \<open>The text given to snarkjs\<close>

text \<open>Of arkworks' conversions: the bytes of zero and one read as zero and one.\<close>

definition fr_constants :: "('fr::comm_ring_1, 'c) field_crypto_scheme \<Rightarrow> bool" where
  "fr_constants c \<longleftrightarrow> fr_of_int c 0 = 0 \<and> fr_of_int c 1 = 1"

lemma leaf_int_denotes: "text_denotes c (js_to_string 10 (leaf_int b)) (bytes_to_fr c b)"
  using text_denotes_decimal [OF leaf_int_range, of c b] by simp

lemma address_denotes:
  assumes "fr_laws c"
  shows "text_denotes c (js_to_string 10 (leaf_int b mod int bn254_r)) (bytes_to_fr c b)"
proof -
  have "0 \<le> leaf_int b mod int bn254_r" "leaf_int b mod int bn254_r < int bn254_r" by (simp_all add: bn254_r_def)
  then have "text_denotes c (js_to_string 10 (leaf_int b mod int bn254_r)) (fr_of_int c (leaf_int b mod int bn254_r))"
    using bn254_r_256 by (intro text_denotes_decimal) linarith+
  then show ?thesis by (simp add: fr_of_int_mod [OF assms leaf_int_range])
qed

lemma bit_denotes:
  assumes "fr_constants c" and "unat d = 0 \<or> unat d = 1"
  shows "text_denotes c (js_to_string 10 (uint (d :: u32))) (unsigned d)"
proof -
  have "uint d = 0 \<and> (unsigned d :: 'a) = 0 \<or> uint d = 1 \<and> (unsigned d :: 'a) = 1"
    using assms(2) of_nat_unat [of d, where ?'a = 'a] of_nat_unat [of d, where ?'a = int] by fastforce
  with assms(1) text_denotes_decimal [of 0 c] text_denotes_decimal [of 1 c] show ?thesis
    by (auto simp: fr_constants_def)
qed

text \<open>The input of the client denotes the honest assignment.\<close>

lemma client_input_denotes:
  assumes fr: "fr_laws c" "fr_constants c" and range: "0 \<le> dn_secret note" "dn_secret note < 256 ^ 32"
    "0 \<le> dn_nullifier note" "dn_nullifier note < 256 ^ 32"
    and hash: "dn_nullifierHash note = leaf_int n" "bytes_to_fr c n = poseidon1 c (fr_of_int c (dn_nullifier note))"
    and bits: "\<forall>d\<in>set ds. unat d = 0 \<or> unat d = 1"
    and addresses: "addressToField require recipient = Inr (leaf_int a mod int bn254_r)"
      "addressToField require relayer = Inr (leaf_int b mod int bn254_r)"
  shows "\<exists>ci. circuit_input require \<lparr>wi_note = note,
       wi_merkleProof = \<lparr>cp_pathElements = map leaf_int es, cp_pathIndices = map uint ds, cp_root = leaf_int root, cp_leafIndex = i\<rparr>,
       wi_recipient = recipient, wi_relayer = relayer, wi_fee = leaf_int f\<rparr> = Inr ci \<and>
    input_denotes c ci (honest_signals c (fr_of_int c (dn_secret note)) (fr_of_int c (dn_nullifier note)) root es ds [root, n, a, b, f])"
proof -
  have elements: "list_all2 (text_denotes c) (map (js_to_string 10) (map leaf_int es)) (map (bytes_to_fr c) es)"
    by (simp add: list_all2_conv_all_nth leaf_int_denotes)
  have indices: "list_all2 (text_denotes c) (map (js_to_string 10) (map uint ds)) (map unsigned ds)"
    using bits bit_denotes [OF fr(2)] by (simp add: list_all2_conv_all_nth)
  have hashes: "text_denotes c (js_to_string 10 (leaf_int n)) (poseidon1 c (fr_of_int c (dn_nullifier note)))"
    using leaf_int_denotes [of c n] hash(2) by simp
  show ?thesis
    using elements indices hashes
    by (simp add: input_denotes_def circuit_input_def honest_signals_def Let_def addresses hash(1) leaf_int_denotes
        address_denotes [OF fr(1)] text_denotes_decimal [OF range(1,2)] text_denotes_decimal [OF range(3,4)])
qed

subsection \<open>The withdrawal of a client\<close>

text \<open>The numbers of a note are those of the contract's bytes.\<close>

lemma note_numbers:
  assumes law: "hasher_laws c hs" and gen: "recomputeNote (Some hs) s n = Inr note"
    and "0 \<le> s" "s < 256 ^ 32" "0 \<le> n" "n < 256 ^ 32"
  shows "dn_secret note = s" "dn_nullifier note = n"
    "dn_commitment note = leaf_int (note_commitment c (fr_of_int c s) (fr_of_int c n))"
    "dn_nullifierHash note = leaf_int (note_nullifier_hash c (fr_of_int c n))"
  using assms by (auto simp: recomputeNote_def hasher_laws_def fr_int_leaf_int note_commitment_def note_nullifier_hash_def)

lemma generated_note_numbers:
  assumes law: "hasher_laws c hs" and gen: "generateDepositNote (Some hs) random1 random2 = Inr note"
  defines "sec \<equiv> fr_of_int c (dn_secret note)" and "nul \<equiv> fr_of_int c (dn_nullifier note)"
  shows "0 \<le> dn_secret note" "dn_secret note < 256 ^ 32" "0 \<le> dn_nullifier note" "dn_nullifier note < 256 ^ 32"
    "dn_commitment note = leaf_int (note_commitment c sec nul)" "dn_nullifierHash note = leaf_int (note_nullifier_hash c nul)"
proof -
  let ?s = "randomFieldElement random1" and ?n = "randomFieldElement random2"
  have r: "0 \<le> randomFieldElement r" "randomFieldElement r < 256 ^ 32" for r
    using randomFieldElement_range [of r] bn254_r_256 by linarith+
  have "recomputeNote (Some hs) ?s ?n = Inr note" using gen by (simp add: generate_is_recompute)
  note nums = note_numbers [OF law this r r]
  show "0 \<le> dn_secret note" "dn_secret note < 256 ^ 32" "0 \<le> dn_nullifier note" "dn_nullifier note < 256 ^ 32"
    "dn_commitment note = leaf_int (note_commitment c sec nul)" "dn_nullifierHash note = leaf_int (note_nullifier_hash c nul)"
    using nums r unfolding sec_def nul_def by simp_all
qed

lemma client_withdrawal:
  assumes fr: "fr_laws h" "fr_constants h" and law: "hasher_laws h hs" and pool: "pool_rep h e p"
    and gen: "generateDepositNote (Some hs) random1 random2 = Inr note"
    and mine: "i < j" "j \<le> length (p_leaves p)" "p_leaves p ! i = array_of (bigIntToBytes (dn_commitment note))"
    and lag: "length (p_leaves p) < j + unat (p_history_size p)"
    and tree: "ctree_rep hs (unat (p_depth p)) t (map leaf_int (take j (p_leaves p)))"
    and unspent: "array_of (bigIntToBytes (dn_nullifierHash note)) \<notin> p_spent p"
    and fee: "0 \<le> sint fee" "sint fee \<le> sint (p_max_fee p)"
    and strkeys: "strkey_ok recipient" "strkey_ok relayer"
    and funds: "a_payout h (Address recipient) (Address relayer) fee p = Some l"
  shows "\<exists>pf root n inputs ci s. getProof (int i) t = Inr pf \<and>
    root = array_of (bigIntToBytes (cp_root pf)) \<and> n = array_of (bigIntToBytes (dn_nullifierHash note)) \<and>
    build_public_inputs h root n (Address recipient) (Address relayer) fee = Inr inputs \<and>
    circuit_input (Some (host_sha256 h)) \<lparr>wi_note = note, wi_merkleProof = pf, wi_recipient = recipient, wi_relayer = relayer,
      wi_fee = sint fee\<rparr> = Inr ci \<and> input_denotes h ci s \<and>
    circuit_withdraw (poseidon1 h) (poseidon2 h) (unat (p_depth p)) s \<and> circuit_public s = map (bytes_to_fr h) inputs \<and>
    (\<forall>proof. if verify_proof vk h proof inputs
       then \<exists>e'. withdraw vk h proof root n (Address recipient) (Address relayer) fee e = Inr e'
       else withdraw vk h proof root n (Address recipient) (Address relayer) fee e = Inl (Err InvalidProof))"
proof -
  let ?xs = "take j (p_leaves p)" and ?d = "unat (p_depth p)"
  let ?root = "tree_root h ?d ?xs"
  define sec where "sec = fr_of_int h (dn_secret note)"
  define nul where "nul = fr_of_int h (dn_nullifier note)"
  define n where "n = note_nullifier_hash h nul"
  note nums = generated_note_numbers [OF law gen, folded sec_def nul_def, folded n_def]
  note rt = fr_laws_roundtrip [OF fr(1)]
  have leaf: "?xs ! i = note_commitment h sec nul"
    using mine by (simp add: nums)
  have "length (p_leaves p) \<le> tree_capacity (p_depth p)" by (rule pool_repD(3) [OF pool])
  then have i: "i < length ?xs" "i < 2 ^ ?d" using mine by (simp_all add: tree_capacity_def)
  obtain es and ds :: "u32 list" where proof_ok: "getProof (int i) t = Inr \<lparr>cp_pathElements = map leaf_int es,
      cp_pathIndices = map uint ds, cp_root = leaf_int ?root, cp_leafIndex = int i\<rparr>"
    and len: "length es = ?d" "length ds = ?d" and bits: "\<forall>d\<in>set ds. unat d = 0 \<or> unat d = 1"
    and climb: "climb (hash_pair_bytes h) (note_commitment h sec nul) (zip es (map unat ds)) = ?root"
    using client_proof [OF law tree i] unfolding leaf by blast
  let ?inputs = "contract_inputs h ?root n recipient relayer fee"
  have inputs: "build_public_inputs h ?root n (Address recipient) (Address relayer) fee = Inr ?inputs"
    by (rule build_public_inputs_client [OF strkeys])
  let ?s = "honest_signals h sec nul ?root es ds ?inputs"
  have sat: "circuit_withdraw (poseidon1 h) (poseidon2 h) ?d ?s"
    by (rule honest_signals_satisfy [OF rt len bits]) (use climb in \<open>simp add: note_commitment_def\<close>)
  have public: "circuit_public ?s = map (bytes_to_fr h) ?inputs"
    using honest_public [OF rt, of ?root nul] inputs unfolding n_def by metis
  let ?pf = "\<lparr>cp_pathElements = map leaf_int es, cp_pathIndices = map uint ds, cp_root = leaf_int ?root, cp_leafIndex = int i\<rparr>"
  let ?inp = "\<lparr>wi_note = note, wi_merkleProof = ?pf, wi_recipient = recipient, wi_relayer = relayer, wi_fee = sint fee\<rparr>"
  have "bytes_to_fr h n = poseidon1 h nul" by (simp add: n_def note_nullifier_hash_def fr_written_reads_back [OF rt])
  then obtain ci where denotes: "circuit_input (Some (host_sha256 h)) ?inp = Inr ci" "input_denotes h ci ?s"
    using client_input_denotes [OF fr nums(1-4) nums(6) _ bits client_address(2) [OF strkeys(1)] client_address(2) [OF strkeys(2)],
        where es = es and root = ?root and i = "int i" and f = "fee_to_bytes fee"]
    unfolding contract_inputs_def nul_def sec_def fee_to_bytes_leaf_int [OF fee(1)] by auto
  have bytes: "array_of (bigIntToBytes (cp_root ?pf)) = ?root" "array_of (bigIntToBytes (dn_nullifierHash note)) = n"
    by (simp_all add: nums(6))
  have "n \<notin> p_spent p" using unspent bytes(2) by simp
  note decides = verification_decides [OF pool mine(2) lag this fee inputs funds, of vk]
  show ?thesis
    by (intro exI [of _ ?pf] exI [of _ ?root] exI [of _ n] exI [of _ ?inputs] exI [of _ ci] exI [of _ ?s] conjI allI)
      (rule proof_ok bytes [symmetric] inputs denotes sat public decides)+
qed

end
