(* ===== verification/ClientInstances.thy ===== *)
theory ClientInstances
  imports ClientBridge
begin

text \<open>
  A concrete setting for the theorems about the client: the ring of integers modulo the order of
  BN254, an ideal host over it, a hasher that agrees with it, a prover for the ideal proof system,
  and a pool with one deposit.
\<close>

subsection \<open>The ring\<close>

setup_lifting type_definition_bn_fr

instantiation bn_fr :: comm_ring_1
begin

lift_definition zero_bn_fr :: bn_fr is 0 by (rule bn254_r_pos)
lift_definition one_bn_fr :: bn_fr is 1 by (simp add: bn254_r_def)
lift_definition plus_bn_fr :: "bn_fr \<Rightarrow> bn_fr \<Rightarrow> bn_fr" is "\<lambda>a b. (a + b) mod bn254_r" by (simp add: bn254_r_pos)
lift_definition uminus_bn_fr :: "bn_fr \<Rightarrow> bn_fr" is "\<lambda>a. (bn254_r - a) mod bn254_r" by (simp add: bn254_r_pos)
lift_definition minus_bn_fr :: "bn_fr \<Rightarrow> bn_fr \<Rightarrow> bn_fr" is "\<lambda>a b. (a + (bn254_r - b) mod bn254_r) mod bn254_r" by (simp add: bn254_r_pos)
lift_definition times_bn_fr :: "bn_fr \<Rightarrow> bn_fr \<Rightarrow> bn_fr" is "\<lambda>a b. (a * b) mod bn254_r" by (simp add: bn254_r_pos)

instance
proof
  fix a b c :: bn_fr
  show "a + b + c = a + (b + c)" by transfer (simp add: mod_simps add.assoc)
  show "a + b = b + a" by transfer (simp add: add.commute)
  show "0 + a = a" by transfer simp
  show "- a + a = 0" by transfer (simp add: mod_simps)
  show "a - b = a + - b" by transfer (rule refl)
  show "a * b * c = a * (b * c)" by transfer (simp add: mod_simps mult.assoc)
  show "a * b = b * a" by transfer (simp add: mult.commute)
  show "1 * a = a" by transfer simp
  show "(a + b) * c = a * c + b * c" by transfer (simp add: mod_simps distrib_right)
  show "(0 :: bn_fr) \<noteq> 1" by transfer simp
qed

end

subsection \<open>The host, the hasher and the prover\<close>

definition bn_host :: "(bn_fr, unit, bn_fr list, bn_fr list, unit, bn_fr list, demo_ledger) pool_host" where
  "bn_host = ideal_host_of fr_of Rep_bn_fr (\<lambda>x. fr_of (Rep_bn_fr x + 7)) (\<lambda>x y. fr_of (3 * Rep_bn_fr x + 5 * Rep_bn_fr y + 1))"

lemma bn_self [simp]:
  "current_contract_address bn_host = pool_address" "token_transfer bn_host = demo_transfer"
  by (simp_all add: bn_host_def)

lemma bn_fr_laws: "fr_laws bn_host"
  using demo_fr_laws by (simp add: fr_laws_def bn_host_def ideal_host_of_def demo_host_def)

lemma bn_fr_constants: "fr_constants bn_host"
proof -
  have "fr_of_int bn_host n = fr_of (nat n)" if "0 \<le> n" "n < 256" for n
  proof -
    have "nat n < 256" using that by simp
    then have "array_val (be_array (nat n) :: bytes32) = nat n" by (simp add: array_val_be_array)
    then have "le_val (rev (array_list (be_array (nat n) :: bytes32))) = nat n" by (simp add: array_val_def be_val_def)
    then show ?thesis by (simp add: fr_of_int_def bytes_to_fr_def bn_host_def ideal_host_of_def Let_def)
  qed
  moreover have "fr_of 0 = 0" "fr_of 1 = 1"
    by (simp_all add: fr_of_def zero_bn_fr_def one_bn_fr_def) (simp add: bn254_r_def)
  ultimately show ?thesis by (simp add: fr_constants_def)
qed

definition host_hasher :: "('fr, 'c) field_crypto_scheme \<Rightarrow> poseidon_hasher" where
  "host_hasher c =
     \<lparr>hash_inputs = (\<lambda>xs. array_list (fr_to_bytes c
        (case xs of [a] \<Rightarrow> poseidon1 c (fr_of_int c a) | a # b # _ \<Rightarrow> poseidon2 c (fr_of_int c a) (fr_of_int c b)))),
      to_object = bytesToBigInt\<rparr>"

lemma host_hasher_laws: "hasher_laws c (host_hasher c)"
  by (simp add: hasher_laws_def host_hasher_def bytesToBigInt_array fr_int_def)

definition zero_g1 :: G1Point where "zero_g1 = \<lparr>g1x = be_array 0, g1y = be_array 0\<rparr>"
definition zero_g2 :: G2Point where "zero_g2 = \<lparr>x_c0 = be_array 0, x_c1 = be_array 0, y_c0 = be_array 0, y_c1 = be_array 0\<rparr>"

definition ideal_prover :: snarkjs where
  "ideal_prover ci wasm zkey = Inr \<lparr>pr_proof = proof_text zero_g1 zero_g2 zero_g1, pr_publicSignals = []\<rparr>"

lemma bn_verify:
  "length inputs = NUM_PUBLIC_INPUTS \<Longrightarrow> verify_proof True bn_host pf inputs \<longleftrightarrow>
    (\<exists>s. circuit_withdraw (poseidon1 bn_host) (poseidon2 bn_host) 2 s \<and> map (bytes_to_fr bn_host) inputs = circuit_public s)"
  unfolding bn_host_def by (subst ideal_of_verify) simp_all

subsection \<open>A note and its deposit\<close>

definition client_config :: MixerConfig where
  "client_config = \<lparr>mc_contractId = ''CPOOL'', mc_denomination = 100, mc_wasmPath = ''withdraw.wasm'',
     mc_zkeyPath = ''withdraw.zkey'', mc_networkPassphrase = [], mc_rpcUrl = []\<rparr>"

definition client_note :: DepositNote where
  "client_note = \<lparr>dn_secret = randomFieldElement [2], dn_nullifier = randomFieldElement [3],
     dn_commitment = H2 (host_hasher bn_host) (randomFieldElement [2]) (randomFieldElement [3]),
     dn_nullifierHash = to_object (host_hasher bn_host) (hash_inputs (host_hasher bn_host) [randomFieldElement [3]])\<rparr>"

lemma client_note_generated: "generateDepositNote (Some (host_hasher bn_host)) [2] [3] = Inr client_note"
  by (simp add: generateDepositNote_def client_note_def H2_def Let_def)

definition client_pool :: "demo_ledger APool" where
  "client_pool = demo_pool\<lparr>p_leaves := [array_of (bigIntToBytes (dn_commitment client_note))],
     p_log := [DepositEvent (array_of (bigIntToBytes (dn_commitment client_note))) 0], p_ledger := p_ledger demo_deposited\<rparr>"

lemma client_deposited:
  "\<exists>e. deposit bn_host demo_auth alice (array_of (bigIntToBytes (dn_commitment client_note))) (demo_env bn_host) = Inr e \<and>
     pool_rep bn_host e client_pool"
proof -
  have "a_deposit bn_host demo_auth alice (array_of (bigIntToBytes (dn_commitment client_note))) demo_pool = Inr client_pool"
    by (simp add: a_deposit_any) (simp add: client_pool_def)
  then show ?thesis
    using deposit_refines [OF demo_env_ok(2) [of bn_host], of demo_auth alice "array_of (bigIntToBytes (dn_commitment client_note))"]
    by (metis res_rel_Inr_abs)
qed

lemma client_pay: "a_payout bn_host (Address ''GBOB'') (Address ''GCAROL'') 3 client_pool \<noteq> None"
  by (simp add: a_payout_def client_pool_def demo_deposited_def demo_transfer_def demo_names Let_def)

lemma demo_strkeys: "strkey_ok ''GBOB''" "strkey_ok ''GCAROL''"
  by (simp_all add: strkey_ok_def)

end
