(* ===== verification/ClientWorker.thy ===== *)
theory ClientWorker
  imports ClientProver
begin

text \<open>
  \<open>client/src/proof/worker-prover.ts\<close> and \<open>worker-thread.ts\<close>: proof generation in a Web Worker. The
  worker, its messages, the timers and the calls of the user interleave; a promise is known by
  the identifier of its request, and settles the first time it is resolved or rejected.
\<close>

subsection \<open>The worker thread\<close>

record Payload =
  pl_circuitInput :: CircuitInput
  pl_wasmPath :: string
  pl_zkeyPath :: string

record GenerateRequest =
  gr_type :: string
  gr_id :: string
  gr_payload :: Payload

record WorkerResponse =
  wsp_type :: string
  wsp_id :: string
  wsp_proof :: "ProofResult option"
  wsp_error :: "string option"

text \<open>The message of a thrown value.\<close>

definition error_message :: "ClientError failure \<Rightarrow> string" where
  "error_message e = (case e of Err (ProverFailed msg) \<Rightarrow> msg | _ \<Rightarrow> ''Error'')"

definition worker_onmessage :: "snarkjs \<Rightarrow> GenerateRequest \<Rightarrow> WorkerResponse" where
  "worker_onmessage fullProve data =
     (if gr_type data \<noteq> ''generate'' then
        \<lparr>wsp_type = ''error'', wsp_id = (if gr_id data = [] then ''unknown'' else gr_id data), wsp_proof = None,
         wsp_error = Some (''Unknown message type: '' @ gr_type data)\<rparr>
      else case fullProve (pl_circuitInput (gr_payload data)) (pl_wasmPath (gr_payload data)) (pl_zkeyPath (gr_payload data)) of
        Inr res \<Rightarrow>
          \<lparr>wsp_type = ''result'', wsp_id = gr_id data,
           wsp_proof = Some \<lparr>pr_proof = pr_proof res, pr_publicSignals = pr_publicSignals res\<rparr>, wsp_error = None\<rparr>
      | Inl e \<Rightarrow>
          \<lparr>wsp_type = ''error'', wsp_id = gr_id data, wsp_proof = None, wsp_error = Some (error_message e)\<rparr>)"

subsection \<open>The prover\<close>

text \<open>The fields of the class; \<open>wp_timers\<close> are the timers that are set and \<open>wp_settled\<close> the outcomes of the
  promises given out, by request. \<open>wp_posted\<close> lists the requests posted to the worker.\<close>

record WorkerProver =
  wp_worker :: bool
  wp_pending :: "(string \<times> unit) list"
  wp_requestCounter :: nat
  wp_timeout :: int
  wp_workerUrl :: "string option"
  wp_timers :: "string set"
  wp_settled :: "string \<rightharpoonup> ProofResult js"
  wp_posted :: "GenerateRequest list"

definition worker_prover_new :: "string option \<Rightarrow> int option \<Rightarrow> WorkerProver" where
  "worker_prover_new url timeout =
     \<lparr>wp_worker = False, wp_pending = [], wp_requestCounter = 0,
      wp_timeout = (case timeout of Some t \<Rightarrow> t | None \<Rightarrow> 60000), wp_workerUrl = url,
      wp_timers = {}, wp_settled = Map.empty, wp_posted = []\<rparr>"

text \<open>\<open>resolve(result)\<close> or \<open>reject(err)\<close> of a promise: only the first call counts.\<close>

definition settle :: "string \<Rightarrow> ProofResult js \<Rightarrow> WorkerProver \<Rightarrow> WorkerProver" where
  "settle rid outcome w =
     (case wp_settled w rid of
        Some _ \<Rightarrow> w
      | None \<Rightarrow> w\<lparr>wp_settled := (wp_settled w)(rid \<mapsto> outcome)\<rparr>)"

text \<open>The wrappers stored in \<open>pendingRequests\<close>: \<open>clearTimeout(timer)\<close>, then the promise.\<close>

definition settle_pending :: "string \<Rightarrow> ProofResult js \<Rightarrow> WorkerProver \<Rightarrow> WorkerProver" where
  "settle_pending rid outcome w = settle rid outcome (w\<lparr>wp_timers := wp_timers w - {rid}\<rparr>)"

definition ensureWorker :: "WorkerProver \<Rightarrow> WorkerProver" where
  "ensureWorker w = (if \<not> wp_worker w then w\<lparr>wp_worker := True\<rparr> else w)"

definition request_id :: "nat \<Rightarrow> string" where
  "request_id n = js_to_string 10 (int n)"

definition generateInWorker :: "CircuitInput \<Rightarrow> string \<Rightarrow> string \<Rightarrow> WorkerProver \<Rightarrow> string \<times> WorkerProver" where
  "generateInWorker circuitInput wasmPath zkeyPath w =
     (let counter = Suc (wp_requestCounter w);
          rid = request_id counter;
          w = ensureWorker (w\<lparr>wp_requestCounter := counter\<rparr>);
          w = w\<lparr>wp_timers := insert rid (wp_timers w)\<rparr>;
          w = w\<lparr>wp_pending := AList.update rid () (wp_pending w)\<rparr>;
          message = \<lparr>gr_type = ''generate'', gr_id = rid,
            gr_payload = \<lparr>pl_circuitInput = circuitInput, pl_wasmPath = wasmPath, pl_zkeyPath = zkeyPath\<rparr>\<rparr>
      in (rid, w\<lparr>wp_posted := wp_posted w @ [message]\<rparr>))"

definition generateOnMainThread :: "snarkjs \<Rightarrow> CircuitInput \<Rightarrow> string \<Rightarrow> string \<Rightarrow> ProofResult js" where
  "generateOnMainThread fullProve circuitInput wasmPath zkeyPath =
     and_then (fullProve circuitInput wasmPath zkeyPath) (\<lambda>res.
     Inr \<lparr>pr_proof = pr_proof res, pr_publicSignals = pr_publicSignals res\<rparr>)"

text \<open>\<open>generateProof\<close>: a promise, by its request or by its outcome; an async function rejects what
  it throws. \<open>has_worker\<close> is
  \<open>typeof Worker !== "undefined"\<close>.\<close>

definition generateProof :: "node_require \<Rightarrow> snarkjs \<Rightarrow> bool \<Rightarrow> WithdrawalProofInput \<Rightarrow> string \<Rightarrow> string \<Rightarrow> WorkerProver \<Rightarrow>
    (string + ProofResult js) \<times> WorkerProver" where
  "generateProof require fullProve has_worker inp wasmPath zkeyPath w =
     (case buildCircuitInput require inp of
        Inl e \<Rightarrow> (Inr (Inl e), w)
      | Inr circuitInput \<Rightarrow>
          if (case wp_workerUrl w of Some url \<Rightarrow> url \<noteq> [] | None \<Rightarrow> False) \<and> has_worker
          then (let (rid, w) = generateInWorker circuitInput wasmPath zkeyPath w in (Inl rid, w))
          else (Inr (generateOnMainThread fullProve circuitInput wasmPath zkeyPath), w))"

definition onmessage :: "WorkerResponse \<Rightarrow> WorkerProver \<Rightarrow> WorkerProver" where
  "onmessage data w =
     (case map_of (wp_pending w) (wsp_id data) of
        None \<Rightarrow> w
      | Some _ \<Rightarrow>
          let w = w\<lparr>wp_pending := AList.delete (wsp_id data) (wp_pending w)\<rparr> in
          (case wsp_proof data of
             Some pf \<Rightarrow>
               if wsp_type data = ''result'' then settle_pending (wsp_id data) (Inr pf) w
               else settle_pending (wsp_id data) (Inl (Err (case wsp_error data of
                      Some msg \<Rightarrow> if msg = [] then UnknownWorkerError else WorkerFailed msg | None \<Rightarrow> UnknownWorkerError))) w
           | None \<Rightarrow>
               settle_pending (wsp_id data) (Inl (Err (case wsp_error data of
                      Some msg \<Rightarrow> if msg = [] then UnknownWorkerError else WorkerFailed msg | None \<Rightarrow> UnknownWorkerError))) w))"

text \<open>\<open>for (const [, pending] of this.pendingRequests) pending.reject(err); this.pendingRequests.clear();\<close>\<close>

definition reject_all :: "ClientError \<Rightarrow> WorkerProver \<Rightarrow> WorkerProver" where
  "reject_all err w =
     (fold (\<lambda>(rid, _). settle_pending rid (Inl (Err err))) (wp_pending w) w)\<lparr>wp_pending := []\<rparr>"

definition onerror :: "string \<Rightarrow> WorkerProver \<Rightarrow> WorkerProver" where
  "onerror message w = reject_all (WorkerFailed (''Worker error: '' @ message)) w"

definition terminate :: "WorkerProver \<Rightarrow> WorkerProver" where
  "terminate w =
     (let w = (if wp_worker w then w\<lparr>wp_worker := False\<rparr> else w) in reject_all WorkerTerminated w)"

text \<open>The callback of the timer of a request, which is then no longer set.\<close>

definition ontimeout :: "string \<Rightarrow> WorkerProver \<Rightarrow> WorkerProver" where
  "ontimeout rid w =
     (let w = w\<lparr>wp_timers := wp_timers w - {rid}, wp_pending := AList.delete rid (wp_pending w)\<rparr>
      in settle rid (Inl (Err (ProofTimeout (wp_timeout w)))) w)"

subsection \<open>Interleavings\<close>

text \<open>What can happen next: a call of the user, any message or error of the worker, a timer.\<close>

inductive worker_step :: "WorkerProver \<Rightarrow> WorkerProver \<Rightarrow> bool" where
  generate: "generateInWorker ci wasm zkey w = (rid, w') \<Longrightarrow> worker_step w w'"
| message: "wp_worker w \<Longrightarrow> worker_step w (onmessage data w)"
| failure: "wp_worker w \<Longrightarrow> worker_step w (onerror msg w)"
| timeout: "rid \<in> wp_timers w \<Longrightarrow> worker_step w (ontimeout rid w)"
| terminate: "worker_step w (terminate w)"

inductive worker_steps :: "WorkerProver \<Rightarrow> WorkerProver \<Rightarrow> bool" where
  refl: "worker_steps w w"
| step: "worker_steps w w' \<Longrightarrow> worker_step w' w'' \<Longrightarrow> worker_steps w w''"

text \<open>Every request made so far is either pending, with its timer set, or settled.\<close>

definition worker_inv :: "WorkerProver \<Rightarrow> bool" where
  "worker_inv w \<longleftrightarrow>
     distinct (map fst (wp_pending w)) \<and>
     wp_timers w = fst ` set (wp_pending w) \<and>
     fst ` set (wp_pending w) \<inter> dom (wp_settled w) = {} \<and>
     fst ` set (wp_pending w) \<union> dom (wp_settled w) = request_id ` {1..wp_requestCounter w}"

lemma request_id_inject: "request_id m = request_id n \<longleftrightarrow> m = n"
  by (metis BigInt_decimal of_nat_eq_iff request_id_def sum.inject(2))

lemma worker_inv_new: "worker_inv (worker_prover_new url timeout)"
  by (simp add: worker_inv_def worker_prover_new_def)

lemma fst_update: "fst ` set (AList.update k v al) = insert k (fst ` set al)"
  using dom_update [of k v al] by (simp add: dom_map_of_conv_image_fst [symmetric] update_conv')

lemma fst_delete: "fst ` set (AList.delete k al) = fst ` set al - {k}"
  by (auto simp: AList.delete_eq image_iff)

text \<open>Settling a pending request and taking it off the map keeps the invariant.\<close>

lemma settle_pending_inv:
  assumes inv: "worker_inv w" and rid: "rid \<in> fst ` set (wp_pending w)"
  shows "worker_inv (settle_pending rid outcome (w\<lparr>wp_pending := AList.delete rid (wp_pending w)\<rparr>))"
    "wp_settled (settle_pending rid outcome (w\<lparr>wp_pending := AList.delete rid (wp_pending w)\<rparr>)) = (wp_settled w)(rid \<mapsto> outcome)"
proof -
  have "rid \<notin> dom (wp_settled w)" using inv rid by (auto simp: worker_inv_def)
  then have new: "wp_settled w rid = None" by auto
  show "wp_settled (settle_pending rid outcome (w\<lparr>wp_pending := AList.delete rid (wp_pending w)\<rparr>)) = (wp_settled w)(rid \<mapsto> outcome)"
    by (simp add: settle_pending_def settle_def new)
  show "worker_inv (settle_pending rid outcome (w\<lparr>wp_pending := AList.delete rid (wp_pending w)\<rparr>))"
    using inv rid by (auto simp: worker_inv_def settle_pending_def settle_def new fst_delete distinct_delete)
qed

text \<open>Taking off the map after the promise, as \<open>reject_all\<close> does for all of them.\<close>

lemma fold_settle_pending:
  assumes "\<forall>rid\<in>fst ` set ps. wp_settled w rid = None" and "distinct (map fst ps)"
  shows "fold (\<lambda>(rid, _). settle_pending rid outcome) ps w =
    w\<lparr>wp_timers := wp_timers w - fst ` set ps,
      wp_settled := (\<lambda>i. if i \<in> fst ` set ps then Some outcome else wp_settled w i)\<rparr>"
  using assms
proof (induction ps arbitrary: w)
  case Nil
  show ?case by simp
next
  case (Cons p ps)
  obtain rid u where p: "p = (rid, u)" by (cases p)
  let ?w = "settle_pending rid outcome w"
  have new: "wp_settled w rid = None" using Cons.prems(1) p by simp
  then have w: "?w = w\<lparr>wp_timers := wp_timers w - {rid}, wp_settled := (wp_settled w)(rid \<mapsto> outcome)\<rparr>"
    by (simp add: settle_pending_def settle_def)
  have "\<forall>i\<in>fst ` set ps. wp_settled ?w i = None" using Cons.prems p by (auto simp: w)
  then have "fold (\<lambda>(rid, _). settle_pending rid outcome) ps ?w =
    ?w\<lparr>wp_timers := wp_timers ?w - fst ` set ps,
      wp_settled := (\<lambda>i. if i \<in> fst ` set ps then Some outcome else wp_settled ?w i)\<rparr>"
    using Cons.prems(2) by (intro Cons.IH) simp_all
  then show ?case by (simp add: p w Diff_insert2 [symmetric] fun_eq_iff)
qed

lemma reject_all_eq:
  assumes "worker_inv w"
  shows "reject_all err w = w\<lparr>wp_pending := [], wp_timers := {},
    wp_settled := (\<lambda>i. if i \<in> fst ` set (wp_pending w) then Some (Inl (Err err)) else wp_settled w i)\<rparr>"
proof -
  have "\<forall>rid\<in>fst ` set (wp_pending w). wp_settled w rid = None" "distinct (map fst (wp_pending w))"
    "wp_timers w - fst ` set (wp_pending w) = {}"
    using assms by (auto simp: worker_inv_def)
  then show ?thesis by (simp add: reject_all_def fold_settle_pending)
qed

lemma reject_all_inv: "worker_inv w \<Longrightarrow> worker_inv (reject_all err w)"
  by (auto simp: reject_all_eq) (auto simp: worker_inv_def dom_def)

lemma reject_all_keeps: "worker_inv w \<Longrightarrow> wp_settled w \<subseteq>\<^sub>m wp_settled (reject_all err w)"
  by (auto simp: reject_all_eq map_le_def worker_inv_def)

lemma ensureWorker_frame [simp]:
  "wp_pending (ensureWorker w) = wp_pending w" "wp_timers (ensureWorker w) = wp_timers w"
  "wp_settled (ensureWorker w) = wp_settled w" "wp_requestCounter (ensureWorker w) = wp_requestCounter w"
  "wp_posted (ensureWorker w) = wp_posted w"
  by (simp_all add: ensureWorker_def)

lemma generate_inv:
  assumes "worker_inv w" and "generateInWorker ci wasm zkey w = (rid, w')"
  shows "worker_inv w'" "wp_settled w' = wp_settled w" "rid \<in> fst ` set (wp_pending w')"
proof -
  let ?n = "Suc (wp_requestCounter w)"
  have rid: "rid = request_id ?n" and w': "wp_pending w' = AList.update (request_id ?n) () (wp_pending w)"
    "wp_timers w' = insert (request_id ?n) (wp_timers w)" "wp_settled w' = wp_settled w" "wp_requestCounter w' = ?n"
    using assms(2) by (auto simp: generateInWorker_def Let_def)
  have "request_id ?n \<notin> request_id ` {1..wp_requestCounter w}" by (auto simp: request_id_inject)
  then have fresh: "request_id ?n \<notin> fst ` set (wp_pending w)" "request_id ?n \<notin> dom (wp_settled w)"
    using assms(1) unfolding worker_inv_def by blast+
  moreover have "{1..?n} = insert ?n {1..wp_requestCounter w}" by auto
  ultimately show "worker_inv w'"
    using assms(1) unfolding worker_inv_def w' fst_update by (auto simp: distinct_update)
  show "wp_settled w' = wp_settled w" "rid \<in> fst ` set (wp_pending w')"
    by (simp_all add: w' rid fst_update)
qed

lemma timeout_eq:
  assumes "worker_inv w" and "rid \<in> wp_timers w"
  shows "ontimeout rid w = settle_pending rid (Inl (Err (ProofTimeout (wp_timeout w)))) (w\<lparr>wp_pending := AList.delete rid (wp_pending w)\<rparr>)"
  by (cases w) (simp add: ontimeout_def settle_pending_def)

lemma map_of_pending: "map_of (wp_pending w) rid = Some u \<Longrightarrow> rid \<in> fst ` set (wp_pending w)"
  by (metis domI dom_map_of_conv_image_fst)

lemma onmessage_inv:
  assumes "worker_inv w"
  shows "worker_inv (onmessage data w) \<and> wp_settled w \<subseteq>\<^sub>m wp_settled (onmessage data w)"
proof (cases "map_of (wp_pending w) (wsp_id data)")
  case None
  then show ?thesis using assms by (simp add: onmessage_def)
next
  case (Some u)
  note rid = map_of_pending [OF Some]
  then have "wsp_id data \<notin> dom (wp_settled w)" using assms by (auto simp: worker_inv_def)
  then have le: "wp_settled w \<subseteq>\<^sub>m (wp_settled w)(wsp_id data \<mapsto> r)" for r by (auto simp: map_le_def)
  show ?thesis
    using settle_pending_inv [OF assms rid] le Some by (simp add: onmessage_def Let_def split: option.split)
qed

lemma worker_step_inv:
  assumes "worker_step w w'" and inv: "worker_inv w"
  shows "worker_inv w' \<and> wp_settled w \<subseteq>\<^sub>m wp_settled w'"
  using assms(1)
proof cases
  case (generate ci wasm zkey rid)
  then show ?thesis using generate_inv [OF inv] by simp
next
  case (message data)
  then show ?thesis using onmessage_inv [OF inv] by simp
next
  case (failure msg)
  with reject_all_keeps [OF inv] reject_all_inv [OF inv] show ?thesis by (simp add: onerror_def)
next
  case (timeout rid)
  have rid: "rid \<in> fst ` set (wp_pending w)" using timeout inv by (simp add: worker_inv_def)
  then have "rid \<notin> dom (wp_settled w)" using inv by (auto simp: worker_inv_def)
  then have "wp_settled w \<subseteq>\<^sub>m (wp_settled w)(rid \<mapsto> r)" for r by (auto simp: map_le_def)
  then show ?thesis
    using timeout settle_pending_inv [OF inv rid] timeout_eq [OF inv timeout(2)] by simp
next
  case terminate
  let ?w = "if wp_worker w then w\<lparr>wp_worker := False\<rparr> else w"
  have w: "worker_inv ?w" "wp_settled ?w = wp_settled w" using inv by (auto simp: worker_inv_def)
  show ?thesis
    unfolding terminate terminate_def Let_def
    using reject_all_keeps [OF w(1)] reject_all_inv [OF w(1)] unfolding w(2) by blast
qed

lemma worker_steps_inv:
  "worker_steps w w' \<Longrightarrow> worker_inv w \<Longrightarrow> worker_inv w' \<and> wp_settled w \<subseteq>\<^sub>m wp_settled w'"
proof (induction rule: worker_steps.induct)
  case (refl w)
  then show ?case by simp
next
  case (step w w' w'')
  then show ?case using worker_step_inv [of w' w''] map_le_trans by blast
qed

text \<open>After \<open>terminate\<close> nothing is pending.\<close>

lemma terminate_drains:
  assumes "worker_inv w"
  shows "wp_pending (terminate w) = []" "dom (wp_settled (terminate w)) = request_id ` {1..wp_requestCounter w}"
proof -
  let ?w = "if wp_worker w then w\<lparr>wp_worker := False\<rparr> else w"
  have w: "worker_inv ?w" using assms by (auto simp: worker_inv_def)
  have inv: "worker_inv (terminate w)" unfolding terminate_def Let_def by (rule reject_all_inv [OF w])
  show pending: "wp_pending (terminate w) = []" by (simp add: terminate_def reject_all_def)
  have "wp_requestCounter (terminate w) = wp_requestCounter w"
    unfolding terminate_def Let_def reject_all_eq [OF w] by simp
  with inv pending show "dom (wp_settled (terminate w)) = request_id ` {1..wp_requestCounter w}"
    by (simp add: worker_inv_def)
qed

text \<open>Without disturbance the worker is the main thread: the answer of the worker to a request settles
  its promise with what the main thread computes, an error with its message kept.\<close>

lemma worker_is_main_thread:
  assumes "worker_inv w" and "generateInWorker ci wasm zkey w = (rid, w')"
    and "\<forall>e. fullProve ci wasm zkey = Inl e \<longrightarrow> error_message e \<noteq> []"
  shows "wp_settled (onmessage (worker_onmessage fullProve (last (wp_posted w'))) w') rid =
    Some (case generateOnMainThread fullProve ci wasm zkey of Inr res \<Rightarrow> Inr res | Inl e \<Rightarrow> Inl (Err (WorkerFailed (error_message e))))"
proof -
  have posted: "last (wp_posted w') = \<lparr>gr_type = ''generate'', gr_id = rid,
      gr_payload = \<lparr>pl_circuitInput = ci, pl_wasmPath = wasm, pl_zkeyPath = zkey\<rparr>\<rparr>"
    using assms(2) by (auto simp: generateInWorker_def Let_def)
  have inv: "worker_inv w'" and rid: "rid \<in> fst ` set (wp_pending w')" using generate_inv [OF assms(1,2)] by simp_all
  then obtain u where pend: "map_of (wp_pending w') rid = Some u"
    by (metis dom_map_of_conv_image_fst domD)
  show ?thesis
    using settle_pending_inv(2) [OF inv rid] pend assms(3)
    by (cases "fullProve ci wasm zkey")
      (simp_all add: posted worker_onmessage_def onmessage_def Let_def generateOnMainThread_def)
qed

end
