(* ===== verification/ClientRelayer.thy ===== *)
theory ClientRelayer
  imports ClientJson RelayerTrace
begin

text \<open>
  \<open>client/src/relayer/discovery.ts\<close> and \<open>types.ts\<close>: the choice of a relayer, the estimate of its fee,
  and the submission of a relay request.
\<close>

record ClientRelayerInfo =
  cri_address :: string
  cri_endpoint :: string
  cri_feeBps :: int
  cri_active :: bool

record ClientRelayRequest =
  crq_proofHex :: string
  crq_rootHex :: string
  crq_nullifierHashHex :: string
  crq_recipient :: string
  crq_fee :: string
  crq_poolContractId :: string

record RelayerDiscoveryConfig =
  rdc_rpcUrl :: string
  rdc_registryContractId :: string

definition fetchActiveRelayers :: "RelayerDiscoveryConfig \<Rightarrow> ClientRelayerInfo list js" where
  "fetchActiveRelayers cfg = Inr []"

definition selectCheapestRelayer :: "ClientRelayerInfo list \<Rightarrow> ClientRelayerInfo option" where
  "selectCheapestRelayer relayers =
     (let active = filter cri_active relayers in
      if length active = 0 then None
      else Some (fold (\<lambda>r cheapest. if cri_feeBps r < cri_feeBps cheapest then r else cheapest) (tl active) (hd active)))"

text \<open>The division of two \<open>bigint\<close>s drops the fraction.\<close>

definition js_quot :: "int \<Rightarrow> int \<Rightarrow> int" where
  "js_quot a b = (if a < 0 then - ((- a) div b) else a div b)"

definition estimateRelayerFee :: "int \<Rightarrow> int \<Rightarrow> int" where
  "estimateRelayerFee denomination feeBps = js_quot (denomination * feeBps) 10000"

text \<open>\<open>fetch\<close> returns a status and the text of the body, or throws.\<close>

type_synonym fetch = "string \<Rightarrow> string \<Rightarrow> (nat \<times> string) js"

definition relay_request_record :: "ClientRelayRequest \<Rightarrow> (string \<times> string) list" where
  "relay_request_record r =
     [(''proofHex'', crq_proofHex r), (''rootHex'', crq_rootHex r), (''nullifierHashHex'', crq_nullifierHashHex r),
      (''recipient'', crq_recipient r), (''fee'', crq_fee r), (''poolContractId'', crq_poolContractId r)]"

definition submitRelayRequest :: "fetch \<Rightarrow> string \<Rightarrow> ClientRelayRequest \<Rightarrow> json js" where
  "submitRelayRequest fetch relayerEndpoint request =
     and_then (fetch (relayerEndpoint @ ''/relay'') (json_stringify (relay_request_record request))) (\<lambda>(status, body).
     if \<not> (200 \<le> status \<and> status \<le> 299)
     then Inr (JObject [(''success'', JBool False), (''error'', JString (''Relayer returned HTTP '' @ js_to_string 10 (int status)))])
     else json_parse body)"

subsection \<open>The relayer's side of the request\<close>

text \<open>serde's reading of the request (\<open>relay.rs\<close>, \<open>#[serde(rename_all = "camelCase")]\<close>): every field is a
  string that must be present.\<close>

definition read_relay_request :: "json \<Rightarrow> RelayRequest option" where
  "read_relay_request v =
     (case (Option.bind (json_get ''proofHex'' v) json_as_str, Option.bind (json_get ''rootHex'' v) json_as_str,
            Option.bind (json_get ''nullifierHashHex'' v) json_as_str, Option.bind (json_get ''recipient'' v) json_as_str,
            Option.bind (json_get ''fee'' v) json_as_str, Option.bind (json_get ''poolContractId'' v) json_as_str) of
        (Some a, Some b, Some c, Some d, Some e, Some f) \<Rightarrow>
          Some \<lparr>rq_proof_hex = a, rq_root_hex = b, rq_nullifier_hash_hex = c, rq_recipient = d, rq_fee = e,
                rq_pool_contract_id = f\<rparr>
      | _ \<Rightarrow> None)"

text \<open>The route \<open>POST /relay\<close> with axum's \<open>Json\<close> extractor: text that is no JSON gets 400, a value that is
  no request 422, and only then the handler runs.\<close>

definition serve_relay :: "HealthAnswer \<Rightarrow> 'z relayer_crates_scheme \<Rightarrow> string \<Rightarrow> RelayerState \<Rightarrow> (nat \<times> RelayerState) run" where
  "serve_relay answer k body s =
     (case json_parse body of
        Inl e \<Rightarrow> Inr (400, s)
      | Inr v \<Rightarrow>
          (case read_relay_request v of
             None \<Rightarrow> Inr (422, s)
           | Some q \<Rightarrow> and_then (handle_relay answer k q s) (\<lambda>(r, s'). Inr (rs_status r, s'))))"

definition as_relay_request :: "ClientRelayRequest \<Rightarrow> RelayRequest" where
  "as_relay_request r =
     \<lparr>rq_proof_hex = crq_proofHex r, rq_root_hex = crq_rootHex r, rq_nullifier_hash_hex = crq_nullifierHashHex r,
      rq_recipient = crq_recipient r, rq_fee = crq_fee r, rq_pool_contract_id = crq_poolContractId r\<rparr>"

definition request_plain :: "ClientRelayRequest \<Rightarrow> bool" where
  "request_plain r \<longleftrightarrow> (\<forall>(k, v)\<in>set (relay_request_record r). json_plain v)"

text \<open>The relayer reads the request the client wrote.\<close>

lemma relay_request_read:
  assumes "request_plain r"
  shows "\<exists>v. json_parse (json_stringify (relay_request_record r)) = Inr v \<and> read_relay_request v = Some (as_relay_request r)"
proof -
  have "json_plain k" if "k \<in> fst ` set (relay_request_record r)" for k
    using that by (auto simp: relay_request_record_def json_plain_def)
  then have "json_parse (json_stringify (relay_request_record r)) = Inr (JObject (string_members (relay_request_record r)))"
    using assms by (intro json_parse_stringify) (auto simp: request_plain_def, auto simp: relay_request_record_def)
  then show ?thesis
    by (simp add: read_relay_request_def relay_request_record_def string_members_def json_get_def json_as_str_def
        as_relay_request_def)
qed

subsection \<open>The choice\<close>

lemma cheapest_fold:
  fixes f :: "'a \<Rightarrow> int"
  defines "pick \<equiv> (\<lambda>r c. if f r < f c then r else c)"
  shows "fold pick xs x \<in> insert x (set xs) \<and> (\<forall>y\<in>insert x (set xs). f (fold pick xs x) \<le> f y)"
proof (induction xs arbitrary: x)
  case Nil
  show ?case by simp
next
  case (Cons a xs)
  have "pick a x \<in> {a, x}" "f (pick a x) \<le> f a" "f (pick a x) \<le> f x" by (simp_all add: pick_def)
  with Cons.IH [of "pick a x"] show ?case by (auto intro: order_trans)
qed

lemma selectCheapest_spec:
  "case selectCheapestRelayer relayers of
     None \<Rightarrow> \<not> list_ex cri_active relayers
   | Some r \<Rightarrow> r \<in> set relayers \<and> cri_active r \<and> (\<forall>q\<in>set relayers. cri_active q \<longrightarrow> cri_feeBps r \<le> cri_feeBps q)"
proof (cases "filter cri_active relayers")
  case Nil
  then show ?thesis by (simp add: selectCheapestRelayer_def filter_empty_conv list_ex_iff)
next
  case (Cons x xs)
  have set: "insert x (set xs) = {q \<in> set relayers. cri_active q}"
    using Cons by (metis list.set(2) set_filter)
  let ?r = "fold (\<lambda>r cheapest. if cri_feeBps r < cri_feeBps cheapest then r else cheapest) xs x"
  have "?r \<in> insert x (set xs)" "\<forall>q\<in>insert x (set xs). cri_feeBps ?r \<le> cri_feeBps q"
    using cheapest_fold [of cri_feeBps xs x] by blast+
  then have "?r \<in> set relayers \<and> cri_active ?r \<and> (\<forall>q\<in>set relayers. cri_active q \<longrightarrow> cri_feeBps ?r \<le> cri_feeBps q)"
    unfolding set by simp
  moreover have "selectCheapestRelayer relayers = Some ?r" using Cons by (simp add: selectCheapestRelayer_def)
  ultimately show ?thesis by simp
qed

text \<open>The estimate is the fee the relayer expects.\<close>

lemma estimate_expected: "estimateRelayerFee (uint d) (uint b) = int (unat (expected_relay_fee d b))"
proof -
  have "int (unat d * unat b div 10000) = uint d * uint b div 10000"
    by (simp add: zdiv_int)
  moreover have "0 \<le> uint d * uint b" by (intro mult_nonneg_nonneg) simp_all
  ultimately show ?thesis by (simp add: unat_expected_relay_fee estimateRelayerFee_def js_quot_def)
qed

text \<open>The text of the estimate is read by \<open>str::parse\<close>.\<close>

lemma to_radix_decimal: "to_radix 10 n = to_decimal n"
proof (induction n rule: less_induct)
  case (less n)
  have digit: "d < 10 \<Longrightarrow> radix_digit d = digit_char d" for d by (simp add: radix_digit_def digit_char_def)
  have "n mod 10 < 10" by simp
  then have "radix_digit (n mod 10) = digit_char (n mod 10)" by (rule digit)
  then show ?case
    using less by (simp add: to_radix.simps [of 10 n] to_decimal.simps [of n] digit)
qed

lemma js_to_string_parse: "parse_u64 (js_to_string 10 (uint n)) = Some n"
  using parse_u64_to_decimal [of n] by (simp add: js_to_string_def to_radix_decimal)

end
