(* ===== verification/VkExport.thy ===== *)
theory VkExport
  imports ClientProver VkCurve
begin

text \<open>
  \<open>scripts/export_vk_rust.js\<close>: the conversion of snarkjs' \<open>verification_key.json\<close> into the constants
  of \<open>vk_constants.rs\<close>. The model stops at the bytes: the text of the Rust file around them is a
  template. An entry that is missing is \<open>undefined\<close>, which throws.
\<close>

record VkJson =
  vk_alpha_1 :: "string list"
  vk_beta_2 :: "string list list"
  vk_gamma_2 :: "string list list"
  vk_delta_2 :: "string list list"
  vk_IC :: "string list list"

text \<open>\<open>for (i < 32) { bytes.unshift(Number(n & 0xffn)); n >>= 8n; }\<close>\<close>

fun unshift_bytes :: "nat \<Rightarrow> int \<Rightarrow> u8 list \<Rightarrow> u8 list" where
  "unshift_bytes 0 n bytes = bytes"
| "unshift_bytes (Suc k) n bytes = unshift_bytes k (drop_bit 8 n) (word_of_int (n AND 0xff) # bytes)"

definition bytes32_of :: "int \<Rightarrow> bytes32" where
  "bytes32_of n = array_of (unshift_bytes 32 n [])"

definition decToBytes32 :: "string \<Rightarrow> bytes32 js" where
  "decToBytes32 decStr = and_then (js_BigInt decStr) (\<lambda>n. Inr (bytes32_of n))"

definition entry :: "'a list \<Rightarrow> nat \<Rightarrow> 'a js" where
  "entry xs i = ok_or TypeError (vec_get xs i)"

definition formatG1 :: "string list \<Rightarrow> G1Point js" where
  "formatG1 point =
     and_then (and_then (entry point 0) decToBytes32) (\<lambda>x.
     and_then (and_then (entry point 1) decToBytes32) (\<lambda>y.
     Inr \<lparr>g1x = x, g1y = y\<rparr>))"

definition formatG2 :: "string list list \<Rightarrow> G2Point js" where
  "formatG2 point =
     and_then (and_then (entry point 0) (\<lambda>p. and_then (entry p 1) decToBytes32)) (\<lambda>x0.
     and_then (and_then (entry point 0) (\<lambda>p. and_then (entry p 0) decToBytes32)) (\<lambda>x1.
     and_then (and_then (entry point 1) (\<lambda>p. and_then (entry p 1) decToBytes32)) (\<lambda>y0.
     and_then (and_then (entry point 1) (\<lambda>p. and_then (entry p 0) decToBytes32)) (\<lambda>y1.
     Inr \<lparr>x_c0 = x0, x_c1 = x1, y_c0 = y0, y_c1 = y1\<rparr>))))"

text \<open>The constant \<open>NUM_PUBLIC_INPUTS\<close> and the key that the written file declares.\<close>

definition export_vk :: "VkJson \<Rightarrow> (int \<times> VerifyingKey) js" where
  "export_vk vk =
     and_then (formatG1 (vk_alpha_1 vk)) (\<lambda>alpha.
     and_then (formatG2 (vk_beta_2 vk)) (\<lambda>beta.
     and_then (formatG2 (vk_gamma_2 vk)) (\<lambda>gamma.
     and_then (formatG2 (vk_delta_2 vk)) (\<lambda>delta.
     and_then (js_map formatG1 (vk_IC vk)) (\<lambda>ic.
     Inr (int (length (vk_IC vk)) - 1,
          \<lparr>raw_alpha_g1 = alpha, raw_beta_g2 = beta, raw_gamma_g2 = gamma, raw_delta_g2 = delta, raw_ic = ic\<rparr>))))))"

subsection \<open>What the exporter writes\<close>

lemma unshift_bytes_eq: "unshift_bytes k n bs = to_be_bytes k (nat (n mod 256 ^ k)) @ bs"
proof (induction k arbitrary: n bs)
  case 0
  show ?case by (simp add: to_be_bytes_def)
next
  case (Suc k)
  then show ?case using be_bytes_step [of k n] by simp
qed

lemma bytes32_of_array [simp]: "bytes32_of (int (array_val b)) = b"
  using bigIntToBytes_array [of b] by (simp add: bytes32_of_def unshift_bytes_eq bigIntToBytes_eq)

lemma decToBytes32_dec32 [simp]: "decToBytes32 (dec32 b) = Inr b"
  by (simp add: decToBytes32_def)

text \<open>With the order the comments state, the exporter writes the points of the key.\<close>

lemma format_text:
  "formatG1 (g1_text p) = Inr p" "formatG2 (g2_text q) = Inr q"
  by (simp_all add: formatG1_def formatG2_def entry_def g1_text_def g2_text_def vec_get_def)

definition vk_text :: "VerifyingKey \<Rightarrow> VkJson" where
  "vk_text k = \<lparr>vk_alpha_1 = g1_text (raw_alpha_g1 k), vk_beta_2 = g2_text (raw_beta_g2 k),
     vk_gamma_2 = g2_text (raw_gamma_g2 k), vk_delta_2 = g2_text (raw_delta_g2 k), vk_IC = map g1_text (raw_ic k)\<rparr>"

lemma export_vk_text: "export_vk (vk_text k) = Inr (int (length (raw_ic k)) - 1, k)"
proof -
  have "js_map formatG1 (map g1_text ps) = Inr ps" for ps
    by (induction ps) (simp_all add: format_text)
  then show ?thesis by (simp add: export_vk_def vk_text_def format_text)
qed

text \<open>The order of snarkjs' own \<open>toObject\<close>, \<open>c0\<close> before \<open>c1\<close>: the text of a point in it is the text of
  the swapped point in the other.\<close>

definition g2_text_c0_first :: "G2Point \<Rightarrow> string list list" where
  "g2_text_c0_first q = [[dec32 (x_c0 q), dec32 (x_c1 q)], [dec32 (y_c0 q), dec32 (y_c1 q)], [''1'', ''0'']]"

lemma g2_text_swap: "g2_text_c0_first q = g2_text (swap_g2 q)"
  by (simp add: g2_text_c0_first_def g2_text_def swap_g2_def)

end
