(* ===== verification/ClientProperties.thy ===== *)
theory ClientProperties
  imports ClientInstances ClientWorker ClientRelayer VkExport VerifierProperties RelayerProperties
begin

text \<open>
  The properties of the client SDK (\<open>client/src\<close>) and of the key exporter
  (\<open>scripts/export_vk_rust.js\<close>), alone and together with the contract, the indexer and the relayer.
\<close>

subsection \<open>From a deposit to a withdrawal\<close>

text \<open>(C4) End to end with the client: take a note that \<open>generateDepositNote\<close> made and whose commitment
  bytes the pool recorded, and a client that inserts the recorded commitments into its own tree, the
  last ones missing if they are fewer than \<open>root_history_size\<close>. It gets a proof of its leaf, and for any
  strkeys and any admissible fee there is an assignment that satisfies the withdraw circuit and whose
  public signals are the inputs the contract builds from the client's root and nullifier hash; the
  input object of \<open>prover.ts\<close>, built where \<open>require\<close> exists, denotes that assignment. If the
  nullifier hash is unspent and the token carries out the payout, the verification of the proof alone
  decides on \<open>withdraw\<close>. Relied on are the laws of the field and of circomlibjs; nothing is assumed of
  snarkjs or of the verifier, which accepts no proof with the compiled key (C10), and the package as
  it is stops before the proof (C14).\<close>

theorem client_note_satisfies_circuit:
  assumes fr: "fr_laws h" "fr_constants h" and law: "hasher_laws h hs" and pool: "pool_rep h e p"
    and gen: "generateDepositNote (Some hs) random1 random2 = Inr nt"
    and mine: "i < j" "j \<le> length (p_leaves p)" "p_leaves p ! i = array_of (bigIntToBytes (dn_commitment nt))"
    and lag: "length (p_leaves p) < j + unat (p_history_size p)"
    and unspent: "array_of (bigIntToBytes (dn_nullifierHash nt)) \<notin> p_spent p"
    and fee: "0 \<le> sint fee" "sint fee \<le> sint (p_max_fee p)"
    and strkeys: "strkey_ok recipient" "strkey_ok relayer"
    and funds: "a_payout h (Address recipient) (Address relayer) fee p = Some l"
  shows "\<exists>t0 t pf root n inputs ci s. client_tree_new (Some hs) (unat (p_depth p)) = Inr t0 \<and>
    insert_all (client_insert_only hs) (map leaf_int (take j (p_leaves p))) t0 = Inr t \<and>
    getProof (int i) t = Inr pf \<and>
    root = array_of (bigIntToBytes (cp_root pf)) \<and> n = array_of (bigIntToBytes (dn_nullifierHash nt)) \<and>
    build_public_inputs h root n (Address recipient) (Address relayer) fee = Inr inputs \<and>
    circuit_input (Some (host_sha256 h)) \<lparr>wi_note = nt, wi_merkleProof = pf, wi_recipient = recipient, wi_relayer = relayer,
      wi_fee = sint fee\<rparr> = Inr ci \<and> input_denotes h ci s \<and>
    circuit_withdraw (poseidon1 h) (poseidon2 h) (unat (p_depth p)) s \<and> circuit_public s = map (bytes_to_fr h) inputs \<and>
    (\<forall>proof. if verify_proof vk h proof inputs
       then \<exists>e'. withdraw vk h proof root n (Address recipient) (Address relayer) fee e = Inr e'
       else withdraw vk h proof root n (Address recipient) (Address relayer) fee e = Inl (Err InvalidProof))"
proof -
  obtain t0 t where tree: "client_tree_new (Some hs) (unat (p_depth p)) = Inr t0"
    "insert_all (client_insert_only hs) (map leaf_int (take j (p_leaves p))) t0 = Inr t"
    "ctree_rep hs (unat (p_depth p)) t (map leaf_int (take j (p_leaves p)))"
    using client_tree_of_leaves [OF law, of "unat (p_depth p)" "take j (p_leaves p)"] by blast
  from client_withdrawal [OF fr law pool gen mine lag tree(3) unspent fee strkeys funds, of vk] tree(1,2)
  show ?thesis by metis
qed

lemma client_note_satisfies_circuit_witness:
  "\<exists>e t pf root n inputs ci s e'.
    deposit bn_host demo_auth alice (array_of (bigIntToBytes (dn_commitment client_note))) (demo_env bn_host) = Inr e \<and>
    getProof 0 t = Inr pf \<and> root = array_of (bigIntToBytes (cp_root pf)) \<and>
    n = array_of (bigIntToBytes (dn_nullifierHash client_note)) \<and>
    build_public_inputs bn_host root n (Address ''GBOB'') (Address ''GCAROL'') 3 = Inr inputs \<and>
    circuit_input (Some (host_sha256 bn_host)) \<lparr>wi_note = client_note, wi_merkleProof = pf, wi_recipient = ''GBOB'',
      wi_relayer = ''GCAROL'', wi_fee = 3\<rparr> = Inr ci \<and> input_denotes bn_host ci s \<and>
    circuit_withdraw (poseidon1 bn_host) (poseidon2 bn_host) 2 s \<and> circuit_public s = map (bytes_to_fr bn_host) inputs \<and>
    withdraw True bn_host demo_proof root n (Address ''GBOB'') (Address ''GCAROL'') 3 e = Inr e'"
proof -
  obtain e where e: "deposit bn_host demo_auth alice (array_of (bigIntToBytes (dn_commitment client_note))) (demo_env bn_host) = Inr e"
    "pool_rep bn_host e client_pool" using client_deposited by blast
  obtain l where l: "a_payout bn_host (Address ''GBOB'') (Address ''GCAROL'') 3 client_pool = Some l" using client_pay by blast
  have p: "p_depth client_pool = 2" "p_history_size client_pool = 3" "p_max_fee client_pool = 150" "p_spent client_pool = {}"
    "p_leaves client_pool = [array_of (bigIntToBytes (dn_commitment client_note))]"
    by (simp_all add: client_pool_def)
  obtain t pf root n inputs ci s where found: "getProof 0 t = Inr pf" "root = array_of (bigIntToBytes (cp_root pf))"
      "n = array_of (bigIntToBytes (dn_nullifierHash client_note))"
      "build_public_inputs bn_host root n (Address ''GBOB'') (Address ''GCAROL'') 3 = Inr inputs"
      "circuit_input (Some (host_sha256 bn_host)) \<lparr>wi_note = client_note, wi_merkleProof = pf, wi_recipient = ''GBOB'',
         wi_relayer = ''GCAROL'', wi_fee = 3\<rparr> = Inr ci" "input_denotes bn_host ci s"
      "circuit_withdraw (poseidon1 bn_host) (poseidon2 bn_host) 2 s" "circuit_public s = map (bytes_to_fr bn_host) inputs"
    and decides: "\<And>proof. if verify_proof True bn_host proof inputs
       then \<exists>e'. withdraw True bn_host proof root n (Address ''GBOB'') (Address ''GCAROL'') 3 e = Inr e'
       else withdraw True bn_host proof root n (Address ''GBOB'') (Address ''GCAROL'') 3 e = Inl (Err InvalidProof)"
    using client_note_satisfies_circuit [OF bn_fr_laws bn_fr_constants host_hasher_laws e(2) client_note_generated,
        where i = 0 and j = 1 and fee = 3 and l = l and vk = True, OF _ _ _ _ _ _ _ demo_strkeys l]
    by (simp add: p) blast
  have "verify_proof True bn_host demo_proof inputs"
    using found(7,8) bn_verify [OF five_inputs [OF found(4)]] by metis
  with decides [of demo_proof] obtain e' where
    paid: "withdraw True bn_host demo_proof root n (Address ''GBOB'') (Address ''GCAROL'') 3 e = Inr e'" by auto
  show ?thesis by (intro exI conjI) (rule e(1) found paid)+
qed

text \<open>(C13) The client's tree mirrors the chain: in every reachable state of the pool, a client that inserts
  the commitments of the deposit events into its own tree ends with the root the contract
  returns, byte for byte.\<close>

theorem client_tree_mirrors_contract:
  assumes law: "hasher_laws h hs" and reach: "pool_reach vk h ext e" and depth: "get_tree_depth e = Inr d"
  shows "\<exists>t0 t. client_tree_new (Some hs) (unat d) = Inr t0 \<and>
    insert_all (client_insert_only hs) (map (bytesToBigInt \<circ> array_list) (map fst (deposits_of (published e)))) t0 = Inr t \<and>
    get_root h e = Inr (array_of (bigIntToBytes (getRoot t)))"
proof -
  obtain p l0 where rep: "pool_rep h e p" and a: "a_reach vk h ext l0 p"
    using pool_reach_simulates [OF reach] by blast
  have d: "p_depth p = d" using depth by (simp add: pool_reads [OF rep])
  have leaves: "map fst (deposits_of (published e)) = p_leaves p"
    using a_reach_log [OF a] by (simp add: log_ok_def pool_repD(6) [OF rep])
  have ints: "bytesToBigInt \<circ> array_list = leaf_int" by (simp add: fun_eq_iff leaf_int_def)
  obtain t0 t where "client_tree_new (Some hs) (unat d) = Inr t0"
    "insert_all (client_insert_only hs) (map leaf_int (p_leaves p)) t0 = Inr t"
    "getRoot t = leaf_int (tree_root h (unat d) (p_leaves p))"
    using client_tree_of_leaves [OF law] by blast
  then show ?thesis
    unfolding leaves ints using queries_rep(1) [OF rep] by (simp add: d)
qed

lemma client_tree_mirrors_contract_witness:
  "\<exists>t0 t. client_tree_new (Some (host_hasher demo_host)) 2 = Inr t0 \<and>
    insert_all (client_insert_only (host_hasher demo_host))
      (map (bytesToBigInt \<circ> array_list) (map fst (deposits_of (published demo_env_deposited)))) t0 = Inr t \<and>
    get_root demo_host demo_env_deposited = Inr (array_of (bigIntToBytes (getRoot t)))"
proof -
  have "pool_reach True demo_host (\<lambda>_ _. False) demo_env_deposited"
    by (rule pool_reach.step [OF demo_reach pool_step.deposit [OF _ demo_deposit(1)]]) (simp add: demo_auth_def)
  moreover have "get_tree_depth demo_env_deposited = Inr 2"
    using pool_reads [OF demo_deposit(2)] by (simp add: demo_deposited_def)
  ultimately show ?thesis
    using client_tree_mirrors_contract [OF host_hasher_laws, of True demo_host "\<lambda>_ _. False" demo_env_deposited 2] by simp
qed

text \<open>Where \<open>require\<close> exists: one input for snarkjs, on the main thread and in the worker.\<close>

lemma bound_inputs_agree:
  assumes fr: "fr_laws h" and strkeys: "strkey_ok recipient" "strkey_ok relayer" and fee: "0 \<le> sint fee"
    and inp: "inp = \<lparr>wi_note = nt, wi_merkleProof = pf, wi_recipient = recipient, wi_relayer = relayer, wi_fee = sint fee\<rparr>"
    and root: "cp_root pf = bytesToBigInt (array_list root)" and n: "dn_nullifierHash nt = bytesToBigInt (array_list n)"
  shows "\<exists>ci inputs. build_public_inputs h root n (Address recipient) (Address relayer) fee = Inr inputs \<and>
      list_all2 (text_denotes h) [ci_root ci, ci_nullifierHash ci, ci_recipient ci, ci_relayer ci, ci_fee ci]
        (map (bytes_to_fr h) inputs) \<and>
      generateWithdrawalProof (Some (host_sha256 h)) fullProve inp wasm zkey =
        map_sum id (\<lambda>res. \<lparr>pr_proof = pr_proof res, pr_publicSignals = pr_publicSignals res\<rparr>) (fullProve ci wasm zkey) \<and>
      (case generateProof (Some (host_sha256 h)) fullProve has_worker inp wasm zkey w of
         (Inr outcome, w') \<Rightarrow> w' = w \<and> outcome = generateWithdrawalProof (Some (host_sha256 h)) fullProve inp wasm zkey
       | (Inl rid, w') \<Rightarrow> rid \<in> fst ` set (wp_pending w') \<and>
           pl_circuitInput (gr_payload (last (wp_posted w'))) = ci \<and> gr_id (last (wp_posted w')) = rid)"
proof -
  let ?inputs = "contract_inputs h root n recipient relayer fee"
  note addresses = client_address(2) [OF strkeys(1), of h] client_address(2) [OF strkeys(2), of h]
  obtain ci where ci: "circuit_input (Some (host_sha256 h)) inp = Inr ci"
    and texts: "ci_root ci = js_to_string 10 (leaf_int root)" "ci_nullifierHash ci = js_to_string 10 (leaf_int n)"
      "ci_recipient ci = js_to_string 10 (leaf_int (host_sha256 h (utf8_encode recipient)) mod int bn254_r)"
      "ci_relayer ci = js_to_string 10 (leaf_int (host_sha256 h (utf8_encode relayer)) mod int bn254_r)"
      "ci_fee ci = js_to_string 10 (leaf_int (fee_to_bytes fee))"
    unfolding inp by (simp add: circuit_input_def addresses root n leaf_int_def [symmetric] fee_to_bytes_leaf_int [OF fee])
  have "list_all2 (text_denotes h) [ci_root ci, ci_nullifierHash ci, ci_recipient ci, ci_relayer ci, ci_fee ci]
      (map (bytes_to_fr h) ?inputs)"
    by (simp add: texts contract_inputs_def leaf_int_denotes address_denotes [OF fr])
  moreover have "generateWithdrawalProof (Some (host_sha256 h)) fullProve inp wasm zkey =
      map_sum id (\<lambda>res. \<lparr>pr_proof = pr_proof res, pr_publicSignals = pr_publicSignals res\<rparr>) (fullProve ci wasm zkey)"
    by (cases "fullProve ci wasm zkey") (simp_all add: generateWithdrawalProof_def ci)
  moreover have "case generateProof (Some (host_sha256 h)) fullProve has_worker inp wasm zkey w of
      (Inr outcome, w') \<Rightarrow> w' = w \<and> outcome = generateWithdrawalProof (Some (host_sha256 h)) fullProve inp wasm zkey
    | (Inl rid, w') \<Rightarrow> rid \<in> fst ` set (wp_pending w') \<and>
        pl_circuitInput (gr_payload (last (wp_posted w'))) = ci \<and> gr_id (last (wp_posted w')) = rid"
    by (simp add: generateProof_def buildCircuitInput_eq ci generateInWorker_def generateOnMainThread_def
        generateWithdrawalProof_def Let_def fst_update)
  ultimately show ?thesis
    using build_public_inputs_client [OF strkeys, of h root n fee] by (intro exI [of _ ci] exI [of _ ?inputs] conjI)
qed

text \<open>(C14) The public inputs of the client, in the package and where \<open>require\<close> exists. In an ES module
  \<open>addressToField\<close> throws, so \<open>generateWithdrawalProof\<close> and \<open>generateProof\<close> of the worker end in a
  \<open>ReferenceError\<close> before snarkjs or the worker sees anything. With a bound \<open>require\<close> both hand snarkjs
  the same input, whose five public texts denote, in order, the field elements of the inputs the
  contract builds from the same arguments; the worker counts the request as pending.
  \<open>prepareWithdrawal\<close> ends in an error in both cases.\<close>

theorem client_public_inputs_agree:
  assumes fr: "fr_laws h" and strkeys: "strkey_ok recipient" "strkey_ok relayer" and fee: "0 \<le> sint fee"
    and inp: "inp = \<lparr>wi_note = nt, wi_merkleProof = pf, wi_recipient = recipient, wi_relayer = relayer, wi_fee = sint fee\<rparr>"
    and root: "cp_root pf = bytesToBigInt (array_list root)" and n: "dn_nullifierHash nt = bytesToBigInt (array_list n)"
  shows "generateWithdrawalProof None fullProve inp wasm zkey = Inl (Err ReferenceError) \<and>
    generateProof None fullProve has_worker inp wasm zkey w = (Inr (Inl (Err ReferenceError)), w) \<and>
    (\<exists>ci inputs. build_public_inputs h root n (Address recipient) (Address relayer) fee = Inr inputs \<and>
      list_all2 (text_denotes h) [ci_root ci, ci_nullifierHash ci, ci_recipient ci, ci_relayer ci, ci_fee ci]
        (map (bytes_to_fr h) inputs) \<and>
      generateWithdrawalProof (Some (host_sha256 h)) fullProve inp wasm zkey =
        map_sum id (\<lambda>res. \<lparr>pr_proof = pr_proof res, pr_publicSignals = pr_publicSignals res\<rparr>) (fullProve ci wasm zkey) \<and>
      (case generateProof (Some (host_sha256 h)) fullProve has_worker inp wasm zkey w of
         (Inr outcome, w') \<Rightarrow> w' = w \<and> outcome = generateWithdrawalProof (Some (host_sha256 h)) fullProve inp wasm zkey
       | (Inl rid, w') \<Rightarrow> rid \<in> fst ` set (wp_pending w') \<and>
           pl_circuitInput (gr_payload (last (wp_posted w'))) = ci \<and> gr_id (last (wp_posted w')) = rid)) \<and>
    (\<forall>require. \<exists>e. prepareWithdrawal require fullProve nt pf recipient relayer (sint fee) sdk = Inl e)"
proof -
  have "circuit_input None inp = Inl (Err ReferenceError)"
    by (simp add: circuit_input_def addressToField_def addressToFieldBytes_def)
  then have "generateWithdrawalProof None fullProve inp wasm zkey = Inl (Err ReferenceError)"
    "generateProof None fullProve has_worker inp wasm zkey w = (Inr (Inl (Err ReferenceError)), w)"
    by (simp_all add: generateWithdrawalProof_def generateProof_def buildCircuitInput_eq)
  moreover have "\<exists>e. prepareWithdrawal require fullProve nt pf recipient relayer (sint fee) sdk = Inl e" for require
    using prepareWithdrawal_fails [of require fullProve nt pf recipient relayer "sint fee" sdk]
    by (cases "prepareWithdrawal require fullProve nt pf recipient relayer (sint fee) sdk") auto
  ultimately show ?thesis
    using bound_inputs_agree [OF assms, of fullProve wasm zkey w has_worker] by (intro conjI allI)
qed

lemma client_public_inputs_agree_witness:
  "let root = be_array 7 :: bytes32; n = be_array 5 :: bytes32; nt = client_note\<lparr>dn_nullifierHash := bytesToBigInt (array_list n)\<rparr>;
       pf = \<lparr>cp_pathElements = [], cp_pathIndices = [], cp_root = bytesToBigInt (array_list root), cp_leafIndex = 0\<rparr>;
       inp = \<lparr>wi_note = nt, wi_merkleProof = pf, wi_recipient = ''GBOB'', wi_relayer = ''GCAROL'', wi_fee = sint (3 :: i128)\<rparr>
   in generateWithdrawalProof None ideal_prover inp ''a'' ''b'' = Inl (Err ReferenceError) \<and>
      (\<exists>(ci :: CircuitInput) inputs. build_public_inputs demo_host root n (Address ''GBOB'') (Address ''GCAROL'') 3 = Inr inputs \<and>
        list_all2 (text_denotes demo_host) [ci_root ci, ci_nullifierHash ci, ci_recipient ci, ci_relayer ci, ci_fee ci]
          (map (bytes_to_fr demo_host) inputs)) \<and>
      generateWithdrawalProof (Some (host_sha256 demo_host)) ideal_prover inp ''a'' ''b'' =
        Inr \<lparr>pr_proof = proof_text zero_g1 zero_g2 zero_g1, pr_publicSignals = []\<rparr>"
proof -
  let ?nt = "client_note\<lparr>dn_nullifierHash := bytesToBigInt (array_list (be_array 5 :: bytes32))\<rparr>"
  let ?pf = "\<lparr>cp_pathElements = [], cp_pathIndices = [], cp_root = bytesToBigInt (array_list (be_array 7 :: bytes32)), cp_leafIndex = 0\<rparr>"
  have fee: "0 \<le> sint (3 :: i128)" by simp
  have "cp_root ?pf = bytesToBigInt (array_list (be_array 7 :: bytes32))"
    "dn_nullifierHash ?nt = bytesToBigInt (array_list (be_array 5 :: bytes32))" by simp_all
  note applied = client_public_inputs_agree [OF demo_fr_laws demo_strkeys fee HOL.refl this, of ideal_prover "''a''" "''b''" True
      "worker_prover_new None None" "sdk_new client_config"]
  have prover: "map_sum id (\<lambda>res. \<lparr>pr_proof = pr_proof res, pr_publicSignals = pr_publicSignals res\<rparr>) (ideal_prover ci wasm zkey) =
      Inr \<lparr>pr_proof = proof_text zero_g1 zero_g2 zero_g1, pr_publicSignals = []\<rparr>" for ci wasm zkey
    by (simp add: ideal_prover_def)
  from applied [unfolded prover] show ?thesis unfolding Let_def by blast
qed

subsection \<open>The encodings of points\<close>

text \<open>(C19) Round trip of a proof: \<open>encodeProofForContract\<close> turns the text of three points with the imaginary
  part of each \<open>Fq2\<close> element first, as its comment says snarkjs prints them, into the 256 bytes that
  \<open>decode_proof\<close> reads as these points; from text with the real part first it makes the bytes of
  another point \<open>B\<close>, the one with the parts exchanged.\<close>

theorem proof_encoding_roundtrip:
  shows "encodeProofForContract (proof_text a b c) = Inr (array_list (encode_proof a b c)) \<and>
    decode_proof h (encode_proof a b c) =
      (case (decode_g1 h a, decode_g2 h b, decode_g1 h c) of (Some a', Some b', Some c') \<Rightarrow> Some (a', b', c') | _ \<Rightarrow> None) \<and>
    encodeProofForContract \<lparr>pi_a = g1_text a, pi_b = g2_text_c0_first b, pi_c = g1_text c\<rparr> =
      Inr (array_list (encode_proof a (swap_g2 b) c))"
  using encode_proof_text [of a b c] encode_proof_text [of a "swap_g2 b" c]
  by (simp add: decode_encode_proof g2_text_swap proof_text_def)

text \<open>(C20) Where the unusable key comes from: it is what \<open>export_vk_rust.js\<close> writes for a key whose points all
  lie on the curves when snarkjs prints the real part of an \<open>Fq2\<close> element first. The script takes
  the first entry for the imaginary part, so the three \<open>G2\<close> points of the compiled key have their
  parts exchanged and leave the twist.\<close>

theorem compiled_key_is_swapped_export:
  shows "\<exists>key. export_vk ((vk_text key)\<lparr>vk_beta_2 := g2_text_c0_first (raw_beta_g2 key),
        vk_gamma_2 := g2_text_c0_first (raw_gamma_g2 key), vk_delta_2 := g2_text_c0_first (raw_delta_g2 key)\<rparr>) =
      Inr (int NUM_PUBLIC_INPUTS, verification_key) \<and>
    g1_point_ok (raw_alpha_g1 key) \<and> list_all g1_point_ok (raw_ic key) \<and>
    list_all g2_point_ok [raw_beta_g2 key, raw_gamma_g2 key, raw_delta_g2 key] \<and>
    list_all (\<lambda>q. \<not> g2_point_ok q) [raw_beta_g2 verification_key, raw_gamma_g2 verification_key, raw_delta_g2 verification_key]"
proof -
  let ?v = verification_key
  let ?key = "?v\<lparr>raw_beta_g2 := swap_g2 (raw_beta_g2 ?v), raw_gamma_g2 := swap_g2 (raw_gamma_g2 ?v), raw_delta_g2 := swap_g2 (raw_delta_g2 ?v)\<rparr>"
  have swap: "swap_g2 (swap_g2 q) = q" for q by (simp add: swap_g2_def)
  have "(vk_text ?key)\<lparr>vk_beta_2 := g2_text_c0_first (raw_beta_g2 ?key), vk_gamma_2 := g2_text_c0_first (raw_gamma_g2 ?key),
      vk_delta_2 := g2_text_c0_first (raw_delta_g2 ?key)\<rparr> = vk_text ?v"
    by (simp add: vk_text_def g2_text_swap swap)
  moreover have "length (raw_ic ?v) = Suc NUM_PUBLIC_INPUTS" by (simp add: verification_key_def NUM_PUBLIC_INPUTS_def)
  moreover have "g1_point_ok (raw_alpha_g1 ?v)" "list_all g1_point_ok (raw_ic ?v)"
    "list_all (\<lambda>q. \<not> g2_point_ok q \<and> g2_point_ok (swap_g2 q)) [raw_beta_g2 ?v, raw_gamma_g2 ?v, raw_delta_g2 ?v]"
    using compiled_key_points by blast+
  ultimately show ?thesis by (intro exI [of _ ?key]) (simp add: export_vk_text)
qed

subsection \<open>The wallet\<close>

text \<open>(C37) Round trip of a backup: the note of a deposit, after its deposit and its withdrawal are
  confirmed, is exported with any password of at least eight characters, and any store that
  imports the backup with that password gets back the same note with its pool, time and leaf
  index, but as unspent: the backup does not carry the mark.\<close>

theorem wallet_backup_roundtrip:
  assumes law: "aead_law k" and pw: "8 \<le> length password" and nonneg: "\<forall>bs. 0 \<le> to_object hs bs"
    and dep: "prepareDeposit (Some hs) random1 random2 now sdk = Inr (res, sdk1)"
    and sdk2: "sdk2 = finalizeWithdrawal (dr_commitmentHex res) (finalizeDeposit (dr_commitmentHex res) i sdk1)"
  shows "\<exists>backup store'. exportNote k salt iv (dr_commitmentHex res) password (sdk_noteStore sdk2) = Inr backup \<and>
    importNote k (Some hs) backup password store = Inr (dr_note res, store') \<and>
    store_get (dr_commitmentHex res) store' = Some \<lparr>sn_note = dr_note res, sn_poolId = mc_contractId (sdk_config sdk),
      sn_depositTimestamp = now, sn_leafIndex = Some i, sn_spent = False\<rparr> \<and>
    (\<forall>key. key \<noteq> dr_commitmentHex res \<longrightarrow> store_get key store' = store_get key store)"
proof -
  note gen = deposit_to_withdrawal [OF dep, of i, folded sdk2]
  have ok: "note_ok (Some hs) (dr_note res)" using generated_note_ok [OF nonneg] gen by blast
  from gen import_export [OF law pw, of "dr_commitmentHex res" "sdk_noteStore sdk2" _ "Some hs" salt iv store] ok
  show ?thesis by (fastforce simp: store_get_def update_conv')
qed

text \<open>Node's cryptography with the identity as cipher and a constant tag.\<close>

definition demo_node_crypto :: node_crypto where
  "demo_node_crypto = \<lparr>pbkdf2_sha256 = (\<lambda>_ salt _ _. salt), aes_gcm_seal = (\<lambda>_ _ text. (text, [1])),
     aes_gcm_open = (\<lambda>_ _ tag text. if tag = [1] then Some text else None)\<rparr>"

lemma demo_aead: "aead_law demo_node_crypto"
  by (simp add: aead_law_def demo_node_crypto_def)

lemma demo_hasher_nonneg: "\<forall>bs. 0 \<le> to_object (host_hasher demo_host) bs"
  by (simp add: host_hasher_def bytesToBigInt_def be_bigint_eq)

lemma demo_prepared: "\<exists>res sdk1. prepareDeposit (Some (host_hasher demo_host)) [2] [3] 7 (sdk_new client_config) = Inr (res, sdk1)"
  by (simp add: prepareDeposit_def generateDepositNote_def Let_def)

lemma wallet_backup_roundtrip_witness:
  "\<exists>res sdk1 backup store'. prepareDeposit (Some (host_hasher demo_host)) [2] [3] 7 (sdk_new client_config) = Inr (res, sdk1) \<and>
    exportNote demo_node_crypto [9] [8] (dr_commitmentHex res) ''password''
      (sdk_noteStore (finalizeWithdrawal (dr_commitmentHex res) (finalizeDeposit (dr_commitmentHex res) 4 sdk1))) = Inr backup \<and>
    importNote demo_node_crypto (Some (host_hasher demo_host)) backup ''password'' [] = Inr (dr_note res, store')"
proof -
  obtain res sdk1 where dep: "prepareDeposit (Some (host_hasher demo_host)) [2] [3] 7 (sdk_new client_config) = Inr (res, sdk1)"
    using demo_prepared by blast
  from wallet_backup_roundtrip [OF demo_aead _ demo_hasher_nonneg dep HOL.refl,
      where password = "''password''" and i = 4 and salt = "[9]" and iv = "[8]" and store = "[]"] dep
  show ?thesis by fastforce
qed

text \<open>A wallet loses no note: whatever the user does with the SDK, backups written by others
  included, every note lies under the text of its own commitment and only there, no call removes an
  entry, and with a password of at least eight characters \<open>exportAll\<close> makes one backup per note.\<close>

lemma wallet_keeps_notes:
  assumes "sdk_reach k ph cfg sdk"
  shows "distinct (map fst (sdk_noteStore sdk)) \<and>
    (\<forall>(key, stored)\<in>set (sdk_noteStore sdk). key = note_key (sn_note stored)) \<and>
    (\<forall>sdk'. sdk_step k ph sdk sdk' \<longrightarrow> set (map fst (sdk_noteStore sdk)) \<subseteq> set (map fst (sdk_noteStore sdk'))) \<and>
    (\<forall>password. 8 \<le> length password \<longrightarrow>
      (\<exists>backups. exportAll k random password (sdk_noteStore sdk) = Inr backups \<and> length backups = length (getAll (sdk_noteStore sdk))))"
  using sdk_reach_ok [OF assms] sdk_step_ok(2) [OF _ sdk_reach_ok [OF assms]] exportAll_total
  by (simp add: store_ok_def getAll_def)

subsection \<open>The servers the client talks to\<close>

text \<open>(C36) The client cannot read what the indexer serves: \<open>parseMerklePathResponse\<close> throws on every
  answer of \<open>GET /merkle-path\<close>, because the indexer names the elements \<open>path_elements\<close>
  and the client looks for \<open>pathElements\<close>.\<close>

theorem served_path_rejected:
  assumes "merkle_path k q s = Inr r"
  shows "parseMerklePathResponse (http_body r) \<in> {Inl (Err SyntaxError), Inl (Err TypeError)}"
  by (rule parse_without_elements [OF merkle_path_keys [OF assms]])

lemma served_path_rejected_witness:
  "\<exists>r. merkle_path demo_codec (hex_encode demo_codec (array_list demo_commitment)) demo_state1 = Inr r \<and> http_status r = 200 \<and>
    parseMerklePathResponse (http_body r) \<in> {Inl (Err SyntaxError), Inl (Err TypeError)}"
proof -
  obtain r where r: "merkle_path demo_codec (hex_encode demo_codec (array_list demo_commitment)) demo_state1 = Inr r" "http_status r = 200"
    using served_path [OF demo_hex_laws demo_state1_rep [unfolded state_rep_def, THEN conjunct1], of demo_commitment] by (auto simp: tree_capacity_def)
  from served_path_rejected [OF r(1)] r show ?thesis by blast
qed

text \<open>A relay request of the client never succeeds: the relayer reads the request as the client wrote
  it, its placeholder of a submission fails, it forgets the request, and \<open>submitRelayRequest\<close> reports
  the status alone, the reason the relayer gave being dropped.\<close>

lemma relay_request_never_succeeds:
  assumes law: "hex_length_law k" and plain: "request_plain rq"
    and served: "\<And>text n s'. serve_relay answer k text s = Inr (n, s') \<Longrightarrow> fetch (endpoint @ ''/relay'') text = Inr (n, body n)"
  shows "\<exists>n\<in>{400, 409, 429, 500}. serve_relay answer k (json_stringify (relay_request_record rq)) s = Inr (n, s) \<and>
    submitRelayRequest fetch endpoint rq = Inr (JObject [(''success'', JBool False),
      (''error'', JString (''Relayer returned HTTP '' @ js_to_string 10 (int n)))])"
proof -
  obtain v where v: "json_parse (json_stringify (relay_request_record rq)) = Inr v" "read_relay_request v = Some (as_relay_request rq)"
    using relay_request_read [OF plain] by blast
  obtain r where r: "handle_relay answer k (as_relay_request rq) s = Inr (r, s)" "rs_status r \<in> {400, 409, 429, 500}"
    using relay_handler_never_succeeds [OF law] by blast
  have s: "serve_relay answer k (json_stringify (relay_request_record rq)) s = Inr (rs_status r, s)"
    by (simp add: serve_relay_def v r)
  then have "submitRelayRequest fetch endpoint rq = Inr (JObject [(''success'', JBool False),
      (''error'', JString (''Relayer returned HTTP '' @ js_to_string 10 (int (rs_status r))))])"
    using r(2) by (auto simp: submitRelayRequest_def served)
  with s r(2) show ?thesis by (intro bexI [of _ "rs_status r"]) simp_all
qed

definition demo_client_request :: ClientRelayRequest where
  "demo_client_request = \<lparr>crq_proofHex = [], crq_rootHex = ''00'', crq_nullifierHashHex = ''01'', crq_recipient = ''GBOB'',
     crq_fee = ''50'', crq_poolContractId = ''CPOOL''\<rparr>"

definition demo_fetch :: fetch where
  "demo_fetch url text = (case serve_relay (Health None) demo_crates text demo_relayer of
     Inr (n, s') \<Rightarrow> Inr (n, ''{}'') | Inl _ \<Rightarrow> Inl (Err TypeError))"

text \<open>The cheapest relayer is the one whose estimated fee is least, and the text of that fee, with an
  otherwise well-formed request, is what \<open>validate_relay_request\<close> accepts.\<close>

lemma cheapest_fee_accepted:
  assumes pick: "selectCheapestRelayer relayers = Some r" "cri_feeBps r = uint bps" and bps: "unat bps \<le> 10000"
    and ok: "validate_hex k pf 256 = Inr a" "validate_hex k rt 32 = Inr b" "validate_hex k nf 32 = Inr c"
      "public_key_from_string k rc \<noteq> None" "pool \<noteq> []"
  shows "\<forall>q\<in>set relayers. cri_active q \<longrightarrow> estimateRelayerFee (uint d) (cri_feeBps r) \<le> estimateRelayerFee (uint d) (cri_feeBps q)"
    "validate_relay_request k pf rt nf rc (js_to_string 10 (estimateRelayerFee (uint d) (cri_feeBps r))) pool bps d = Inr ()"
proof -
  show "\<forall>q\<in>set relayers. cri_active q \<longrightarrow> estimateRelayerFee (uint d) (cri_feeBps r) \<le> estimateRelayerFee (uint d) (cri_feeBps q)"
  proof (intro ballI impI)
    fix q assume "q \<in> set relayers" "cri_active q"
    then have "cri_feeBps r \<le> cri_feeBps q" using selectCheapest_spec [of relayers] pick(1) by simp
    moreover have "0 \<le> cri_feeBps r" by (simp add: pick(2))
    ultimately have "uint d * cri_feeBps r \<le> uint d * cri_feeBps q" "0 \<le> uint d * cri_feeBps r" "0 \<le> uint d * cri_feeBps q"
      by (simp_all add: mult_left_mono)
    then show "estimateRelayerFee (uint d) (cri_feeBps r) \<le> estimateRelayerFee (uint d) (cri_feeBps q)"
      by (simp add: estimateRelayerFee_def js_quot_def zdiv_mono1)
  qed
  let ?n = "ucast (expected_relay_fee d bps) :: u64"
  have le: "unat d * unat bps div 10000 \<le> unat d"
    using mult_le_mono2 [OF bps, of "unat d"] by linarith
  moreover have "unat d < 2 ^ 64" using unsigned_less [of d, where ?'a = nat] by simp
  ultimately have n: "unat ?n = unat d * unat bps div 10000"
    by (simp add: unsigned_ucast_eq take_bit_nat_eq_self unat_expected_relay_fee)
  then have "estimateRelayerFee (uint d) (cri_feeBps r) = uint ?n"
    unfolding pick(2) estimate_expected by (metis of_nat_unat unat_expected_relay_fee)
  then have "parse_u64 (js_to_string 10 (estimateRelayerFee (uint d) (cri_feeBps r))) = Some ?n" by (simp add: js_to_string_parse)
  with ok n le show "validate_relay_request k pf rt nf rc (js_to_string 10 (estimateRelayerFee (uint d) (cri_feeBps r))) pool bps d = Inr ()"
    unfolding validate_relay_request_spec [OF bps] by auto
qed

subsection \<open>Proofs made in a worker\<close>

text \<open>(C38) A promise of the worker prover settles at most once and is never lost: however calls, messages,
  errors, timers and \<open>terminate\<close> interleave, each request is either pending with its timer set and not
  settled, or settled with its timer cleared and off the map; an outcome never changes; the
  timer of a pending request settles it, and \<open>terminate\<close> settles every request.\<close>

theorem worker_settles_once:
  assumes steps: "worker_steps (worker_prover_new url limit) w" and n: "1 \<le> n" "n \<le> wp_requestCounter w"
  shows "(if request_id n \<in> wp_timers w
      then request_id n \<in> fst ` set (wp_pending w) \<and> wp_settled w (request_id n) = None \<and>
        wp_settled (ontimeout (request_id n) w) (request_id n) = Some (Inl (Err (ProofTimeout (wp_timeout w))))
      else request_id n \<notin> fst ` set (wp_pending w) \<and> wp_settled w (request_id n) \<noteq> None) \<and>
    (\<forall>w' outcome. worker_steps w w' \<longrightarrow> wp_settled w (request_id n) = Some outcome \<longrightarrow>
      wp_settled w' (request_id n) = Some outcome) \<and>
    wp_settled (terminate w) (request_id n) \<noteq> None"
proof -
  have inv: "worker_inv w" using worker_steps_inv [OF steps worker_inv_new] by blast
  have rid: "request_id n \<in> request_id ` {1..wp_requestCounter w}" using n by simp
  have "request_id n \<in> dom (wp_settled (terminate w))" unfolding terminate_drains(2) [OF inv] by (rule rid)
  moreover have "wp_settled w' (request_id n) = Some outcome"
    if "worker_steps w w'" "wp_settled w (request_id n) = Some outcome" for w' outcome
    using worker_steps_inv [OF that(1) inv] that(2) by (metis domI map_le_def)
  moreover have "request_id n \<in> fst ` set (wp_pending w) \<longleftrightarrow> wp_settled w (request_id n) = None"
    using inv rid unfolding worker_inv_def by blast
  moreover have "wp_timers w = fst ` set (wp_pending w)" using inv by (simp add: worker_inv_def)
  moreover have "wp_settled w (request_id n) = None \<Longrightarrow>
      wp_settled (ontimeout (request_id n) w) (request_id n) = Some (Inl (Err (ProofTimeout (wp_timeout w))))"
    by (simp add: ontimeout_def settle_def Let_def)
  ultimately show ?thesis by auto
qed

definition demo_circuit_input :: CircuitInput where
  "demo_circuit_input = \<lparr>ci_root = ''1'', ci_nullifierHash = ''2'', ci_recipient = ''3'', ci_relayer = ''4'', ci_fee = ''5'',
     ci_secret = ''6'', ci_nullifier = ''7'', ci_pathElements = [], ci_pathIndices = []\<rparr>"

lemma worker_settles_once_witness:
  "\<exists>w. worker_steps (worker_prover_new (Some ''worker.js'') None) w \<and> wp_settled w (request_id 1) = None \<and>
    wp_settled (ontimeout (request_id 1) w) (request_id 1) = Some (Inl (Err (ProofTimeout 60000))) \<and>
    wp_settled (terminate w) (request_id 1) \<noteq> None"
proof -
  let ?w0 = "worker_prover_new (Some ''worker.js'') None"
  obtain rid w where gen: "generateInWorker demo_circuit_input ''a'' ''b'' ?w0 = (rid, w)" by fastforce
  then have steps: "worker_steps ?w0 w" by (blast intro: worker_steps.intros worker_step.generate)
  have "request_id 1 \<in> wp_timers w" "wp_requestCounter w = 1" "wp_timeout w = 60000"
    using gen by (auto simp: generateInWorker_def worker_prover_new_def ensureWorker_def Let_def)
  with worker_settles_once [OF steps, of 1] steps show ?thesis by (intro exI [of _ w]) simp
qed

end
