(* ===== verification/PoolLiveness.thy ===== *)
theory PoolLiveness
  imports PoolSafety Circuit
begin

text \<open>
  What a caller of the pool can count on (\<open>contracts/mixer_pool/src/lib.rs\<close>): deposits go
  through until the tree is full, and a withdrawal that would succeed passes every check of the
  contract, whatever others do, until its nullifier is spent or its root has left the window. A token may
  refuse any transfer (the Stellar asset contract does for a missing trustline, a frozen balance or the
  reserve of an account), and the statements say what happens then.
\<close>

subsection \<open>A withdrawal survives what others do\<close>

lemma current_root_survives:
  assumes "grown p q" and "length (p_leaves q) < length (p_leaves p) + unat (p_history_size p)"
  shows "p_known c q (tree_root c (unat (p_depth p)) (p_leaves p))"
proof -
  obtain cs where cs: "p_leaves q = p_leaves p @ cs"
    and cfg: "p_depth q = p_depth p" "p_history_size q = p_history_size p"
    using assms(1) by (auto simp: grown_def same_config_def)
  have "p_history_size q \<noteq> 0"
    using assms(2) by (auto simp: cs cfg)
  then show ?thesis
    using assms(2) by (subst p_known_iff) (auto simp: cs cfg intro!: exI [of _ "length (p_leaves p)"])
qed

text \<open>All checks of the withdrawal pass again; what is left is the payment.\<close>

lemma a_withdrawal_checks:
  assumes ok: "a_withdraw vk h proof root n recipient relayer fee p = Inr p1"
    and grown: "grown p q" and root: "root = tree_root h (unat (p_depth p)) (p_leaves p)"
    and window: "length (p_leaves q) < length (p_leaves p) + unat (p_history_size p)"
    and unspent: "n \<notin> p_spent q"
  shows "a_withdraw vk h proof root n recipient relayer fee q =
      (case a_payout h recipient relayer fee q of None \<Rightarrow> Inl Panic
       | Some l \<Rightarrow> Inr (q\<lparr>p_spent := insert n (p_spent q), p_log := p_log q @ [WithdrawalEvent n], p_ledger := l\<rparr>))"
proof -
  obtain inputs where "0 \<le> sint fee" "sint fee \<le> sint (p_max_fee p)"
    and "build_public_inputs h root n recipient relayer fee = Inr inputs" "verify_proof vk h proof inputs"
    using ok by (auto simp: a_withdraw_Inr)
  with current_root_survives [OF grown window, of h] unspent grown show ?thesis
    by (simp add: a_withdraw_def root grown_def same_config_def)
qed

lemma payout_made:
  "(\<exists>l. a_payout h recipient relayer fee p = Some l) \<longleftrightarrow>
   (\<exists>l. token_transfer h (p_token p) (p_ledger p) (current_contract_address h) recipient (p_denomination p - fee) = Some l \<and>
     (sint fee > 0 \<longrightarrow> token_transfer h (p_token p) l (current_contract_address h) relayer fee \<noteq> None))"
  by (cases "token_transfer h (p_token p) (p_ledger p) (current_contract_address h) recipient (p_denomination p - fee)")
    (auto simp: a_payout_def)

text \<open>(C21) A withdrawal against the current root that would succeed now still passes every check of the
  contract after any calls of others and any transfers by other contracts, as long as fewer than
  \<open>root_history_size\<close> deposits came in between and its nullifier has not been spent: it succeeds if the
  token makes the payments, to the recipient and, for a positive fee, to the relayer, and otherwise it
  aborts. Nobody can invalidate a pending withdrawal by depositing or withdrawing in front of it; only
  the token can refuse it.\<close>

theorem withdrawal_survives:
  assumes reach: "pool_reach vk h ext e" and later: "(pool_step vk h ext)\<^sup>*\<^sup>* e e2"
    and current: "get_root h e = Inr root"
    and ok: "withdraw vk h pf root n recipient relayer fee e = Inr e1"
    and counts: "get_deposit_count e = Inr i" "get_deposit_count e2 = Inr j" "get_root_history_size e = Inr sz"
    and window: "unat j < unat i + unat sz"
    and unspent: "query_nullifier_spent n e2 = Inr False"
    and money: "get_token e2 = Inr tok" "get_denomination e2 = Inr d"
  shows "if \<exists>l. token_transfer h tok (ledger e2) (current_contract_address h) recipient (d - fee) = Some l \<and>
        (sint fee > 0 \<longrightarrow> token_transfer h tok l (current_contract_address h) relayer fee \<noteq> None)
    then \<exists>e3. withdraw vk h pf root n recipient relayer fee e2 = Inr e3
    else withdraw vk h pf root n recipient relayer fee e2 = Inl Panic"
proof -
  obtain p where rep: "pool_rep h e p" using pool_reach_simulates [OF reach] by blast
  obtain q where rep2: "pool_rep h e2 q" and steps: "(a_step vk h ext)\<^sup>*\<^sup>* p q"
    using pool_steps_simulate [OF later rep] by blast
  note grown = a_steps_grown [OF steps]
  obtain p1 where p1: "a_withdraw vk h pf root n recipient relayer fee p = Inr p1"
    using withdraw_refines [OF rep, of vk pf root n recipient relayer fee] ok by (auto dest: res_rel_InrD)
  have length_less: "length (p_leaves r) < 2 ^ 32" if "pool_rep h f r" for f r
    using pool_repD(2) [OF that] by (simp add: tree_rep_def)
  have unfolded: "root = tree_root h (unat (p_depth p)) (p_leaves p)" "unat i = length (p_leaves p)"
      "unat j = length (p_leaves q)" "sz = p_history_size p" "tok = p_token q" "d = p_denomination q" "ledger e2 = p_ledger q"
    using current counts money queries_rep [OF rep] queries_rep [OF rep2] pool_reads [OF rep2]
      pool_repD(4) [OF rep] pool_repD(7) [OF rep2] length_less [OF rep] length_less [OF rep2]
    by (auto simp: history_rep_def get_root_history_size_def unat_of_nat_u32)
  have "n \<notin> p_spent q" using unspent by (simp add: queries_rep [OF rep2])
  then have "a_withdraw vk h pf root n recipient relayer fee q =
      (case a_payout h recipient relayer fee q of None \<Rightarrow> Inl Panic
       | Some l \<Rightarrow> Inr (q\<lparr>p_spent := insert n (p_spent q), p_log := p_log q @ [WithdrawalEvent n], p_ledger := l\<rparr>))"
    using a_withdrawal_checks [OF p1 grown unfolded(1)] window by (simp add: unfolded)
  with withdraw_refines [OF rep2, of vk pf root n recipient relayer fee] show ?thesis
    unfolding unfolded(5-7) payout_made [symmetric]
    by (cases "a_payout h recipient relayer fee q") (auto dest: res_rel_Inr_abs res_rel_Inl_abs)
qed

text \<open>Alice deposits after bob prepared his withdrawal on the empty tree, and it still succeeds.\<close>

definition later_pool :: "demo_ledger APool" where
  "later_pool = demo_pool\<lparr>p_leaves := [demo_commitment], p_log := [DepositEvent demo_commitment 0],
     p_ledger := p_ledger demo_deposited\<rparr>"

definition later_env :: "demo_ledger pool_env" where
  "later_env = state_after (demo_env lax_host)
     (deposit lax_host demo_auth alice demo_commitment (demo_env lax_host))"

lemma later_deposit:
  "deposit lax_host demo_auth alice demo_commitment (demo_env lax_host) = Inr later_env"
  "pool_rep lax_host later_env later_pool"
proof -
  have "a_deposit lax_host demo_auth alice demo_commitment demo_pool = Inr later_pool"
    by (simp add: a_deposit_any later_pool_def)
  then show "deposit lax_host demo_auth alice demo_commitment (demo_env lax_host) = Inr later_env"
    "pool_rep lax_host later_env later_pool"
    using deposit_refines [OF demo_env_ok(2) [of lax_host], of demo_auth alice demo_commitment]
    unfolding later_env_def by (metis state_after_Inr)+
qed

lemma later_reads:
  "get_root_history_size (demo_env lax_host) = Inr 3"
  "ledger later_env = p_ledger demo_deposited"
  using pool_repD(4) [OF demo_env_ok(2) [of lax_host]] pool_repD(7) [OF later_deposit(2)]
  by (simp_all add: history_rep_def get_root_history_size_def later_pool_def)

lemma later_pay: "a_payout lax_host bob carol 3 later_pool \<noteq> None"
  by (simp add: a_payout_def later_pool_def demo_deposited_def demo_transfer_def demo_names Let_def)

lemma withdrawal_survives_witness:
  "\<exists>e3. withdraw True lax_host demo_proof (demo_root lax_host) demo_nullifier bob carol 3 later_env = Inr e3"
proof -
  have step: "pool_step True lax_host (\<lambda>_ _. False) (demo_env lax_host) later_env"
    by (rule pool_step.deposit [OF _ later_deposit(1)]) (simp add: demo_auth_def)
  then have later: "(pool_step True lax_host (\<lambda>_ _. False))\<^sup>*\<^sup>* (demo_env lax_host) later_env" by blast
  have root: "get_root lax_host (demo_env lax_host) = Inr (demo_root lax_host)"
    by (simp add: queries_rep [OF demo_env_ok(2)] demo_root_def)
  have reads: "get_deposit_count (demo_env lax_host) = Inr 0" "get_deposit_count later_env = Inr 1"
    "query_nullifier_spent demo_nullifier later_env = Inr False" "get_token later_env = Inr demo_token"
    "get_denomination later_env = Inr 100"
    by (simp_all add: queries_rep [OF demo_env_ok(2)] queries_rep [OF later_deposit(2)] pool_reads [OF later_deposit(2)] later_pool_def)
  have "unat (1 :: u32) < unat (0 :: u32) + unat (3 :: u32)" by simp
  have pay: "\<exists>l. token_transfer lax_host demo_token (ledger later_env) (current_contract_address lax_host) bob (100 - 3) = Some l \<and>
      (sint (3 :: i128) > 0 \<longrightarrow> token_transfer lax_host demo_token l (current_contract_address lax_host) carol 3 \<noteq> None)"
    using later_pay payout_made [of lax_host bob carol 3 later_pool] by (simp add: later_pool_def later_reads)
  have window: "unat (1 :: u32) < unat (0 :: u32) + unat (3 :: u32)" by simp
  from withdrawal_survives [where recipient = bob and relayer = carol and fee = 3 and pf = demo_proof,
      OF demo_reach later root _ reads(1,2) later_reads(1) window reads(3-)] pay
  show ?thesis by (simp only: demo_withdraw if_True refl simp_thms)
qed

subsection \<open>Deposits go through until the tree is full\<close>

text \<open>The deposits of one depositor, one after the other.\<close>

fun deposit_all :: "('fr, 'fq, 'g1, 'g1p, 'g2, 'gt, 'l) pool_host \<Rightarrow> (Address \<Rightarrow> bool) \<Rightarrow> Address \<Rightarrow> bytes32 list \<Rightarrow>
    'l pool_env \<Rightarrow> (MixerError, 'l pool_env) result" where
  "deposit_all h auth depositor [] e = Inr e"
| "deposit_all h auth depositor (c # cs) e = and_then (deposit h auth depositor c e) (deposit_all h auth depositor cs)"

text \<open>What becomes of such a run: the token refuses one of the transfers, which aborts the call and loses nothing
  of the deposits before it; or the run fits the tree and goes through; or the first deposit that does
  not fit returns \<open>TreeFull\<close>.\<close>

lemma deposit_all_outcome:
  assumes auth: "auth depositor" and rep: "pool_rep h e p" and new: "distinct cs" "set cs \<inter> set (p_leaves p) = {}"
  shows "(\<exists>pre c post e1. cs = pre @ c # post \<and> deposit_all h auth depositor pre e = Inr e1 \<and>
      length (p_leaves p) + length pre < tree_capacity (p_depth p) \<and>
      token_transfer h (p_token p) (ledger e1) depositor (current_contract_address h) (p_denomination p) = None \<and>
      deposit_all h auth depositor cs e = Inl Panic) \<or>
    (if length (p_leaves p) + length cs \<le> tree_capacity (p_depth p)
     then \<exists>e' p'. deposit_all h auth depositor cs e = Inr e' \<and> pool_rep h e' p' \<and> p_leaves p' = p_leaves p @ cs \<and> p_depth p' = p_depth p
     else deposit_all h auth depositor cs e = Inl (Err TreeFull))"
  using rep new
proof (induction cs arbitrary: e p)
  case Nil
  then show ?case using pool_repD(3) [OF Nil(1)] by auto
next
  case (Cons c cs)
  have fits: "length (p_leaves p) \<le> tree_capacity (p_depth p)" by (rule pool_repD(3) [OF Cons.prems(1)])
  have led: "ledger e = p_ledger p" using pool_repD(7) [OF Cons.prems(1)] by simp
  note ref = deposit_refines [OF Cons.prems(1), of auth depositor c]
  have new: "c \<notin> set (p_leaves p)" using Cons.prems by simp
  show ?case
  proof (cases "length (p_leaves p) = tree_capacity (p_depth p)")
    case True
    then have "deposit h auth depositor c e = Inl (Err TreeFull)"
      using ref new auth by (auto simp: a_deposit_def dest: res_rel_Inl_abs)
    with True show ?thesis by simp
  next
    case False
    with fits have room: "length (p_leaves p) < tree_capacity (p_depth p)" by simp
    show ?thesis
    proof (cases "token_transfer h (p_token p) (ledger e) depositor (current_contract_address h) (p_denomination p)")
      case None
      then have "deposit h auth depositor c e = Inl Panic"
        using ref new auth room by (auto simp: a_deposit_def led dest: res_rel_Inl_abs)
      with None room show ?thesis by (intro disjI1 exI [of _ "[]"] exI [of _ c] exI [of _ cs] exI [of _ e]) simp
    next
      case (Some l)
      then obtain p1 where p1: "a_deposit h auth depositor c p = Inr p1" "p_leaves p1 = p_leaves p @ [c]" "same_config p p1"
        using new auth room by (auto simp: a_deposit_def led same_config_def)
      then obtain e1 where e1: "deposit h auth depositor c e = Inr e1" "pool_rep h e1 p1"
        using ref by (auto dest: res_rel_Inr_abs)
      have "distinct cs" "set cs \<inter> set (p_leaves p1) = {}" using Cons.prems p1(2) by auto
      from Cons.IH [OF e1(2) this] show ?thesis
      proof (elim disjE exE conjE)
        fix pre c' post e2
        assume "cs = pre @ c' # post" "deposit_all h auth depositor pre e1 = Inr e2"
          "length (p_leaves p1) + length pre < tree_capacity (p_depth p1)"
          "token_transfer h (p_token p1) (ledger e2) depositor (current_contract_address h) (p_denomination p1) = None"
          "deposit_all h auth depositor cs e1 = Inl Panic"
        with e1(1) p1(2,3) show ?thesis
          by (intro disjI1 exI [of _ "c # pre"] exI [of _ c'] exI [of _ post] exI [of _ e2]) (simp add: same_config_def)
      next
        assume "if length (p_leaves p1) + length cs \<le> tree_capacity (p_depth p1)
          then \<exists>e' p'. deposit_all h auth depositor cs e1 = Inr e' \<and> pool_rep h e' p' \<and> p_leaves p' = p_leaves p1 @ cs \<and> p_depth p' = p_depth p1
          else deposit_all h auth depositor cs e1 = Inl (Err TreeFull)"
        with e1(1) p1(2,3) show ?thesis by (auto simp: same_config_def)
      qed
    qed
  qed
qed

text \<open>(C22) The tree takes exactly \<open>2^depth\<close> deposits (\<open>2^32 - 1\<close> at depth 32). From any state of the pool, a
  depositor who authorises the calls makes deposits of different new commitments, one after the other.
  Either the token refuses one of the transfers while there is still room, and the run aborts at that
  call; or all deposits that fit go through, are counted and published in order; and when they do not all
  fit, the run ends with \<open>TreeFull\<close>.\<close>

theorem tree_fills_exactly:
  assumes reach: "pool_reach vk h ext e" and auth: "auth depositor"
    and reads: "get_tree_depth e = Inr d" "get_deposit_count e = Inr i" "get_token e = Inr tok" "get_denomination e = Inr x"
    and new: "distinct cs" "\<forall>c\<in>set cs. is_commitment_inserted c e = Inr False"
  shows "(\<exists>pre c post e1. cs = pre @ c # post \<and> deposit_all h auth depositor pre e = Inr e1 \<and>
      unat i + length pre < tree_capacity d \<and>
      token_transfer h tok (ledger e1) depositor (current_contract_address h) x = None \<and>
      deposit_all h auth depositor cs e = Inl Panic) \<or>
    (if unat i + length cs \<le> tree_capacity d
     then \<exists>e'. deposit_all h auth depositor cs e = Inr e' \<and> get_deposit_count e' = Inr (i + word_of_nat (length cs)) \<and>
       (\<forall>c\<in>set cs. is_commitment_inserted c e' = Inr True) \<and>
       get_root h e' = Inr (tree_root h (unat d) (map fst (deposits_of (published e)) @ cs))
     else deposit_all h auth depositor cs e = Inl (Err TreeFull))"
proof -
  obtain p l0 where rep: "pool_rep h e p" and a: "a_reach vk h ext l0 p"
    using pool_reach_simulates [OF reach] by blast
  have leaves: "map fst (deposits_of (published e)) = p_leaves p"
    using a_reach_log [OF a] by (simp add: log_ok_def pool_repD(6) [OF rep])
  have unfolded: "d = p_depth p" "tok = p_token p" "x = p_denomination p" "i = word_of_nat (length (p_leaves p))"
    using reads pool_reads [OF rep] queries_rep [OF rep] by auto
  have "length (p_leaves p) < 2 ^ 32" using pool_repD(2) [OF rep] by (simp add: tree_rep_def)
  then have i: "unat i = length (p_leaves p)" by (simp add: unfolded unat_of_nat_u32)
  have "set cs \<inter> set (p_leaves p) = {}" using new(2) by (auto simp: pool_reads [OF rep])
  from deposit_all_outcome [where auth = auth and depositor = depositor, OF auth rep new(1) this] show ?thesis
  proof (elim disjE)
    assume "if length (p_leaves p) + length cs \<le> tree_capacity (p_depth p)
       then \<exists>e' p'. deposit_all h auth depositor cs e = Inr e' \<and> pool_rep h e' p' \<and> p_leaves p' = p_leaves p @ cs \<and> p_depth p' = p_depth p
       else deposit_all h auth depositor cs e = Inl (Err TreeFull)"
    moreover have "get_deposit_count e' = Inr (i + word_of_nat (length cs)) \<and>
        (\<forall>c\<in>set cs. is_commitment_inserted c e' = Inr True) \<and>
        get_root h e' = Inr (tree_root h (unat d) (map fst (deposits_of (published e)) @ cs))"
      if "pool_rep h e' p'" "p_leaves p' = p_leaves p @ cs" "p_depth p' = p_depth p" for e' p'
      by (simp add: queries_rep [OF that(1)] pool_reads [OF that(1)] that(2,3) unfolded leaves)
    ultimately show ?thesis by (intro disjI2) (auto simp: i unfolded(1))
  qed (use i in \<open>simp add: unfolded(1-3)\<close>)
qed

subsection \<open>A token that serves its parties\<close>

text \<open>
  Of a transfer the token interface (SEP-41) says when it must fail, not that it succeeds. What can be relied on
  is narrower: in ledgers where none of some parties is frozen or restricted (as the contract
  addresses of a Stellar asset without authorisation flags are not, which need no trustline and no
  reserve), a transfer between them of an amount the sender has and the receiver's balance has room for goes
  through and leads to such a ledger again.
\<close>

definition token_serves :: "('fr, 'fq, 'g1, 'g1p, 'g2, 'gt, 'l, 'z) host_scheme \<Rightarrow> (Address \<Rightarrow> 'l \<Rightarrow> Address \<Rightarrow> int) \<Rightarrow>
    Address \<Rightarrow> 'l set \<Rightarrow> Address set \<Rightarrow> bool" where
  "token_serves h bal tok L A \<longleftrightarrow>
     (\<forall>l a b x. l \<in> L \<and> a \<in> A \<and> b \<in> A \<and> 0 \<le> sint x \<and> sint x \<le> bal tok l a \<and> bal tok l b + sint x < 2 ^ 127 \<longrightarrow>
        (\<exists>l'. token_transfer h tok l a b x = Some l' \<and> l' \<in> L))"

lemma demo_token_serves: "token_serves demo_host demo_bal tok UNIV A"
  by (simp add: token_serves_def demo_transfer_def demo_bal_def Let_def)

text \<open>The money a run of deposits needs: the depositor has it, and the pool can hold it.\<close>

definition can_fund :: "('fr, 'fq, 'g1, 'g1p, 'g2, 'gt, 'l) pool_host \<Rightarrow> (Address \<Rightarrow> 'l \<Rightarrow> Address \<Rightarrow> int) \<Rightarrow>
    Address \<Rightarrow> nat \<Rightarrow> 'l APool \<Rightarrow> bool" where
  "can_fund h bal depositor k p \<longleftrightarrow>
     sint (p_denomination p) * int k \<le> bal (p_token p) (p_ledger p) depositor \<and>
     bal (p_token p) (p_ledger p) (current_contract_address h) + sint (p_denomination p) * int k < 2 ^ 127"

text \<open>What \<open>k\<close> deposits move: from the depositor to the pool.\<close>

definition paid_in :: "('fr, 'fq, 'g1, 'g1p, 'g2, 'gt, 'l) pool_host \<Rightarrow> Address \<Rightarrow> 'l APool \<Rightarrow> nat \<Rightarrow> Address \<Rightarrow> int" where
  "paid_in h depositor p k a = sint (p_denomination p) * int k *
     (if a = depositor then - 1 else if a = current_contract_address h then 1 else 0)"

lemma a_deposit_goes_through:
  assumes laws: "token_laws h bal" and serves: "token_serves h bal (p_token p) L A"
    and parties: "depositor \<in> A" "current_contract_address h \<in> A" and led: "p_ledger p \<in> L"
    and auth: "auth depositor" and other: "depositor \<noteq> current_contract_address h"
    and new: "c \<notin> set (p_leaves p)" and room: "length (p_leaves p) < tree_capacity (p_depth p)"
    and pos: "0 < sint (p_denomination p)" and money: "can_fund h bal depositor (Suc k) p"
  shows "\<exists>p'. a_deposit h auth depositor c p = Inr p' \<and> p_leaves p' = p_leaves p @ [c] \<and> same_config p p' \<and>
    p_spent p' = p_spent p \<and> can_fund h bal depositor k p' \<and> p_ledger p' \<in> L \<and>
    (\<forall>a. bal (p_token p) (p_ledger p') a = bal (p_token p) (p_ledger p) a + paid_in h depositor p 1 a)"
proof -
  let ?self = "current_contract_address h" and ?d = "p_denomination p" and ?tok = "p_token p" and ?l = "p_ledger p"
  have step: "sint ?d * int (Suc k) = sint ?d + sint ?d * int k" by (simp add: algebra_simps)
  have nonneg: "0 \<le> sint ?d * int k" using pos by simp
  have "sint ?d \<le> bal ?tok ?l depositor" "bal ?tok ?l ?self + sint ?d < 2 ^ 127"
    using money nonneg unfolding can_fund_def step by linarith+
  then obtain l where l: "token_transfer h ?tok ?l depositor ?self ?d = Some l" "l \<in> L"
    using serves parties led pos unfolding token_serves_def by (metis order_less_imp_le)
  have moved: "bal ?tok l a = bal ?tok ?l a + paid_in h depositor p 1 a" for a
    using token_transferD(3) [OF laws l(1), of a] other by (simp add: paid_in_def)
  with money other show ?thesis
    unfolding can_fund_def step by (auto simp: a_deposit_Inr auth new room l same_config_def paid_in_def)
qed

lemma deposit_all_ok:
  assumes laws: "token_laws h bal" and serves: "token_serves h bal (p_token p) L A"
    and parties: "depositor \<in> A" "current_contract_address h \<in> A" and led: "ledger e \<in> L"
    and auth: "auth depositor" and other: "depositor \<noteq> current_contract_address h"
    and rep: "pool_rep h e p" and new: "distinct cs" "set cs \<inter> set (p_leaves p) = {}"
    and room: "length (p_leaves p) + length cs \<le> tree_capacity (p_depth p)"
    and money: "can_fund h bal depositor (length cs) p"
  shows "\<exists>e' p'. deposit_all h auth depositor cs e = Inr e' \<and> pool_rep h e' p' \<and> p_leaves p' = p_leaves p @ cs \<and>
    same_config p p' \<and> p_spent p' = p_spent p \<and> ledger e' \<in> L \<and>
    (\<forall>a. bal (p_token p) (ledger e') a = bal (p_token p) (ledger e) a + paid_in h depositor p (length cs) a)"
  using serves led rep new room money
proof (induction cs arbitrary: e p)
  case Nil
  then show ?case by (auto simp: same_config_def paid_in_def)
next
  case (Cons c cs)
  note rep = Cons.prems(3)
  have led: "p_ledger p \<in> L" using pool_repD(7) [OF rep] Cons.prems(2) by simp
  have pos: "0 < sint (p_denomination p)" using pool_rep_inv [OF rep] by (simp add: pool_inv_def)
  have "c \<notin> set (p_leaves p)" "length (p_leaves p) < tree_capacity (p_depth p)" "can_fund h bal depositor (Suc (length cs)) p"
    using Cons.prems by simp_all
  from a_deposit_goes_through [where auth = auth, OF laws Cons.prems(1) parties led auth other this(1,2) pos this(3)]
  obtain p1 where p1: "a_deposit h auth depositor c p = Inr p1" "p_leaves p1 = p_leaves p @ [c]" "same_config p p1"
      "p_spent p1 = p_spent p" "can_fund h bal depositor (length cs) p1" "p_ledger p1 \<in> L"
      "\<forall>a. bal (p_token p) (p_ledger p1) a = bal (p_token p) (p_ledger p) a + paid_in h depositor p 1 a" by blast
  obtain e1 where e1: "deposit h auth depositor c e = Inr e1" "pool_rep h e1 p1"
    using deposit_refines [OF rep, of auth depositor c] p1(1) by (auto dest: res_rel_Inr_abs)
  obtain e' p' where rest: "deposit_all h auth depositor cs e1 = Inr e'" "pool_rep h e' p'" "p_leaves p' = p_leaves p1 @ cs"
      "same_config p1 p'" "p_spent p' = p_spent p1" "ledger e' \<in> L"
      "\<forall>a. bal (p_token p1) (ledger e') a = bal (p_token p1) (ledger e1) a + paid_in h depositor p1 (length cs) a"
    using Cons.IH [of p1 e1] e1(2) Cons.prems p1 pool_repD(7) [OF e1(2)] by (auto simp: same_config_def)
  show ?case
    using e1 rest p1 pool_repD(7) [OF rep] pool_repD(7) [OF e1(2)]
    by (intro exI [of _ e'] exI [of _ p']) (simp add: same_config_def paid_in_def algebra_simps)
qed

text \<open>Four deposits fill the tree of the demo pool.\<close>

lemma tree_fills_exactly_witness:
  "\<exists>e'. deposit_all demo_host demo_auth alice (map be_array [1, 2, 3, 4]) (demo_env demo_host) = Inr e' \<and>
    get_deposit_count e' = Inr 4"
proof -
  let ?cs = "map be_array [1, 2, 3, 4] :: bytes32 list"
  have new: "distinct ?cs" "\<forall>c\<in>set ?cs. is_commitment_inserted c (demo_env demo_host) = Inr False"
    by (simp_all add: be_array_eq_iff pool_reads [OF demo_env_ok(2)])
  have auth: "demo_auth alice" by (simp add: demo_auth_def demo_names)
  have reads: "get_tree_depth (demo_env demo_host) = Inr 2" "get_deposit_count (demo_env demo_host) = Inr 0"
    "get_token (demo_env demo_host) = Inr demo_token" "get_denomination (demo_env demo_host) = Inr 100"
    by (simp_all add: queries_rep [OF demo_env_ok(2)] pool_reads [OF demo_env_ok(2)])
  have "\<exists>e'. deposit_all demo_host demo_auth alice ?cs (demo_env demo_host) = Inr e'"
    using deposit_all_ok [where auth = demo_auth and depositor = alice and L = UNIV and A = UNIV and cs = ?cs and p = demo_pool
        and e = "demo_env demo_host", OF demo_token_laws demo_token_serves _ _ _ auth _ demo_env_ok(2) new(1)]
    by (auto simp: demo_names tree_capacity_def can_fund_def demo_bal_def demo_start_def)
  with tree_fills_exactly [where vk = True and ext = "\<lambda>_ _. False" and h = demo_host and auth = demo_auth and depositor = alice,
      OF demo_reach auth reads new] show ?thesis
    by (auto simp: tree_capacity_def)
qed

subsection \<open>Deposits change the root\<close>

text \<open>Poseidon is broken at two lists of commitments: going down from the roots of their trees in
  field elements, the first two different pairs met have the same hash.\<close>

definition poseidon_broken :: "('fr, 'c) field_crypto_scheme \<Rightarrow> nat \<Rightarrow> bytes32 list \<Rightarrow> bytes32 list \<Rightarrow> bool" where
  "poseidon_broken c d xs ys \<longleftrightarrow>
     (case tree_collision (poseidon2 c) (empty_leaf_fr c) (map (bytes_to_fr c) xs) (map (bytes_to_fr c) ys) d 0 of
        None \<Rightarrow> False | Some pq \<Rightarrow> is_collision (poseidon2 c) pq)"

lemma longer_tree_changes_root:
  assumes law: "fr_roundtrip c" and fresh: "bytes_to_fr c y \<noteq> empty_leaf_fr c" and room: "length xs < 2 ^ d"
    and same: "tree_root c d xs = tree_root c d (xs @ y # ys)"
  shows "poseidon_broken c d xs (xs @ y # ys)"
proof -
  let ?nd = "\<lambda>xs. node (poseidon2 c) (empty_leaf_fr c) (map (bytes_to_fr c) xs)"
  let ?col = "tree_collision (poseidon2 c) (empty_leaf_fr c) (map (bytes_to_fr c) xs) (map (bytes_to_fr c) (xs @ y # ys)) d 0"
  have "?nd xs d 0 = ?nd (xs @ y # ys) d 0"
    using same by (simp only: tree_node_fr [OF law, symmetric])
  note binds = root_binds_leaves [OF this]
  show ?thesis
  proof (cases ?col)
    case None
    then have "?nd xs 0 (length xs) = ?nd (xs @ y # ys) 0 (length xs)"
      using binds room by (simp del: node.simps)
    with fresh show ?thesis by (simp add: nth_append)
  next
    case (Some pq)
    then show ?thesis using binds by (simp add: poseidon_broken_def)
  qed
qed

lemma room_below_capacity: "length xs < tree_capacity d \<Longrightarrow> length xs < 2 ^ unat d"
  by (simp add: tree_capacity_def split: if_splits)

text \<open>A deposit of a commitment that is not the value of an empty leaf changes the current
  root, or it exhibits a Poseidon collision, which the trees before and after the deposit name.\<close>

lemma deposit_changes_root:
  assumes law: "fr_roundtrip h" and rep: "pool_rep h e p"
    and ok: "deposit h auth depositor c e = Inr e'" and fresh: "bytes_to_fr h c \<noteq> empty_leaf_fr h"
  shows "get_root h e' \<noteq> get_root h e \<or> poseidon_broken h (unat (p_depth p)) (p_leaves p) (p_leaves p @ [c])"
proof -
  obtain p' where p': "a_deposit h auth depositor c p = Inr p'" and rep': "pool_rep h e' p'"
    using deposit_refines [OF rep, of auth depositor c] ok by (auto dest: res_rel_InrD)
  then have "length (p_leaves p) < 2 ^ unat (p_depth p)" "p_leaves p' = p_leaves p @ [c]" "p_depth p' = p_depth p"
    by (auto simp: a_deposit_Inr intro: room_below_capacity)
  with longer_tree_changes_root [where ys = "[]", OF law fresh this(1)] show ?thesis
    by (auto simp: queries_rep [OF rep] queries_rep [OF rep'])
qed

end
