(* ===== verification/Testing.thy ===== *)
theory Testing
  imports Soroban
begin

text \<open>
  How the repository's \<open>#[test]\<close> functions are read: a test is a run in the result type of the
  contract it calls, in which a call of a contract client that returns an error panics with that
  error, and a failed assertion is a plain panic. A test passes when it returns; one marked
  \<open>#[should_panic(expected = "Error(Contract, #n)")]\<close> passes when it panics with the error
  whose code is \<open>n\<close>.
\<close>

type_synonym 'e test = "('e, unit) result"

definition assert_true :: "bool \<Rightarrow> 'e test" where
  "assert_true b = (if b then Inr () else Inl Panic)"

definition assert_eq :: "'a \<Rightarrow> 'a \<Rightarrow> 'e test" where
  "assert_eq x y = assert_true (x = y)"

definition assert_ne :: "'a \<Rightarrow> 'a \<Rightarrow> 'e test" where
  "assert_ne x y = assert_true (x \<noteq> y)"

definition test_passes :: "'e test \<Rightarrow> bool" where
  "test_passes t \<longleftrightarrow> (case t of Inr _ \<Rightarrow> True | Inl _ \<Rightarrow> False)"

definition test_panics_with :: "('e \<Rightarrow> u32) \<Rightarrow> u32 \<Rightarrow> 'e test \<Rightarrow> bool" where
  "test_panics_with code n t \<longleftrightarrow> (case t of Inl (Err e) \<Rightarrow> code e = n | _ \<Rightarrow> False)"

text \<open>\<open>env.mock_all_auths()\<close> lets every \<open>require_auth\<close> succeed.\<close>

definition mock_all_auths :: "Address \<Rightarrow> bool" where
  "mock_all_auths a \<longleftrightarrow> True"

lemma mock_all_auths [simp]: "mock_all_auths a"
  by (simp add: mock_all_auths_def)

named_theorems test_simps \<open>equations that run a test\<close>

lemma assert_simps [simp, test_simps]:
  "assert_true True = Inr ()" "assert_true False = Inl Panic"
  "assert_eq x x = Inr ()" "assert_eq x y = assert_true (x = y)"
  "assert_ne x x = Inl Panic" "assert_ne x y = assert_true (x \<noteq> y)"
  by (simp_all add: assert_true_def assert_eq_def assert_ne_def)

lemma test_outcomes [simp, test_simps]:
  "test_passes (Inr u)" "\<not> test_passes (Inl f)"
  "test_panics_with code n (Inl (Err e)) \<longleftrightarrow> code e = n"
  "\<not> test_panics_with code n (Inl Panic)" "\<not> test_panics_with code n (Inr u)"
  by (simp_all add: test_passes_def test_panics_with_def)

lemma passes_assert [simp, test_simps]: "test_passes (assert_true b) = b"
  by (cases b) simp_all

end
