(* ===== verification/PoolTests.thy ===== *)
theory PoolTests
  imports PoolLiveness PoolProperties Testing
begin

text \<open>
  \<open>contracts/mixer_pool/src/tests.rs\<close>, test by test, run on the model of the contract over an
  arbitrary host, and the proof that the tests pass. What the test environment provides (the
  generated addresses, the ledger of the freshly registered token, \<open>StellarAssetClient::mint\<close> and
  \<open>TokenClient::balance\<close>) is the record \<open>test_world\<close>; what the tests rely on of it is
  \<open>world_ok\<close>.
\<close>

subsection \<open>The environment of the tests\<close>

record 'l test_world =
  tw_admin :: Address
  tw_token :: Address
  tw_depositor :: Address
  tw_recipient :: Address
  tw_relayer :: Address
  tw_ledger :: 'l
  tw_mint :: "Address \<Rightarrow> 'l \<Rightarrow> Address \<Rightarrow> i128 \<Rightarrow> 'l"
  tw_balance :: "Address \<Rightarrow> 'l \<Rightarrow> Address \<Rightarrow> int"
  tw_addresses :: "Address set" \<comment> \<open>the contract addresses \<open>Address::generate\<close> and \<open>env.register\<close> make\<close>
  tw_ledgers :: "'l set" \<comment> \<open>the ledgers minting and transfers among them lead to\<close>

text \<open>The registered asset has no authorisation flags and nobody freezes a balance, so among generated addresses a
  funded transfer goes through.\<close>

definition world_ok :: "('fr, 'fq, 'g1, 'g1p, 'g2, 'gt, 'l) pool_host \<Rightarrow> 'l test_world \<Rightarrow> bool" where
  "world_ok h w \<longleftrightarrow> token_laws h (tw_balance w) \<and>
     token_serves h (tw_balance w) (tw_token w) (tw_ledgers w) (tw_addresses w) \<and>
     tw_depositor w \<in> tw_addresses w \<and> current_contract_address h \<in> tw_addresses w \<and>
     tw_depositor w \<noteq> current_contract_address h \<and>
     tw_ledger w \<in> tw_ledgers w \<and> (\<forall>a\<in>tw_addresses w. tw_balance w (tw_token w) (tw_ledger w) a = 0) \<and>
     (\<forall>l\<in>tw_ledgers w. \<forall>a\<in>tw_addresses w. \<forall>x. 0 \<le> sint x \<longrightarrow> tw_balance w (tw_token w) l a + sint x < 2 ^ 127 \<longrightarrow>
        tw_mint w (tw_token w) l a x \<in> tw_ledgers w \<and>
        (\<forall>b. tw_balance w (tw_token w) (tw_mint w (tw_token w) l a x) b =
           tw_balance w (tw_token w) l b + (if b = a then sint x else 0)))"

subsection \<open>Constants and \<open>setup\<close>\<close>

definition TEST_DENOMINATION :: i128 where "TEST_DENOMINATION = 1000000000"
definition TEST_MAX_FEE :: i128 where "TEST_MAX_FEE = 10000000"
definition TEST_TREE_DEPTH :: u32 where "TEST_TREE_DEPTH = 4"
definition TEST_ROOT_HISTORY :: u32 where "TEST_ROOT_HISTORY = 10"

lemmas test_constants = TEST_DENOMINATION_def TEST_MAX_FEE_def TEST_TREE_DEPTH_def TEST_ROOT_HISTORY_def

text \<open>\<open>bytes[0] = seed; for i in 1..32 { bytes[i] = seed.wrapping_mul(i as u8).wrapping_add(0x42) }\<close>\<close>

definition test_commitment :: "u8 \<Rightarrow> bytes32" where
  "test_commitment seed =
     array_of (fold (\<lambda>i bytes. bytes[i := seed * word_of_nat i + 66]) [1..<32] ((replicate 32 0)[0 := seed]))"

definition test_mint :: "'l test_world \<Rightarrow> i128 \<Rightarrow> 'l pool_env \<Rightarrow> 'l pool_env" where
  "test_mint w amount e = e\<lparr>ledger := tw_mint w (tw_token w) (ledger e) (tw_depositor w) amount\<rparr>"

definition pool_setup :: "('fr, 'fq, 'g1, 'g1p, 'g2, 'gt, 'l) pool_host \<Rightarrow> 'l test_world \<Rightarrow> (MixerError, 'l pool_env) result" where
  "pool_setup h w =
     and_then (initialize h mock_all_auths (tw_admin w) (tw_token w) TEST_DENOMINATION TEST_MAX_FEE TEST_TREE_DEPTH
                 TEST_ROOT_HISTORY (fresh_env (tw_ledger w))) (\<lambda>e.
     Inr (test_mint w (TEST_DENOMINATION * 10) e))"

text \<open>\<open>client.deposit(&ctx.depositor, &c)\<close>, and the loops over \<open>ctx.commitment(i)\<close>.\<close>

definition test_deposit :: "('fr, 'fq, 'g1, 'g1p, 'g2, 'gt, 'l) pool_host \<Rightarrow> 'l test_world \<Rightarrow> bytes32 \<Rightarrow> 'l pool_env \<Rightarrow>
    (MixerError, 'l pool_env) result" where
  "test_deposit h w c e = deposit h mock_all_auths (tw_depositor w) c e"

definition test_deposits :: "('fr, 'fq, 'g1, 'g1p, 'g2, 'gt, 'l) pool_host \<Rightarrow> 'l test_world \<Rightarrow> u8 list \<Rightarrow> 'l pool_env \<Rightarrow>
    (MixerError, 'l pool_env) result" where
  "test_deposits h w seeds e = deposit_all h mock_all_auths (tw_depositor w) (map test_commitment seeds) e"

subsection \<open>The tests of \<open>initialize\<close>\<close>

definition pool_test_initialize_success :: "('fr, 'fq, 'g1, 'g1p, 'g2, 'gt, 'l) pool_host \<Rightarrow> 'l test_world \<Rightarrow> MixerError test" where
  "pool_test_initialize_success h w =
     and_then (pool_setup h w) (\<lambda>e.
     and_then (query_denomination e) (\<lambda>d.
     and_then (assert_eq d TEST_DENOMINATION) (\<lambda>_.
     and_then (get_deposit_count e) (\<lambda>n.
     and_then (assert_eq n 0) (\<lambda>_.
     and_then (get_root_history e) (\<lambda>roots.
     assert_eq (length roots) 1))))))"

definition pool_test_initialize_twice :: "('fr, 'fq, 'g1, 'g1p, 'g2, 'gt, 'l) pool_host \<Rightarrow> 'l test_world \<Rightarrow> MixerError test" where
  "pool_test_initialize_twice h w =
     and_then (pool_setup h w) (\<lambda>e.
     and_then (initialize h mock_all_auths (tw_admin w) (tw_token w) TEST_DENOMINATION TEST_MAX_FEE TEST_TREE_DEPTH
                 TEST_ROOT_HISTORY e) (\<lambda>_. Inr ()))"

definition pool_test_initialize_zero_denomination :: "('fr, 'fq, 'g1, 'g1p, 'g2, 'gt, 'l) pool_host \<Rightarrow> 'l test_world \<Rightarrow> MixerError test" where
  "pool_test_initialize_zero_denomination h w =
     and_then (initialize h mock_all_auths (tw_admin w) (tw_token w) 0 TEST_MAX_FEE TEST_TREE_DEPTH
                 TEST_ROOT_HISTORY (fresh_env (tw_ledger w))) (\<lambda>_. Inr ())"

definition pool_test_initialize_zero_depth :: "('fr, 'fq, 'g1, 'g1p, 'g2, 'gt, 'l) pool_host \<Rightarrow> 'l test_world \<Rightarrow> MixerError test" where
  "pool_test_initialize_zero_depth h w =
     and_then (initialize h mock_all_auths (tw_admin w) (tw_token w) TEST_DENOMINATION TEST_MAX_FEE 0
                 TEST_ROOT_HISTORY (fresh_env (tw_ledger w))) (\<lambda>_. Inr ())"

definition pool_test_initialize_zero_history_size :: "('fr, 'fq, 'g1, 'g1p, 'g2, 'gt, 'l) pool_host \<Rightarrow> 'l test_world \<Rightarrow> MixerError test" where
  "pool_test_initialize_zero_history_size h w =
     and_then (initialize h mock_all_auths (tw_admin w) (tw_token w) TEST_DENOMINATION TEST_MAX_FEE TEST_TREE_DEPTH
                 0 (fresh_env (tw_ledger w))) (\<lambda>_. Inr ())"

subsection \<open>The tests of \<open>deposit\<close> and of the root history\<close>

definition pool_test_deposit_success :: "('fr, 'fq, 'g1, 'g1p, 'g2, 'gt, 'l) pool_host \<Rightarrow> 'l test_world \<Rightarrow> MixerError test" where
  "pool_test_deposit_success h w =
     and_then (pool_setup h w) (\<lambda>e.
     and_then (test_deposit h w (test_commitment 1) e) (\<lambda>e.
     and_then (get_deposit_count e) (\<lambda>n.
     and_then (assert_eq n 1) (\<lambda>_.
     assert_eq (tw_balance w (tw_token w) (ledger e) (tw_depositor w))
       (sint (TEST_DENOMINATION * 10 - TEST_DENOMINATION))))))"

definition pool_test_deposit_updates_root :: "('fr, 'fq, 'g1, 'g1p, 'g2, 'gt, 'l) pool_host \<Rightarrow> 'l test_world \<Rightarrow> MixerError test" where
  "pool_test_deposit_updates_root h w =
     and_then (pool_setup h w) (\<lambda>e.
     and_then (get_root h e) (\<lambda>root_before.
     and_then (test_deposit h w (test_commitment 1) e) (\<lambda>e.
     and_then (get_root h e) (\<lambda>root_after.
     assert_ne root_before root_after))))"

definition pool_test_deposit_adds_to_root_history :: "('fr, 'fq, 'g1, 'g1p, 'g2, 'gt, 'l) pool_host \<Rightarrow> 'l test_world \<Rightarrow> MixerError test" where
  "pool_test_deposit_adds_to_root_history h w =
     and_then (pool_setup h w) (\<lambda>e.
     and_then (test_deposit h w (test_commitment 1) e) (\<lambda>e.
     and_then (get_root_history e) (\<lambda>roots.
     assert_eq (length roots) 2)))"

definition pool_test_deposit_duplicate_commitment :: "('fr, 'fq, 'g1, 'g1p, 'g2, 'gt, 'l) pool_host \<Rightarrow> 'l test_world \<Rightarrow> MixerError test" where
  "pool_test_deposit_duplicate_commitment h w =
     and_then (pool_setup h w) (\<lambda>e.
     let c = test_commitment 1 in
     and_then (test_deposit h w c e) (\<lambda>e.
     and_then (test_deposit h w c e) (\<lambda>_. Inr ())))"

definition pool_test_multiple_deposits :: "('fr, 'fq, 'g1, 'g1p, 'g2, 'gt, 'l) pool_host \<Rightarrow> 'l test_world \<Rightarrow> MixerError test" where
  "pool_test_multiple_deposits h w =
     and_then (pool_setup h w) (\<lambda>e.
     and_then (test_deposits h w (map word_of_nat [1..<6]) e) (\<lambda>e.
     and_then (get_deposit_count e) (\<lambda>n.
     and_then (assert_eq n 5) (\<lambda>_.
     and_then (get_root_history e) (\<lambda>roots.
     assert_eq (length roots) 6)))))"

definition pool_test_tree_capacity :: "('fr, 'fq, 'g1, 'g1p, 'g2, 'gt, 'l) pool_host \<Rightarrow> 'l test_world \<Rightarrow> MixerError test" where
  "pool_test_tree_capacity h w =
     and_then (pool_setup h w) (\<lambda>e.
     let e = test_mint w (TEST_DENOMINATION * 20) e in
     and_then (test_deposits h w (map (\<lambda>i. word_of_nat i + 100) [0..<16]) e) (\<lambda>e.
     and_then (get_deposit_count e) (\<lambda>n.
     assert_eq n 16)))"

definition pool_test_tree_full_rejects_deposit :: "('fr, 'fq, 'g1, 'g1p, 'g2, 'gt, 'l) pool_host \<Rightarrow> 'l test_world \<Rightarrow> MixerError test" where
  "pool_test_tree_full_rejects_deposit h w =
     and_then (pool_setup h w) (\<lambda>e.
     let e = test_mint w (TEST_DENOMINATION * 20) e in
     and_then (test_deposits h w (map (\<lambda>i. word_of_nat i + 50) [0..<16]) e) (\<lambda>e.
     and_then (test_deposit h w (test_commitment 200) e) (\<lambda>_. Inr ())))"

definition pool_test_root_history_circular_buffer :: "('fr, 'fq, 'g1, 'g1p, 'g2, 'gt, 'l) pool_host \<Rightarrow> 'l test_world \<Rightarrow> MixerError test" where
  "pool_test_root_history_circular_buffer h w =
     and_then (pool_setup h w) (\<lambda>e.
     let e = test_mint w (TEST_DENOMINATION * 15) e in
     and_then (test_deposits h w (map (\<lambda>i. word_of_nat i + 30) [0..<12]) e) (\<lambda>e.
     and_then (get_root_history e) (\<lambda>roots.
     assert_eq (length roots) (unat TEST_ROOT_HISTORY))))"

subsection \<open>The tests of \<open>withdraw\<close> and of the queries\<close>

definition zero_proof :: bytes256 where
  "zero_proof = array_of (replicate 256 0)"

definition pool_test_withdraw_invalid_root :: "bool \<Rightarrow> ('fr, 'fq, 'g1, 'g1p, 'g2, 'gt, 'l) pool_host \<Rightarrow> 'l test_world \<Rightarrow> MixerError test" where
  "pool_test_withdraw_invalid_root vk h w =
     and_then (pool_setup h w) (\<lambda>e.
     and_then (test_deposit h w (test_commitment 1) e) (\<lambda>e.
     let fake_root = array_of (replicate 32 255) in
     and_then (withdraw vk h zero_proof fake_root (test_commitment 99) (tw_recipient w) (tw_relayer w) 0 e) (\<lambda>_. Inr ())))"

definition pool_test_withdraw_with_fee :: "i128 \<Rightarrow> bool \<Rightarrow> ('fr, 'fq, 'g1, 'g1p, 'g2, 'gt, 'l) pool_host \<Rightarrow> 'l test_world \<Rightarrow> MixerError test" where
  "pool_test_withdraw_with_fee fee vk h w =
     and_then (pool_setup h w) (\<lambda>e.
     and_then (test_deposit h w (test_commitment 1) e) (\<lambda>e.
     and_then (get_root h e) (\<lambda>root.
     and_then (withdraw vk h zero_proof root (test_commitment 99) (tw_recipient w) (tw_relayer w) fee e) (\<lambda>_. Inr ()))))"

definition pool_test_withdraw_fee_too_high :: "bool \<Rightarrow> ('fr, 'fq, 'g1, 'g1p, 'g2, 'gt, 'l) pool_host \<Rightarrow> 'l test_world \<Rightarrow> MixerError test" where
  "pool_test_withdraw_fee_too_high = pool_test_withdraw_with_fee (TEST_MAX_FEE + 1)"

definition pool_test_withdraw_negative_fee :: "bool \<Rightarrow> ('fr, 'fq, 'g1, 'g1p, 'g2, 'gt, 'l) pool_host \<Rightarrow> 'l test_world \<Rightarrow> MixerError test" where
  "pool_test_withdraw_negative_fee = pool_test_withdraw_with_fee (- 1)"

definition pool_test_nullifier_not_spent_initially :: "('fr, 'fq, 'g1, 'g1p, 'g2, 'gt, 'l) pool_host \<Rightarrow> 'l test_world \<Rightarrow> MixerError test" where
  "pool_test_nullifier_not_spent_initially h w =
     and_then (pool_setup h w) (\<lambda>e.
     and_then (query_nullifier_spent (test_commitment 1) e) (\<lambda>spent.
     assert_true (\<not> spent)))"

definition pool_test_get_denomination :: "('fr, 'fq, 'g1, 'g1p, 'g2, 'gt, 'l) pool_host \<Rightarrow> 'l test_world \<Rightarrow> MixerError test" where
  "pool_test_get_denomination h w =
     and_then (pool_setup h w) (\<lambda>e.
     and_then (query_denomination e) (\<lambda>d.
     assert_eq d TEST_DENOMINATION))"

definition pool_test_get_root_returns_value :: "('fr, 'fq, 'g1, 'g1p, 'g2, 'gt, 'l) pool_host \<Rightarrow> 'l test_world \<Rightarrow> MixerError test" where
  "pool_test_get_root_returns_value h w =
     and_then (pool_setup h w) (\<lambda>e. and_then (get_root h e) (\<lambda>_. Inr ()))"

definition pool_test_deposit_count_increments :: "('fr, 'fq, 'g1, 'g1p, 'g2, 'gt, 'l) pool_host \<Rightarrow> 'l test_world \<Rightarrow> MixerError test" where
  "pool_test_deposit_count_increments h w =
     and_then (pool_setup h w) (\<lambda>e.
     and_then (get_deposit_count e) (\<lambda>n.
     and_then (assert_eq n 0) (\<lambda>_.
     and_then (test_deposit h w (test_commitment 1) e) (\<lambda>e.
     and_then (get_deposit_count e) (\<lambda>n.
     and_then (assert_eq n 1) (\<lambda>_.
     and_then (test_deposit h w (test_commitment 2) e) (\<lambda>e.
     and_then (get_deposit_count e) (\<lambda>n.
     assert_eq n 2))))))))"

definition pool_test_each_deposit_produces_unique_root :: "('fr, 'fq, 'g1, 'g1p, 'g2, 'gt, 'l) pool_host \<Rightarrow> 'l test_world \<Rightarrow> MixerError test" where
  "pool_test_each_deposit_produces_unique_root h w =
     and_then (pool_setup h w) (\<lambda>e.
     and_then (get_root h e) (\<lambda>root0.
     and_then (test_deposit h w (test_commitment 1) e) (\<lambda>e.
     and_then (get_root h e) (\<lambda>root1.
     and_then (test_deposit h w (test_commitment 2) e) (\<lambda>e.
     and_then (get_root h e) (\<lambda>root2.
     and_then (assert_ne root0 root1) (\<lambda>_.
     and_then (assert_ne root1 root2) (\<lambda>_.
     assert_ne root0 root2))))))))"

text \<open>Two pools at two addresses in one environment, which share the ledger of the token.\<close>

definition pool_test_same_commitment_order_produces_same_root :: "('fr, 'fq, 'g1, 'g1p, 'g2, 'gt, 'l) pool_host \<Rightarrow> Address \<Rightarrow>
    'l test_world \<Rightarrow> MixerError test" where
  "pool_test_same_commitment_order_produces_same_root h pool_b w =
     (let h_b = h\<lparr>current_contract_address := pool_b\<rparr>;
          l = tw_mint w (tw_token w) (tw_ledger w) (tw_depositor w) (TEST_DENOMINATION * 20);
          c1 = array_of (replicate 32 1); c2 = array_of (replicate 32 2)
      in
     and_then (initialize h mock_all_auths (tw_admin w) (tw_token w) TEST_DENOMINATION TEST_MAX_FEE TEST_TREE_DEPTH
                 TEST_ROOT_HISTORY (fresh_env l)) (\<lambda>a.
     and_then (initialize h_b mock_all_auths (tw_admin w) (tw_token w) TEST_DENOMINATION TEST_MAX_FEE TEST_TREE_DEPTH
                 TEST_ROOT_HISTORY (fresh_env (ledger a))) (\<lambda>b.
     let a = a\<lparr>ledger := ledger b\<rparr> in
     and_then (test_deposit h w c1 a) (\<lambda>a.
     and_then (test_deposit h w c2 a) (\<lambda>a.
     let b = b\<lparr>ledger := ledger a\<rparr> in
     and_then (test_deposit h_b w c1 b) (\<lambda>b.
     and_then (test_deposit h_b w c2 b) (\<lambda>b.
     and_then (get_root h a) (\<lambda>root_a.
     and_then (get_root h_b b) (\<lambda>root_b.
     assert_eq root_a root_b)))))))))"

subsection \<open>The tests of the address encoding\<close>

definition pool_test_address_to_field_bytes_nonzero :: "('fr, 'fq, 'g1, 'g1p, 'g2, 'gt, 'l) pool_host \<Rightarrow> Address \<Rightarrow> MixerError test" where
  "pool_test_address_to_field_bytes_nonzero h addr =
     and_then (address_to_field_bytes h addr) (\<lambda>r. assert_ne r (array_of (replicate 32 0)))"

definition pool_test_address_to_field_bytes_deterministic :: "('fr, 'fq, 'g1, 'g1p, 'g2, 'gt, 'l) pool_host \<Rightarrow> Address \<Rightarrow> MixerError test" where
  "pool_test_address_to_field_bytes_deterministic h addr =
     and_then (address_to_field_bytes h addr) (\<lambda>r1.
     and_then (address_to_field_bytes h addr) (\<lambda>r2.
     assert_eq r1 r2))"

definition pool_test_address_to_field_bytes_different_addrs :: "('fr, 'fq, 'g1, 'g1p, 'g2, 'gt, 'l) pool_host \<Rightarrow> Address \<Rightarrow> Address \<Rightarrow> MixerError test" where
  "pool_test_address_to_field_bytes_different_addrs h addr1 addr2 =
     and_then (address_to_field_bytes h addr1) (\<lambda>r1.
     and_then (address_to_field_bytes h addr2) (\<lambda>r2.
     assert_ne r1 r2))"

subsection \<open>The state a test works on\<close>

text \<open>The pool of the tests after the deposits \<open>cs\<close>, when the depositor has money for \<open>k\<close> more.\<close>

definition test_state :: "('fr, 'fq, 'g1, 'g1p, 'g2, 'gt, 'l) pool_host \<Rightarrow> 'l test_world \<Rightarrow> bytes32 list \<Rightarrow> nat \<Rightarrow>
    'l pool_env \<Rightarrow> bool" where
  "test_state h w cs k e \<longleftrightarrow>
     (\<exists>p. pool_rep h e p \<and> p_token p = tw_token w \<and> p_denomination p = TEST_DENOMINATION \<and>
        p_max_fee p = TEST_MAX_FEE \<and> p_depth p = TEST_TREE_DEPTH \<and> p_history_size p = TEST_ROOT_HISTORY \<and>
        p_leaves p = cs \<and> p_spent p = {}) \<and>
     ledger e \<in> tw_ledgers w \<and> tw_balance w (tw_token w) (ledger e) (tw_depositor w) = sint TEST_DENOMINATION * int k \<and>
     tw_balance w (tw_token w) (ledger e) (current_contract_address h) = sint TEST_DENOMINATION * int (length cs)"

lemma world_okD:
  assumes "world_ok h w"
  shows "token_laws h (tw_balance w)" "token_serves h (tw_balance w) (tw_token w) (tw_ledgers w) (tw_addresses w)"
    "tw_depositor w \<noteq> current_contract_address h" "tw_depositor w \<in> tw_addresses w" "current_contract_address h \<in> tw_addresses w"
    "tw_ledger w \<in> tw_ledgers w" "a \<in> tw_addresses w \<Longrightarrow> tw_balance w (tw_token w) (tw_ledger w) a = 0"
  using assms by (simp_all add: world_ok_def)

lemma world_mint:
  assumes "world_ok h w" and "l \<in> tw_ledgers w" and "0 \<le> sint x" and "tw_balance w (tw_token w) l (tw_depositor w) + sint x < 2 ^ 127"
  shows "tw_mint w (tw_token w) l (tw_depositor w) x \<in> tw_ledgers w"
    "tw_balance w (tw_token w) (tw_mint w (tw_token w) l (tw_depositor w) x) b =
       tw_balance w (tw_token w) l b + (if b = tw_depositor w then sint x else 0)"
  using assms by (simp_all add: world_ok_def)

lemma test_initialize:
  assumes "l \<in> tw_ledgers w" and "tw_balance w (tw_token w) l (tw_depositor w) = sint TEST_DENOMINATION * int k"
    and "tw_balance w (tw_token w) l (current_contract_address h) = 0"
  shows "\<exists>e. initialize h mock_all_auths (tw_admin w) (tw_token w) TEST_DENOMINATION TEST_MAX_FEE TEST_TREE_DEPTH
      TEST_ROOT_HISTORY (fresh_env l) = Inr e \<and> test_state h w [] k e \<and> ledger e = l"
proof -
  let ?p = "\<lparr>p_admin = tw_admin w, p_token = tw_token w, p_denomination = TEST_DENOMINATION, p_max_fee = TEST_MAX_FEE,
      p_depth = TEST_TREE_DEPTH, p_history_size = TEST_ROOT_HISTORY, p_leaves = [], p_spent = {}, p_log = [], p_ledger = l\<rparr>"
  have "a_initialize h mock_all_auths (tw_admin w) (tw_token w) TEST_DENOMINATION TEST_MAX_FEE TEST_TREE_DEPTH
      TEST_ROOT_HISTORY l = Inr ?p"
    by (simp add: a_initialize_def test_constants)
  then obtain e where "initialize h mock_all_auths (tw_admin w) (tw_token w) TEST_DENOMINATION TEST_MAX_FEE TEST_TREE_DEPTH
      TEST_ROOT_HISTORY (fresh_env l) = Inr e" and rep: "pool_rep h e ?p"
    using initialize_refines [of h mock_all_auths "tw_admin w" "tw_token w" TEST_DENOMINATION TEST_MAX_FEE TEST_TREE_DEPTH
        TEST_ROOT_HISTORY l] by (auto dest: res_rel_Inr_abs)
  moreover have "ledger e = l" using pool_repD(7) [OF rep] by simp
  moreover have "test_state h w [] k e"
    unfolding test_state_def using rep assms \<open>ledger e = l\<close> by (intro conjI exI [of _ ?p]) simp_all
  ultimately show ?thesis by blast
qed

lemma test_state_ledger:
  assumes st: "test_state h w cs k e" and led: "l \<in> tw_ledgers w"
    and "tw_balance w (tw_token w) l (tw_depositor w) = sint TEST_DENOMINATION * int j"
    and "tw_balance w (tw_token w) l (current_contract_address h) = sint TEST_DENOMINATION * int (length cs)"
  shows "test_state h w cs j (e\<lparr>ledger := l\<rparr>)"
proof -
  obtain p where p: "pool_rep h e p" "p_token p = tw_token w" "p_denomination p = TEST_DENOMINATION"
      "p_max_fee p = TEST_MAX_FEE" "p_depth p = TEST_TREE_DEPTH" "p_history_size p = TEST_ROOT_HISTORY"
      "p_leaves p = cs" "p_spent p = {}"
    using st by (auto simp: test_state_def)
  show ?thesis
    unfolding test_state_def
    by (intro conjI exI [of _ "p\<lparr>p_ledger := l\<rparr>"]) (use p assms(2-4) pool_rep_ledger [OF p(1)] in simp_all)
qed

lemma test_mint_state:
  assumes ok: "world_ok h w" and st: "test_state h w cs k e" and x: "sint x = sint TEST_DENOMINATION * int m"
    and few: "k + m \<le> 100"
  shows "test_state h w cs (k + m) (test_mint w x e)"
proof -
  have led: "ledger e \<in> tw_ledgers w" and bal: "tw_balance w (tw_token w) (ledger e) (tw_depositor w) = sint TEST_DENOMINATION * int k"
    using st by (simp_all add: test_state_def)
  have "1000000000 * int (k + m) \<le> 1000000000 * 100" using few by simp
  then have room: "0 \<le> sint x" "tw_balance w (tw_token w) (ledger e) (tw_depositor w) + sint x < 2 ^ 127"
    unfolding bal x by (simp_all add: test_constants)
  note minted = world_mint [OF ok led room]
  show ?thesis
    unfolding test_mint_def
    by (rule test_state_ledger [OF st minted(1)])
      (use st world_okD(3) [OF ok] in \<open>auto simp: minted(2) x test_state_def algebra_simps\<close>)
qed

lemma setup_state:
  assumes "world_ok h w"
  shows "\<exists>e. pool_setup h w = Inr e \<and> test_state h w [] 10 e"
proof -
  note zero = world_okD(7) [OF assms]
  obtain e where e: "initialize h mock_all_auths (tw_admin w) (tw_token w) TEST_DENOMINATION TEST_MAX_FEE TEST_TREE_DEPTH
      TEST_ROOT_HISTORY (fresh_env (tw_ledger w)) = Inr e" "test_state h w [] 0 e"
    using test_initialize [OF world_okD(6) [OF assms], of 0 h] zero [OF world_okD(4) [OF assms]] zero [OF world_okD(5) [OF assms]] by auto
  have "sint (TEST_DENOMINATION * 10) = sint TEST_DENOMINATION * int 10" by (simp add: test_constants)
  from test_mint_state [OF assms e(2) this] show ?thesis by (simp add: pool_setup_def e(1))
qed

text \<open>A run of deposits, and what a test reads afterwards.\<close>

lemma test_deposit_all:
  assumes ok: "world_ok h w" and st: "test_state h w cs (k + length ds) e"
    and new: "distinct (cs @ ds)" and room: "length cs + length ds \<le> 16"
  shows "\<exists>e'. deposit_all h mock_all_auths (tw_depositor w) ds e = Inr e' \<and> test_state h w (cs @ ds) k e' \<and>
    (\<forall>a. a \<noteq> tw_depositor w \<and> a \<noteq> current_contract_address h \<longrightarrow>
       tw_balance w (tw_token w) (ledger e') a = tw_balance w (tw_token w) (ledger e) a)"
proof -
  obtain p where p: "pool_rep h e p" "p_token p = tw_token w" "p_denomination p = TEST_DENOMINATION"
      "p_max_fee p = TEST_MAX_FEE" "p_depth p = TEST_TREE_DEPTH" "p_history_size p = TEST_ROOT_HISTORY"
      "p_leaves p = cs" "p_spent p = {}"
    using st by (auto simp: test_state_def)
  have bal: "tw_balance w (tw_token w) (ledger e) (tw_depositor w) = sint TEST_DENOMINATION * int (k + length ds)"
      "tw_balance w (tw_token w) (ledger e) (current_contract_address h) = sint TEST_DENOMINATION * int (length cs)"
    using st by (simp_all add: test_state_def)
  have led: "p_ledger p = ledger e" using pool_repD(7) [OF p(1)] by simp
  have led0: "ledger e \<in> tw_ledgers w" using st by (simp add: test_state_def)
  have "length (p_leaves p) + length ds \<le> tree_capacity (p_depth p)"
    using room by (simp add: p test_constants tree_capacity_def)
  moreover have "can_fund h (tw_balance w) (tw_depositor w) (length ds) p"
  proof -
    have "sint TEST_DENOMINATION * int (length cs) + sint TEST_DENOMINATION * int (length ds)
        = 1000000000 * int (length cs + length ds)"
      by (simp add: test_constants algebra_simps)
    also have "\<dots> \<le> 1000000000 * 16" using room by (intro mult_left_mono) simp_all
    finally show ?thesis by (simp add: can_fund_def p led bal) (simp add: test_constants)
  qed
  moreover have "distinct ds" "set ds \<inter> set (p_leaves p) = {}" using new by (auto simp: p)
  ultimately obtain e' p' where e': "deposit_all h mock_all_auths (tw_depositor w) ds e = Inr e'" "pool_rep h e' p'"
      "p_leaves p' = p_leaves p @ ds" "same_config p p'" "p_spent p' = p_spent p" "ledger e' \<in> tw_ledgers w"
      "\<forall>a. tw_balance w (tw_token w) (ledger e') a =
         tw_balance w (tw_token w) (ledger e) a + paid_in h (tw_depositor w) p (length ds) a"
    using deposit_all_ok [where auth = mock_all_auths and cs = ds and p = p and e = e, OF world_okD(1) [OF ok] _ world_okD(4,5) [OF ok] led0
        mock_all_auths world_okD(3) [OF ok] p(1)] world_okD(2) [OF ok]
    unfolding p(2) by blast
  have "test_state h w (cs @ ds) k e'"
    unfolding test_state_def
    by (intro conjI exI [of _ p'])
      (use e' p bal world_okD(3) [OF ok] in \<open>simp_all add: same_config_def paid_in_def algebra_simps\<close>)
  moreover have "tw_balance w (tw_token w) (ledger e') a = tw_balance w (tw_token w) (ledger e) a"
    if "a \<noteq> tw_depositor w" "a \<noteq> current_contract_address h" for a
    using e'(7) p(2) that by (simp add: paid_in_def)
  ultimately show ?thesis using e'(1) by blast
qed

lemma test_deposit_ok:
  assumes "world_ok h w" and "test_state h w cs (Suc k) e" and "distinct (cs @ [c])" and "length cs < 16"
  shows "\<exists>e'. test_deposit h w c e = Inr e' \<and> test_state h w (cs @ [c]) k e'"
  using test_deposit_all [OF assms(1), of cs k "[c]" e] assms(2-)
  by (auto simp: test_deposit_def and_then_eq_Inr)

lemma test_reads:
  assumes "test_state h w cs k e"
  shows "query_denomination e = Inr TEST_DENOMINATION" "get_deposit_count e = Inr (word_of_nat (length cs))"
    "get_root h e = Inr (tree_root h 4 cs)" "query_nullifier_spent n e = Inr False"
    "\<exists>roots. get_root_history e = Inr roots \<and> length roots = min 10 (Suc (length cs))"
    "tw_balance w (tw_token w) (ledger e) (tw_depositor w) = sint TEST_DENOMINATION * int k"
proof -
  obtain p where p: "pool_rep h e p" "p_denomination p = TEST_DENOMINATION" "p_depth p = TEST_TREE_DEPTH"
      "p_history_size p = TEST_ROOT_HISTORY" "p_leaves p = cs" "p_spent p = {}"
    and bal: "tw_balance w (tw_token w) (ledger e) (tw_depositor w) = sint TEST_DENOMINATION * int k"
    using assms by (auto simp: test_state_def)
  have sizes: "unat TEST_TREE_DEPTH = 4" "unat TEST_ROOT_HISTORY = 10" by (simp_all add: test_constants)
  note q = queries_rep [OF p(1)]
  show "query_denomination e = Inr TEST_DENOMINATION" "get_deposit_count e = Inr (word_of_nat (length cs))"
    "get_root h e = Inr (tree_root h 4 cs)" "query_nullifier_spent n e = Inr False"
    by (simp_all add: q p sizes)
  show "\<exists>roots. get_root_history e = Inr roots \<and> length roots = min 10 (Suc (length cs))"
    using length_ring_list [of 10 "p_roots h p"] by (simp add: q p sizes del: upt_Suc)
  show "tw_balance w (tw_token w) (ledger e) (tw_depositor w) = sint TEST_DENOMINATION * int k" by (rule bal)
qed

text \<open>The calls that are refused.\<close>

lemma test_deposit_refused:
  assumes "test_state h w cs k e"
  shows "c \<in> set cs \<Longrightarrow> test_deposit h w c e = Inl (Err DuplicateCommitment)"
    and "c \<notin> set cs \<Longrightarrow> length cs = 16 \<Longrightarrow> test_deposit h w c e = Inl (Err TreeFull)"
proof -
  obtain p where p: "pool_rep h e p" "p_depth p = TEST_TREE_DEPTH" "p_leaves p = cs"
    using assms by (auto simp: test_state_def)
  note ref = deposit_refines [OF p(1), of mock_all_auths "tw_depositor w" c]
  show "c \<in> set cs \<Longrightarrow> test_deposit h w c e = Inl (Err DuplicateCommitment)"
    using ref by (auto simp: test_deposit_def a_deposit_def p dest: res_rel_Inl_abs)
  show "c \<notin> set cs \<Longrightarrow> length cs = 16 \<Longrightarrow> test_deposit h w c e = Inl (Err TreeFull)"
    using ref by (auto simp: test_deposit_def a_deposit_def p tree_capacity_def test_constants dest: res_rel_Inl_abs)
qed

lemma test_withdraw_refused:
  assumes "test_state h w cs k e"
  shows "(\<And>n. root \<noteq> tree_root h 4 (take n cs)) \<Longrightarrow>
      withdraw vk h pf root n recipient relayer fee e = Inl (Err InvalidRoot)"
    and "sint fee < 0 \<or> sint TEST_MAX_FEE < sint fee \<Longrightarrow>
      withdraw vk h pf (tree_root h 4 cs) n recipient relayer fee e = Inl (Err FeeTooHigh)"
proof -
  obtain p where p: "pool_rep h e p" "p_depth p = TEST_TREE_DEPTH" "p_history_size p = TEST_ROOT_HISTORY"
      "p_leaves p = cs" "p_max_fee p = TEST_MAX_FEE" "p_spent p = {}"
    using assms by (auto simp: test_state_def)
  have sizes: "unat TEST_TREE_DEPTH = 4" "p_history_size p \<noteq> 0" by (simp_all add: p test_constants)
  note ref = withdraw_refines [OF p(1)]
  show "withdraw vk h pf root n recipient relayer fee e = Inl (Err InvalidRoot)"
    if "\<And>n. root \<noteq> tree_root h 4 (take n cs)"
  proof -
    have "\<not> p_known h p root" using that by (auto simp: p_known_iff [OF sizes(2)] p sizes(1))
    then show ?thesis using ref [of vk pf root n recipient relayer fee] by (auto simp: a_withdraw_def dest: res_rel_Inl_abs)
  qed
  show "withdraw vk h pf (tree_root h 4 cs) n recipient relayer fee e = Inl (Err FeeTooHigh)"
    if "sint fee < 0 \<or> sint TEST_MAX_FEE < sint fee"
    using that current_root_known [OF sizes(2), of h] ref [of vk pf "tree_root h 4 cs" n recipient relayer fee]
    by (auto simp: a_withdraw_def p sizes dest: res_rel_Inl_abs)
qed

subsection \<open>The commitments and roots of the tests\<close>

lemma fold_update_other:
  "0 \<notin> set is \<Longrightarrow> fold (\<lambda>i bs. bs[i := f i]) is bs ! 0 = bs ! 0"
  "length (fold (\<lambda>i bs. bs[i := f i]) is bs) = length bs"
  by (induction "is" arbitrary: bs) auto

lemma test_commitment_seed: "array_list (test_commitment seed) ! 0 = seed"
  by (simp add: test_commitment_def fold_update_other)

lemma test_commitment_eq [simp]: "test_commitment a = test_commitment b \<longleftrightarrow> a = b"
  by (metis test_commitment_seed)

lemma distinct_commitments [simp]: "distinct (map test_commitment seeds) \<longleftrightarrow> distinct seeds"
  by (simp add: distinct_map inj_on_def)

lemma test_seeds:
  "distinct (map word_of_nat [1..<6] :: u8 list)"
  "distinct (map (\<lambda>i. word_of_nat i + 100) [0..<16] :: u8 list)"
  "distinct (map (\<lambda>i. word_of_nat i + 50) [0..<16] :: u8 list)"
  "200 \<notin> set (map (\<lambda>i. word_of_nat i + 50) [0..<16] :: u8 list)"
  "distinct (map (\<lambda>i. word_of_nat i + 30) [0..<12] :: u8 list)"
  by code_simp+

lemma le_val_replicate_255: "le_val (replicate n 255) + 1 = 256 ^ n"
  by (induction n) simp_all

text \<open>The fake root of 32 bytes \<open>0xFF\<close> is no field element, so it is the root of no tree.\<close>

lemma fake_root_no_root:
  assumes "fr_laws c"
  shows "array_of (replicate 32 255) \<noteq> tree_root c 4 xs"
proof -
  have "4 = Suc 3" by simp
  then have "array_val (tree_root c 4 xs) < bn254_r"
    by (simp only: node.simps hash_pair_bytes_def Let_def fr_to_bytes_canonical [OF assms])
  moreover have "bn254_r < array_val (array_of (replicate 32 255) :: bytes32)"
    using le_val_replicate_255 [of 32] by (simp add: array_val_def be_val_def bn254_r_def)
  ultimately show ?thesis by force
qed

text \<open>The address of the contract does not enter its hashes.\<close>

lemma other_address:
  "tree_root (h\<lparr>current_contract_address := b\<rparr>) d xs = tree_root h d xs"
  "world_ok h w \<Longrightarrow> tw_depositor w \<noteq> b \<Longrightarrow> b \<in> tw_addresses w \<Longrightarrow> world_ok (h\<lparr>current_contract_address := b\<rparr>) w"
proof -
  have "hash_pair_bytes (h\<lparr>current_contract_address := b\<rparr>) = hash_pair_bytes h"
    "zero_leaf (h\<lparr>current_contract_address := b\<rparr>) = zero_leaf h"
    by (simp_all add: fun_eq_iff hash_pair_bytes_def zero_leaf_def hash_single_bytes_def hash_pair_def hash_single_def
        bytes_to_fr_def fr_to_bytes_def)
  then show "tree_root (h\<lparr>current_contract_address := b\<rparr>) d xs = tree_root h d xs" by simp
  show "world_ok h w \<Longrightarrow> tw_depositor w \<noteq> b \<Longrightarrow> b \<in> tw_addresses w \<Longrightarrow> world_ok (h\<lparr>current_contract_address := b\<rparr>) w"
    by (simp add: world_ok_def token_laws_def token_serves_def)
qed

subsection \<open>The tests pass\<close>

text \<open>The tests that do not depend on what the hash functions return, in the order of the file.\<close>

definition pool_suite :: "bool \<Rightarrow> ('fr, 'fq, 'g1, 'g1p, 'g2, 'gt, 'l) pool_host \<Rightarrow> Address \<Rightarrow> Address \<Rightarrow> 'l test_world \<Rightarrow> bool list" where
  "pool_suite vk h pool_b addr w =
    [test_passes (pool_test_initialize_success h w),
     test_panics_with mixer_error_code 1 (pool_test_initialize_twice h w),
     test_panics_with mixer_error_code 9 (pool_test_initialize_zero_denomination h w),
     test_panics_with mixer_error_code 10 (pool_test_initialize_zero_depth h w),
     test_panics_with mixer_error_code 11 (pool_test_initialize_zero_history_size h w),
     test_passes (pool_test_deposit_success h w),
     test_passes (pool_test_deposit_adds_to_root_history h w),
     test_panics_with mixer_error_code 3 (pool_test_deposit_duplicate_commitment h w),
     test_passes (pool_test_multiple_deposits h w),
     test_passes (pool_test_tree_capacity h w),
     test_panics_with mixer_error_code 4 (pool_test_tree_full_rejects_deposit h w),
     test_passes (pool_test_root_history_circular_buffer h w),
     test_panics_with mixer_error_code 5 (pool_test_withdraw_invalid_root vk h w),
     test_panics_with mixer_error_code 8 (pool_test_withdraw_fee_too_high vk h w),
     test_panics_with mixer_error_code 8 (pool_test_withdraw_negative_fee vk h w),
     test_passes (pool_test_nullifier_not_spent_initially h w),
     test_passes (pool_test_get_denomination h w),
     test_passes (pool_test_get_root_returns_value h w),
     test_passes (pool_test_deposit_count_increments h w),
     test_passes (pool_test_same_commitment_order_produces_same_root h pool_b w),
     test_passes (pool_test_address_to_field_bytes_deterministic h addr)]"

lemma pool_initialize_tests:
  assumes ok: "world_ok h w"
  shows "test_passes (pool_test_initialize_success h w)"
    "test_panics_with mixer_error_code 1 (pool_test_initialize_twice h w)"
    "test_panics_with mixer_error_code 9 (pool_test_initialize_zero_denomination h w)"
    "test_panics_with mixer_error_code 10 (pool_test_initialize_zero_depth h w)"
    "test_panics_with mixer_error_code 11 (pool_test_initialize_zero_history_size h w)"
    "test_passes (pool_test_nullifier_not_spent_initially h w)"
    "test_passes (pool_test_get_denomination h w)"
    "test_passes (pool_test_get_root_returns_value h w)"
proof -
  obtain e where e: "pool_setup h w = Inr e" and st: "test_state h w [] 10 e" using setup_state [OF ok] by blast
  then obtain p where rep: "pool_rep h e p" by (auto simp: test_state_def)
  note r = test_reads [OF st]
  show "test_passes (pool_test_initialize_success h w)" "test_passes (pool_test_nullifier_not_spent_initially h w)"
    "test_passes (pool_test_get_denomination h w)" "test_passes (pool_test_get_root_returns_value h w)"
    using r(5) by (auto simp: pool_test_initialize_success_def pool_test_nullifier_not_spent_initially_def
        pool_test_get_denomination_def pool_test_get_root_returns_value_def e r(1-4))
  show "test_panics_with mixer_error_code 1 (pool_test_initialize_twice h w)"
    by (simp add: pool_test_initialize_twice_def e initialize_twice [OF rep])
  show "test_panics_with mixer_error_code 9 (pool_test_initialize_zero_denomination h w)"
    "test_panics_with mixer_error_code 10 (pool_test_initialize_zero_depth h w)"
    "test_panics_with mixer_error_code 11 (pool_test_initialize_zero_history_size h w)"
    by (simp_all add: pool_test_initialize_zero_denomination_def pool_test_initialize_zero_depth_def
        pool_test_initialize_zero_history_size_def initialize_def is_initialized_def test_constants)
qed

text \<open>The pool of the tests after one deposit, and after two.\<close>

lemma one_deposit:
  assumes ok: "world_ok h w"
  shows "\<exists>e e1. pool_setup h w = Inr e \<and> test_state h w [] 10 e \<and>
    test_deposit h w c e = Inr e1 \<and> test_state h w [c] 9 e1"
proof -
  obtain e where e: "pool_setup h w = Inr e" and st: "test_state h w [] 10 e" using setup_state [OF ok] by blast
  have "test_state h w [] (Suc 9) e" using st by simp
  from test_deposit_ok [OF ok this, of c] show ?thesis using e st by auto
qed

lemma two_deposits:
  assumes ok: "world_ok h w" and "c \<noteq> d"
  shows "\<exists>e e1 e2. pool_setup h w = Inr e \<and> test_state h w [] 10 e \<and>
    test_deposit h w c e = Inr e1 \<and> test_state h w [c] 9 e1 \<and>
    test_deposit h w d e1 = Inr e2 \<and> test_state h w [c, d] 8 e2"
proof -
  obtain e e1 where e: "pool_setup h w = Inr e" "test_state h w [] 10 e" "test_deposit h w c e = Inr e1"
    and st: "test_state h w [c] 9 e1" using one_deposit [OF ok] by blast
  have "test_state h w [c] (Suc 8) e1" using st by simp
  from test_deposit_ok [OF ok this, of d] show ?thesis using e st assms(2) by auto
qed

lemma pool_deposit_tests:
  assumes ok: "world_ok h w"
  shows "test_passes (pool_test_deposit_success h w)"
    "test_passes (pool_test_deposit_adds_to_root_history h w)"
    "test_panics_with mixer_error_code 3 (pool_test_deposit_duplicate_commitment h w)"
    "test_passes (pool_test_deposit_count_increments h w)"
proof -
  obtain e e1 e2 where e: "pool_setup h w = Inr e" "test_deposit h w (test_commitment 1) e = Inr e1"
      "test_deposit h w (test_commitment 2) e1 = Inr e2"
    and st: "test_state h w [] 10 e" "test_state h w [test_commitment 1] 9 e1"
      "test_state h w [test_commitment 1, test_commitment 2] 8 e2"
    using two_deposits [OF ok, of "test_commitment 1" "test_commitment 2"] by auto
  note r = test_reads [OF st(1)] test_reads [OF st(2)] test_reads [OF st(3)]
  show "test_passes (pool_test_deposit_success h w)" "test_passes (pool_test_deposit_count_increments h w)"
    by (simp_all add: pool_test_deposit_success_def pool_test_deposit_count_increments_def e r) (simp add: test_constants)
  show "test_passes (pool_test_deposit_adds_to_root_history h w)"
    using test_reads(5) [OF st(2)] by (auto simp: pool_test_deposit_adds_to_root_history_def e)
  show "test_panics_with mixer_error_code 3 (pool_test_deposit_duplicate_commitment h w)"
    by (simp add: pool_test_deposit_duplicate_commitment_def e test_deposit_refused(1) [OF st(2)])
qed

text \<open>A run of deposits after minting for \<open>m\<close> more.\<close>

lemma test_run:
  assumes ok: "world_ok h w" and seeds: "distinct seeds" "length seeds \<le> 16" "length seeds \<le> 10 + m" "m \<le> 90"
    and x: "sint x = sint TEST_DENOMINATION * int m"
  shows "\<exists>e e1. pool_setup h w = Inr e \<and> test_deposits h w seeds (test_mint w x e) = Inr e1 \<and>
    test_state h w (map test_commitment seeds) (10 + m - length seeds) e1"
proof -
  obtain e where e: "pool_setup h w = Inr e" and st: "test_state h w [] 10 e" using setup_state [OF ok] by blast
  have "test_state h w [] (10 + m - length seeds + length (map test_commitment seeds)) (test_mint w x e)"
    using test_mint_state [OF ok st x] seeds(3,4) by simp
  from test_deposit_all [OF ok this] e show ?thesis
    using seeds by (auto simp: test_deposits_def simp del: map_map)
qed

lemma pool_run_tests:
  assumes ok: "world_ok h w"
  shows "test_passes (pool_test_multiple_deposits h w)"
    "test_passes (pool_test_tree_capacity h w)"
    "test_panics_with mixer_error_code 4 (pool_test_tree_full_rejects_deposit h w)"
    "test_passes (pool_test_root_history_circular_buffer h w)"
proof -
  have minted: "sint (TEST_DENOMINATION * 20) = sint TEST_DENOMINATION * int 20"
      "sint (TEST_DENOMINATION * 15) = sint TEST_DENOMINATION * int 15"
    by (simp_all add: test_constants)
  obtain e where e: "pool_setup h w = Inr e" and st: "test_state h w [] 10 e" using setup_state [OF ok] by blast
  have "test_state h w [] (5 + length (map test_commitment (map word_of_nat [1..<6]))) e" using st by simp
  from test_deposit_all [OF ok this] test_seeds(1)
  obtain e1 where e1: "test_deposits h w (map word_of_nat [1..<6]) e = Inr e1"
    and st1: "test_state h w (map test_commitment (map word_of_nat [1..<6])) 5 e1"
    by (auto simp: test_deposits_def simp del: map_map upt_Suc One_nat_def)
  show "test_passes (pool_test_multiple_deposits h w)"
    using test_reads(5) [OF st1] by (auto simp: pool_test_multiple_deposits_def e e1 test_reads(2) [OF st1] simp del: upt_Suc One_nat_def)
  show "test_passes (pool_test_tree_capacity h w)"
    using test_run [OF ok test_seeds(2) _ _ _ minted(1)]
    by (auto simp: pool_test_tree_capacity_def Let_def dest!: test_reads(2))
  obtain f f1 where f: "pool_setup h w = Inr f"
      "test_deposits h w (map (\<lambda>i. word_of_nat i + 50) [0..<16]) (test_mint w (TEST_DENOMINATION * 20) f) = Inr f1"
    and stf: "test_state h w (map test_commitment (map (\<lambda>i. word_of_nat i + 50) [0..<16])) 14 f1"
    using test_run [OF ok test_seeds(3) _ _ _ minted(1)] by auto
  have "test_commitment 200 \<notin> set (map test_commitment (map (\<lambda>i. word_of_nat i + 50) [0..<16]))"
    using test_seeds(4) by auto
  from test_deposit_refused(2) [OF stf this]
  show "test_panics_with mixer_error_code 4 (pool_test_tree_full_rejects_deposit h w)"
    by (simp add: pool_test_tree_full_rejects_deposit_def Let_def f)
  show "test_passes (pool_test_root_history_circular_buffer h w)"
    using test_run [OF ok test_seeds(5) _ _ _ minted(2)]
    by (auto simp: pool_test_root_history_circular_buffer_def Let_def TEST_ROOT_HISTORY_def dest!: test_reads(5))
qed

lemma pool_withdraw_tests:
  assumes ok: "world_ok h w" and law: "fr_laws h"
  shows "test_panics_with mixer_error_code 5 (pool_test_withdraw_invalid_root vk h w)"
    "test_panics_with mixer_error_code 8 (pool_test_withdraw_fee_too_high vk h w)"
    "test_panics_with mixer_error_code 8 (pool_test_withdraw_negative_fee vk h w)"
proof -
  obtain e e1 where e: "pool_setup h w = Inr e" "test_deposit h w (test_commitment 1) e = Inr e1"
    and st: "test_state h w [test_commitment 1] 9 e1"
    using one_deposit [OF ok] by blast
  have "withdraw vk h zero_proof (array_of (replicate 32 255)) n recipient relayer fee e1 = Inl (Err InvalidRoot)"
    for n recipient relayer fee
    by (rule test_withdraw_refused(1) [OF st fake_root_no_root [OF law]])
  then show "test_panics_with mixer_error_code 5 (pool_test_withdraw_invalid_root vk h w)"
    by (simp add: pool_test_withdraw_invalid_root_def e)
  have "sint TEST_MAX_FEE < sint (TEST_MAX_FEE + 1)" "sint (- 1 :: i128) < 0" by (simp_all add: test_constants)
  then show "test_panics_with mixer_error_code 8 (pool_test_withdraw_fee_too_high vk h w)"
    "test_panics_with mixer_error_code 8 (pool_test_withdraw_negative_fee vk h w)"
    by (simp_all add: pool_test_withdraw_fee_too_high_def pool_test_withdraw_negative_fee_def
        pool_test_withdraw_with_fee_def e test_reads(3) [OF st] test_withdraw_refused(2) [OF st])
qed

lemma pool_same_root_test:
  assumes ok: "world_ok h w" and other: "tw_depositor w \<noteq> pool_b" "current_contract_address h \<noteq> pool_b"
    and pool_b: "pool_b \<in> tw_addresses w"
  shows "test_passes (pool_test_same_commitment_order_produces_same_root h pool_b w)"
proof -
  let ?hb = "h\<lparr>current_contract_address := pool_b\<rparr>"
  let ?l = "tw_mint w (tw_token w) (tw_ledger w) (tw_depositor w) (TEST_DENOMINATION * 20)"
  let ?c = "array_of (replicate 32 1) :: bytes32" and ?d = "array_of (replicate 32 2) :: bytes32"
  let ?bal = "tw_balance w (tw_token w)"
  have okb: "world_ok ?hb w" by (rule other_address(2) [OF ok other(1) pool_b])
  have neq: "?c \<noteq> ?d" by (simp add: array_eq_iff)
  have minted: "sint (TEST_DENOMINATION * 20) = sint TEST_DENOMINATION * int 20" by (simp add: test_constants)
  have zero: "?bal (tw_ledger w) a = 0" if "a \<in> tw_addresses w" for a using world_okD(7) [OF ok that] .
  have room: "0 \<le> sint (TEST_DENOMINATION * 20)" "?bal (tw_ledger w) (tw_depositor w) + sint (TEST_DENOMINATION * 20) < 2 ^ 127"
    by (simp_all add: zero [OF world_okD(4) [OF ok]] minted) (simp_all add: test_constants)
  note l = world_mint [OF ok world_okD(6) [OF ok] room]
  have dep: "?bal ?l (tw_depositor w) = sint TEST_DENOMINATION * int 20" by (simp add: l(2) zero [OF world_okD(4) [OF ok]] minted)
  have pools: "?bal ?l (current_contract_address h) = 0" "?bal ?l pool_b = 0"
    using world_okD(3) [OF ok] other(1) by (simp_all add: l(2) zero [OF world_okD(5) [OF ok]] zero [OF pool_b])
  obtain a where a: "initialize h mock_all_auths (tw_admin w) (tw_token w) TEST_DENOMINATION TEST_MAX_FEE TEST_TREE_DEPTH
      TEST_ROOT_HISTORY (fresh_env ?l) = Inr a" "test_state h w [] 20 a" "ledger a = ?l"
    using test_initialize [OF l(1) dep pools(1)] by blast
  obtain b where b: "initialize ?hb mock_all_auths (tw_admin w) (tw_token w) TEST_DENOMINATION TEST_MAX_FEE TEST_TREE_DEPTH
      TEST_ROOT_HISTORY (fresh_env ?l) = Inr b" "test_state ?hb w [] 20 b" "ledger b = ?l"
    using test_initialize [where h = ?hb, OF l(1) dep] pools(2) by auto
  have "test_state h w [] (18 + length [?c, ?d]) a" using a(2) by simp
  from test_deposit_all [OF ok this] neq
  obtain a1 a2 where a2: "test_deposit h w ?c a = Inr a1" "test_deposit h w ?d a1 = Inr a2"
    and sta: "test_state h w [?c, ?d] 18 a2" and same: "?bal (ledger a2) pool_b = ?bal ?l pool_b"
    using other a(3) by (auto simp: test_deposit_def and_then_eq_Inr)
  have "test_state ?hb w [] (16 + length [?c, ?d]) (b\<lparr>ledger := ledger a2\<rparr>)"
    by (rule test_state_ledger [OF b(2)]) (use sta same pools(2) in \<open>simp_all add: test_state_def\<close>)
  from test_deposit_all [OF okb this] neq
  obtain b1 b2 where b2: "test_deposit ?hb w ?c (b\<lparr>ledger := ledger a2\<rparr>) = Inr b1" "test_deposit ?hb w ?d b1 = Inr b2"
    and stb: "test_state ?hb w [?c, ?d] 16 b2"
    by (auto simp: test_deposit_def and_then_eq_Inr)
  have unchanged: "a\<lparr>ledger := ?l\<rparr> = a" using a(3) by simp
  show ?thesis
    by (simp add: pool_test_same_commitment_order_produces_same_root_def Let_def a b unchanged a2 b2
        test_reads(3) [OF sta] test_reads(3) [OF stb] other_address(1) del: node.simps)
qed

lemma address_deterministic_test:
  "length (strkey addr) = 56 \<Longrightarrow> test_passes (pool_test_address_to_field_bytes_deterministic h addr)"
  by (simp add: pool_test_address_to_field_bytes_deterministic_def address_to_field_bytes_eq)

text \<open>(C34) The 21 of the 25 tests of \<open>contracts/mixer_pool/src/tests.rs\<close> whose outcome does not rest on the
  hash functions pass on the modelled contract, over every host whose token obeys the token
  interface and every world the test environment can set up (generated contract addresses, among which a funded
  transfer of the registered asset goes through). The tests run whole sequences of calls:
  filling the tree, overflowing it, wrapping the root history around, two pools side by side.\<close>

theorem pool_tests_pass:
  assumes "world_ok h w" and "fr_laws h" and "tw_depositor w \<noteq> pool_b" and "current_contract_address h \<noteq> pool_b"
    and "pool_b \<in> tw_addresses w" and "length (strkey addr) = 56"
  shows "list_all id (pool_suite vk h pool_b addr w)"
  using pool_initialize_tests [OF assms(1)] pool_deposit_tests [OF assms(1)] pool_run_tests [OF assms(1)]
    pool_withdraw_tests [OF assms(1,2)] pool_same_root_test [OF assms(1,3-5)] address_deterministic_test [OF assms(6)]
  by (simp add: pool_suite_def)

definition pool_demo_world :: "demo_ledger test_world" where
  "pool_demo_world = \<lparr>tw_admin = carol, tw_token = demo_token, tw_depositor = alice, tw_recipient = bob, tw_relayer = carol,
     tw_ledger = \<lambda>_ _. 0, tw_mint = (\<lambda>tok l a x. l(tok := (l tok)(a := l tok a + sint x))), tw_balance = demo_bal,
     tw_addresses = UNIV, tw_ledgers = UNIV\<rparr>"

lemma pool_demo_world_ok: "world_ok demo_host pool_demo_world"
  by (simp add: world_ok_def pool_demo_world_def demo_token_laws demo_token_serves) (simp add: demo_bal_def demo_names)

lemma pool_tests_pass_witness: "list_all id (pool_suite True demo_host bob (Address (replicate 56 CHR ''C'')) pool_demo_world)"
  by (rule pool_tests_pass [OF pool_demo_world_ok demo_fr_laws]) (simp_all add: pool_demo_world_def demo_names)

subsection \<open>The tests that rest on the hash functions\<close>

text \<open>Each of them passes, or it exhibits a break of the hash function it runs.\<close>

lemma pool_root_tests:
  assumes ok: "world_ok h w" and law: "fr_roundtrip h"
    and fresh: "bytes_to_fr h (test_commitment 1) \<noteq> empty_leaf_fr h" "bytes_to_fr h (test_commitment 2) \<noteq> empty_leaf_fr h"
  defines "c1 \<equiv> test_commitment 1" and "c2 \<equiv> test_commitment 2"
  shows "test_passes (pool_test_deposit_updates_root h w) \<or> poseidon_broken h 4 [] [c1]"
    and "test_passes (pool_test_each_deposit_produces_unique_root h w) \<or>
      poseidon_broken h 4 [] [c1] \<or> poseidon_broken h 4 [c1] [c1, c2] \<or> poseidon_broken h 4 [] [c1, c2]"
proof -
  obtain e e1 e2 where e: "pool_setup h w = Inr e" "test_deposit h w c1 e = Inr e1" "test_deposit h w c2 e1 = Inr e2"
    and st: "test_state h w [] 10 e" "test_state h w [c1] 9 e1" "test_state h w [c1, c2] 8 e2"
    using two_deposits [OF ok, of c1 c2] by (auto simp: c1_def c2_def)
  note root = test_reads(3) [OF st(1)] test_reads(3) [OF st(2)] test_reads(3) [OF st(3)]
  have changed: "tree_root h 4 [] \<noteq> tree_root h 4 [c1] \<or> poseidon_broken h 4 [] [c1]"
      "tree_root h 4 [c1] \<noteq> tree_root h 4 [c1, c2] \<or> poseidon_broken h 4 [c1] [c1, c2]"
      "tree_root h 4 [] \<noteq> tree_root h 4 [c1, c2] \<or> poseidon_broken h 4 [] [c1, c2]"
    using longer_tree_changes_root [OF law fresh(1), of "[]" 4 "[]"] longer_tree_changes_root [OF law fresh(2), of "[c1]" 4 "[]"]
      longer_tree_changes_root [OF law fresh(1), of "[]" 4 "[c2]"]
    by (auto simp: c1_def c2_def simp del: node.simps)
  show "test_passes (pool_test_deposit_updates_root h w) \<or> poseidon_broken h 4 [] [c1]"
    using changed(1) by (auto simp: pool_test_deposit_updates_root_def e [unfolded c1_def] root c1_def simp del: node.simps)
  show "test_passes (pool_test_each_deposit_produces_unique_root h w) \<or>
      poseidon_broken h 4 [] [c1] \<or> poseidon_broken h 4 [c1] [c1, c2] \<or> poseidon_broken h 4 [] [c1, c2]"
    using changed by (auto simp: pool_test_each_deposit_produces_unique_root_def e [unfolded c1_def c2_def] root
        c1_def c2_def simp del: node.simps)
qed

lemma pool_address_tests:
  assumes "length (strkey a) = 56" and "length (strkey b) = 56" and "a \<noteq> b"
  shows "test_passes (pool_test_address_to_field_bytes_nonzero h a) \<or>
      host_sha256 h (strkey_bytes a) = array_of (replicate 32 0)"
    and "test_passes (pool_test_address_to_field_bytes_different_addrs h a b) \<or>
      (strkey_bytes a \<noteq> strkey_bytes b \<and> host_sha256 h (strkey_bytes a) = host_sha256 h (strkey_bytes b))"
  using assms
  by (auto simp: pool_test_address_to_field_bytes_nonzero_def
      pool_test_address_to_field_bytes_different_addrs_def address_to_field_bytes_eq strkey_bytes_inject)

end
