(* ===== verification/RegistryTests.thy ===== *)
theory RegistryTests
  imports RegistryProperties Testing
begin

text \<open>
  \<open>contracts/relayer_registry/src/tests.rs\<close>, test by test, run on the model of the contract, and
  the proof that all of them pass whatever distinct addresses \<open>Address::generate\<close> returns.
  The registered contract starts on \<^const>\<open>empty_env\<close>.
\<close>

subsection \<open>The tests\<close>

named_theorems reg_test_defs \<open>the definitions a test of the registry unfolds to\<close>

text \<open>\<open>setup\<close> and the call of \<open>initialize\<close> with a cap of 100 that every test starts with.\<close>

definition reg_setup :: "reg_env" where
  [reg_test_defs]: "reg_setup = empty_env"

definition reg_init :: "Address \<Rightarrow> (RegistryError, reg_env) result" where
  [reg_test_defs]: "reg_init admin = registry_initialize mock_all_auths admin 100 reg_setup"

definition reg_test_initialize_success :: "Address \<Rightarrow> RegistryError test" where
  [reg_test_defs]: "reg_test_initialize_success admin =
     and_then (reg_init admin) (\<lambda>e.
     and_then (registry_get_max_fee e) (\<lambda>m.
     and_then (assert_eq m 100) (\<lambda>_.
     and_then (registry_get_relayer_count e) (\<lambda>n.
     assert_eq n 0))))"

definition reg_test_initialize_twice :: "Address \<Rightarrow> RegistryError test" where
  [reg_test_defs]: "reg_test_initialize_twice admin =
     and_then (reg_init admin) (\<lambda>e.
     and_then (registry_initialize mock_all_auths admin 100 e) (\<lambda>_. Inr ()))"

definition reg_test_register_relayer :: "Address \<Rightarrow> Address \<Rightarrow> RegistryError test" where
  [reg_test_defs]: "reg_test_register_relayer admin relayer =
     and_then (reg_init admin) (\<lambda>e.
     and_then (register mock_all_auths relayer ''https://relay.example.com'' 50 e) (\<lambda>e.
     and_then (registry_get_relayer_count e) (\<lambda>n.
     and_then (assert_eq n 1) (\<lambda>_.
     and_then (registry_get_relayer relayer e) (\<lambda>found.
     and_then (unwrap found) (\<lambda>info.
     and_then (assert_eq (ri_fee_bps info) 50) (\<lambda>_.
     assert_eq (ri_active info) True)))))))"

definition reg_test_register_fee_too_high :: "Address \<Rightarrow> Address \<Rightarrow> RegistryError test" where
  [reg_test_defs]: "reg_test_register_fee_too_high admin relayer =
     and_then (reg_init admin) (\<lambda>e.
     and_then (register mock_all_auths relayer ''https://relay.example.com'' 200 e) (\<lambda>_. Inr ()))"

definition reg_test_register_empty_endpoint :: "Address \<Rightarrow> Address \<Rightarrow> RegistryError test" where
  [reg_test_defs]: "reg_test_register_empty_endpoint admin relayer =
     and_then (reg_init admin) (\<lambda>e.
     and_then (register mock_all_auths relayer '''' 50 e) (\<lambda>_. Inr ()))"

definition reg_test_update_existing_relayer :: "Address \<Rightarrow> Address \<Rightarrow> RegistryError test" where
  [reg_test_defs]: "reg_test_update_existing_relayer admin relayer =
     and_then (reg_init admin) (\<lambda>e.
     and_then (register mock_all_auths relayer ''https://v1.relay.example.com'' 50 e) (\<lambda>e.
     and_then (register mock_all_auths relayer ''https://v2.relay.example.com'' 75 e) (\<lambda>e.
     and_then (registry_get_relayer_count e) (\<lambda>n.
     and_then (assert_eq n 1) (\<lambda>_.
     and_then (registry_get_relayer relayer e) (\<lambda>found.
     and_then (unwrap found) (\<lambda>info.
     assert_eq (ri_fee_bps info) 75)))))))"

definition reg_test_deactivate_by_relayer :: "Address \<Rightarrow> Address \<Rightarrow> RegistryError test" where
  [reg_test_defs]: "reg_test_deactivate_by_relayer admin relayer =
     and_then (reg_init admin) (\<lambda>e.
     and_then (register mock_all_auths relayer ''https://relay.example.com'' 50 e) (\<lambda>e.
     and_then (deactivate mock_all_auths relayer relayer e) (\<lambda>e.
     and_then (registry_get_relayer relayer e) (\<lambda>found.
     and_then (unwrap found) (\<lambda>info.
     assert_eq (ri_active info) False)))))"

definition reg_test_deactivate_by_admin :: "Address \<Rightarrow> Address \<Rightarrow> RegistryError test" where
  [reg_test_defs]: "reg_test_deactivate_by_admin admin relayer =
     and_then (reg_init admin) (\<lambda>e.
     and_then (register mock_all_auths relayer ''https://relay.example.com'' 50 e) (\<lambda>e.
     and_then (deactivate mock_all_auths admin relayer e) (\<lambda>e.
     and_then (registry_get_relayer relayer e) (\<lambda>found.
     and_then (unwrap found) (\<lambda>info.
     assert_eq (ri_active info) False)))))"

definition reg_test_deactivate_unauthorized :: "Address \<Rightarrow> Address \<Rightarrow> Address \<Rightarrow> RegistryError test" where
  [reg_test_defs]: "reg_test_deactivate_unauthorized admin relayer other =
     and_then (reg_init admin) (\<lambda>e.
     and_then (register mock_all_auths relayer ''https://relay.example.com'' 50 e) (\<lambda>e.
     and_then (deactivate mock_all_auths other relayer e) (\<lambda>_. Inr ())))"

definition reg_test_reactivate :: "Address \<Rightarrow> Address \<Rightarrow> RegistryError test" where
  [reg_test_defs]: "reg_test_reactivate admin relayer =
     and_then (reg_init admin) (\<lambda>e.
     and_then (register mock_all_auths relayer ''https://relay.example.com'' 50 e) (\<lambda>e.
     and_then (deactivate mock_all_auths relayer relayer e) (\<lambda>e.
     and_then (registry_get_relayer relayer e) (\<lambda>found.
     and_then (unwrap found) (\<lambda>info.
     and_then (assert_eq (ri_active info) False) (\<lambda>_.
     and_then (reactivate mock_all_auths relayer e) (\<lambda>e.
     and_then (registry_get_relayer relayer e) (\<lambda>found.
     and_then (unwrap found) (\<lambda>info.
     assert_eq (ri_active info) True)))))))))"

definition reg_test_get_active_relayers :: "Address \<Rightarrow> Address \<Rightarrow> Address \<Rightarrow> Address \<Rightarrow> RegistryError test" where
  [reg_test_defs]: "reg_test_get_active_relayers admin r1 r2 r3 =
     and_then (reg_init admin) (\<lambda>e.
     and_then (register mock_all_auths r1 ''https://r1.com'' 10 e) (\<lambda>e.
     and_then (register mock_all_auths r2 ''https://r2.com'' 20 e) (\<lambda>e.
     and_then (register mock_all_auths r3 ''https://r3.com'' 30 e) (\<lambda>e.
     and_then (get_active_relayers e) (\<lambda>active.
     and_then (assert_eq (length active) 3) (\<lambda>_.
     and_then (deactivate mock_all_auths r2 r2 e) (\<lambda>e.
     and_then (get_active_relayers e) (\<lambda>active.
     assert_eq (length active) 2))))))))"

definition reg_test_set_max_fee :: "Address \<Rightarrow> RegistryError test" where
  [reg_test_defs]: "reg_test_set_max_fee admin =
     and_then (reg_init admin) (\<lambda>e.
     and_then (registry_get_max_fee e) (\<lambda>m.
     and_then (assert_eq m 100) (\<lambda>_.
     and_then (registry_set_max_fee mock_all_auths admin 200 e) (\<lambda>e.
     and_then (registry_get_max_fee e) (\<lambda>m.
     assert_eq m 200)))))"

definition reg_test_set_max_fee_unauthorized :: "Address \<Rightarrow> Address \<Rightarrow> RegistryError test" where
  [reg_test_defs]: "reg_test_set_max_fee_unauthorized admin other =
     and_then (reg_init admin) (\<lambda>e.
     and_then (registry_set_max_fee mock_all_auths other 200 e) (\<lambda>_. Inr ()))"

definition reg_test_deactivate_nonexistent :: "Address \<Rightarrow> Address \<Rightarrow> RegistryError test" where
  [reg_test_defs]: "reg_test_deactivate_nonexistent admin fake =
     and_then (reg_init admin) (\<lambda>e.
     and_then (deactivate mock_all_auths admin fake e) (\<lambda>_. Inr ()))"

definition reg_test_get_nonexistent_relayer :: "Address \<Rightarrow> Address \<Rightarrow> RegistryError test" where
  [reg_test_defs]: "reg_test_get_nonexistent_relayer admin fake =
     and_then (reg_init admin) (\<lambda>e.
     and_then (registry_get_relayer fake e) (\<lambda>found.
     assert_true (found = None)))"

subsection \<open>They pass\<close>

lemmas reg_calls = registry_initialize_def register_def deactivate_def reactivate_def registry_set_max_fee_def
  registry_get_max_fee_def registry_get_relayer_def registry_get_relayer_count_def get_active_relayers_def
  registry_storage_defs require_auth_def checked_add_def

lemma u32_range_3: "u32_range 0 3 = [0, 1, 2]"
  by (simp add: u32_range_def upt_rec)

text \<open>The suite: the outcome of every test, in the order of the file.\<close>

definition registry_suite :: "Address \<Rightarrow> Address \<Rightarrow> Address \<Rightarrow> Address \<Rightarrow> bool list" where
  "registry_suite admin a b c =
    [test_passes (reg_test_initialize_success admin),
     test_panics_with registry_error_code 1 (reg_test_initialize_twice admin),
     test_passes (reg_test_register_relayer admin a),
     test_panics_with registry_error_code 2 (reg_test_register_fee_too_high admin a),
     test_panics_with registry_error_code 3 (reg_test_register_empty_endpoint admin a),
     test_passes (reg_test_update_existing_relayer admin a),
     test_passes (reg_test_deactivate_by_relayer admin a),
     test_passes (reg_test_deactivate_by_admin admin a),
     test_panics_with registry_error_code 5 (reg_test_deactivate_unauthorized admin a b),
     test_passes (reg_test_reactivate admin a),
     test_passes (reg_test_get_active_relayers admin a b c),
     test_passes (reg_test_set_max_fee admin),
     test_panics_with registry_error_code 5 (reg_test_set_max_fee_unauthorized admin a),
     test_panics_with registry_error_code 4 (reg_test_deactivate_nonexistent admin a),
     test_passes (reg_test_get_nonexistent_relayer admin a)]"

text \<open>Every test of \<open>contracts/relayer_registry/src/tests.rs\<close> passes on the modelled
  contract, whatever four distinct addresses the test environment generates.\<close>

lemma registry_tests_pass:
  assumes "distinct [admin, a, b, c]"
  shows "list_all id (registry_suite admin a b c)"
proof -
  have "admin \<noteq> a" "admin \<noteq> b" "admin \<noteq> c" "a \<noteq> b" "a \<noteq> c" "b \<noteq> c"
    using assms by simp_all
  note apart = this this [symmetric]
  show ?thesis
    by (simp add: registry_suite_def reg_test_defs reg_calls Let_def u32_range_3 apart)
qed

end
