(* ===== verification/UnitTests.thy ===== *)
theory UnitTests
  imports PoolLiveness IndexerProperties RelayerProperties Testing
begin

text \<open>
  The \<open>#[cfg(test)]\<close> modules inside the sources: \<open>contracts/mixer_pool/src/poseidon.rs\<close> and
  \<open>merkle.rs\<close>, \<open>indexer/src/poseidon.rs\<close> and \<open>merkle.rs\<close>, and \<open>relayer/src/validate.rs\<close>, test by
  test, and what each comes to over an arbitrary field library: it passes, or it exhibits a break
  of the hash it runs.
\<close>

subsection \<open>\<open>contracts/mixer_pool/src/poseidon.rs\<close>\<close>

text \<open>The array \<open>[b; 32]\<close>.\<close>

definition filled :: "u8 \<Rightarrow> bytes32" where
  "filled b = array_of (replicate 32 b)"

definition test_poseidon_hash_pair_deterministic :: "('fr, 'z) field_crypto_scheme \<Rightarrow> unit test" where
  "test_poseidon_hash_pair_deterministic c =
     (let a = bytes_to_fr c (filled 1); b = bytes_to_fr c (filled 2); h1 = hash_pair c a b; h2 = hash_pair c a b
      in assert_eq h1 h2)"

definition test_poseidon_hash_pair_order_matters :: "('fr, 'z) field_crypto_scheme \<Rightarrow> unit test" where
  "test_poseidon_hash_pair_order_matters c =
     (let a = bytes_to_fr c (filled 1); b = bytes_to_fr c (filled 2); h1 = hash_pair c a b; h2 = hash_pair c b a
      in assert_ne h1 h2)"

text \<open>\<open>Fr::from(0u64)\<close>, the element of the eight bytes of the number 0.\<close>

definition fr_zero :: "('fr, 'z) field_crypto_scheme \<Rightarrow> 'fr" where
  "fr_zero c = fr_from_le_bytes_mod_order c (replicate 8 0)"

definition test_poseidon_hash_single :: "('fr, 'z) field_crypto_scheme \<Rightarrow> unit test" where
  "test_poseidon_hash_single c =
     (let a = bytes_to_fr c (filled 42); h = hash_single c a in assert_ne h (fr_zero c))"

definition test_bytes_roundtrip :: "('fr, 'z) field_crypto_scheme \<Rightarrow> unit test" where
  "test_bytes_roundtrip c =
     (let original = array_of [18, 52, 86, 120, 154, 188, 222, 240, 17, 34, 51, 68, 85, 102,
            119, 136, 0, 0, 0, 0, 0, 0, 0, 0, 0, 0, 0, 0, 0, 0, 0, 1];
          fr = bytes_to_fr c original;
          recovered = fr_to_bytes c fr
      in assert_eq original recovered)"

definition test_hash_pair_bytes_matches_fr :: "('fr, 'z) field_crypto_scheme \<Rightarrow> unit test" where
  "test_hash_pair_bytes_matches_fr c =
     (let left_bytes = filled 3; right_bytes = filled 7;
          result_bytes = hash_pair_bytes c left_bytes right_bytes;
          left_fr = bytes_to_fr c left_bytes; right_fr = bytes_to_fr c right_bytes;
          result_fr = hash_pair c left_fr right_fr
      in assert_eq result_bytes (fr_to_bytes c result_fr))"

text \<open>An array whose first byte is at most 47 is below the order, whose first byte is 48.\<close>

lemma be_val_first_byte: "be_val (b # bs) < (unat b + 1) * 256 ^ length bs"
  using le_val_less [of "rev bs"] by (simp add: be_val_def le_val_append algebra_simps)

lemma array_of_below_order:
  assumes "length bs = 31" and "unat b \<le> 47"
  shows "array_val (array_of (b # bs) :: bytes32) < bn254_r"
proof -
  have "array_val (array_of (b # bs) :: bytes32) = be_val (b # bs)"
    using assms(1) by (simp add: array_val_def)
  also have "\<dots> < (unat b + 1) * 256 ^ 31"
    using be_val_first_byte [of b bs] assms(1) by (simp only:)
  also have "\<dots> \<le> 48 * 256 ^ 31" using assms(2) by (intro mult_right_mono) simp_all
  also have "\<dots> \<le> bn254_r" by (simp add: bn254_r_def)
  finally show ?thesis .
qed

lemma filled_below_order: "unat b \<le> 47 \<Longrightarrow> array_val (filled b) < bn254_r"
proof -
  have "replicate 32 b = b # replicate 31 b" by (simp add: replicate_Suc [symmetric] del: replicate_Suc)
  then show "unat b \<le> 47 \<Longrightarrow> array_val (filled b) < bn254_r"
    using array_of_below_order [of "replicate 31 b" b] by (simp only: filled_def length_replicate)
qed

lemma filled_fr_neq:
  assumes law: "fr_laws c" and small: "unat a \<le> 47" "unat b \<le> 47" and neq: "a \<noteq> b"
  shows "bytes_to_fr c (filled a) \<noteq> bytes_to_fr c (filled b)"
proof
  assume "bytes_to_fr c (filled a) = bytes_to_fr c (filled b)"
  then have "array_val (filled a) = array_val (filled b)"
    by (simp only: bytes_to_fr_eq_iff [OF law] mod_less filled_below_order small)
  then have "array_list (filled a) = array_list (filled b)" by (simp only: array_val_inject)
  with neq show False by (simp add: filled_def)
qed

lemma poseidon_tests:
  assumes law: "fr_laws c"
  shows "test_passes (test_poseidon_hash_pair_deterministic c)"
    and "test_passes (test_bytes_roundtrip c)"
    and "test_passes (test_hash_pair_bytes_matches_fr c)"
    and "test_passes (test_poseidon_hash_pair_order_matters c) \<or>
      is_collision (poseidon2 c) ((bytes_to_fr c (filled 1), bytes_to_fr c (filled 2)),
        (bytes_to_fr c (filled 2), bytes_to_fr c (filled 1)))"
    and "test_passes (test_poseidon_hash_single c) \<or> poseidon1 c (bytes_to_fr c (filled 42)) = fr_zero c"
proof -
  let ?o = "array_of [18, 52, 86, 120, 154, 188, 222, 240, 17, 34, 51, 68, 85, 102,
            119, 136, 0, 0, 0, 0, 0, 0, 0, 0, 0, 0, 0, 0, 0, 0, 0, 1] :: bytes32"
  have "array_val ?o < bn254_r" by (rule array_of_below_order) simp_all
  then have "array_val (fr_to_bytes c (bytes_to_fr c ?o)) = array_val ?o"
    by (simp add: array_val_bytes_to_fr [OF law])
  then have "fr_to_bytes c (bytes_to_fr c ?o) = ?o" by (simp only: array_val_inject)
  then show "test_passes (test_bytes_roundtrip c)" by (simp add: test_bytes_roundtrip_def Let_def)
  show "test_passes (test_poseidon_hash_pair_deterministic c)" "test_passes (test_hash_pair_bytes_matches_fr c)"
    by (simp_all add: test_poseidon_hash_pair_deterministic_def test_hash_pair_bytes_matches_fr_def hash_pair_bytes_def Let_def)
  have "bytes_to_fr c (filled 1) \<noteq> bytes_to_fr c (filled 2)" by (rule filled_fr_neq [OF law]) simp_all
  then show "test_passes (test_poseidon_hash_pair_order_matters c) \<or>
      is_collision (poseidon2 c) ((bytes_to_fr c (filled 1), bytes_to_fr c (filled 2)),
        (bytes_to_fr c (filled 2), bytes_to_fr c (filled 1)))"
    by (simp add: test_poseidon_hash_pair_order_matters_def hash_pair_def is_collision_def Let_def)
  show "test_passes (test_poseidon_hash_single c) \<or> poseidon1 c (bytes_to_fr c (filled 42)) = fr_zero c"
    by (simp add: test_poseidon_hash_single_def hash_single_def Let_def)
qed

subsection \<open>\<open>contracts/mixer_pool/src/merkle.rs\<close>\<close>

definition test_zero_hash_deterministic :: "('fr, 'z) field_crypto_scheme \<Rightarrow> unit test" where
  "test_zero_hash_deterministic c =
     (let z0a = zero_hash c 0; z0b = zero_hash c 0 in assert_eq z0a z0b)"

definition test_zero_hash_level1_is_hash_of_children :: "('fr, 'z) field_crypto_scheme \<Rightarrow> unit test" where
  "test_zero_hash_level1_is_hash_of_children c =
     (let z0 = zero_hash c 0; z1 = zero_hash c 1; expected = hash_pair_bytes c z0 z0 in assert_eq z1 expected)"

definition test_merkle_hash_order_matters :: "('fr, 'z) field_crypto_scheme \<Rightarrow> unit test" where
  "test_merkle_hash_order_matters c =
     (let a = filled 1; b = filled 2; h1 = hash_pair_bytes c a b; h2 = hash_pair_bytes c b a in assert_ne h1 h2)"

lemma swapped_hash_bytes:
  assumes law: "fr_laws c"
  shows "hash_pair_bytes c (filled 1) (filled 2) \<noteq> hash_pair_bytes c (filled 2) (filled 1) \<or>
      is_collision (poseidon2 c) ((bytes_to_fr c (filled 1), bytes_to_fr c (filled 2)),
        (bytes_to_fr c (filled 2), bytes_to_fr c (filled 1)))"
proof -
  have "bytes_to_fr c (filled 1) \<noteq> bytes_to_fr c (filled 2)" by (rule filled_fr_neq [OF law]) simp_all
  moreover have "fr_to_bytes c x = fr_to_bytes c y \<longleftrightarrow> x = y" for x y
    by (metis bytes_to_fr_to_bytes [OF law])
  ultimately show ?thesis
    by (simp add: hash_pair_bytes_def hash_pair_def is_collision_def Let_def)
qed

lemma pool_merkle_tests:
  assumes law: "fr_laws c"
  shows "test_passes (test_zero_hash_deterministic c)"
    and "test_passes (test_zero_hash_level1_is_hash_of_children c)"
    and "test_passes (test_merkle_hash_order_matters c) \<or>
      is_collision (poseidon2 c) ((bytes_to_fr c (filled 1), bytes_to_fr c (filled 2)),
        (bytes_to_fr c (filled 2), bytes_to_fr c (filled 1)))"
proof -
  show "test_passes (test_zero_hash_deterministic c)" by (simp add: test_zero_hash_deterministic_def Let_def)
  show "test_passes (test_zero_hash_level1_is_hash_of_children c)"
    by (simp add: test_zero_hash_level1_is_hash_of_children_def Let_def zero_hash_eq)
  show "test_passes (test_merkle_hash_order_matters c) \<or>
      is_collision (poseidon2 c) ((bytes_to_fr c (filled 1), bytes_to_fr c (filled 2)),
        (bytes_to_fr c (filled 2), bytes_to_fr c (filled 1)))"
    using swapped_hash_bytes [OF law] by (simp add: test_merkle_hash_order_matters_def Let_def)
qed

subsection \<open>\<open>indexer/src/poseidon.rs\<close>\<close>

definition idx_test_hash_pair_deterministic :: "('fr, 'z) field_crypto_scheme \<Rightarrow> unit test" where
  "idx_test_hash_pair_deterministic c =
     (let a = filled 1; b = filled 2; h1 = idx_hash_pair c a b; h2 = idx_hash_pair c a b in assert_eq h1 h2)"

definition idx_test_hash_pair_order_matters :: "('fr, 'z) field_crypto_scheme \<Rightarrow> unit test" where
  "idx_test_hash_pair_order_matters c =
     (let a = filled 1; b = filled 2; h1 = idx_hash_pair c a b; h2 = idx_hash_pair c b a in assert_ne h1 h2)"

definition idx_test_hash_single_deterministic :: "('fr, 'z) field_crypto_scheme \<Rightarrow> unit test" where
  "idx_test_hash_single_deterministic c =
     (let a = filled 0; h1 = idx_hash_single c a; h2 = idx_hash_single c a in assert_eq h1 h2)"

lemma idx_poseidon_tests:
  assumes law: "fr_laws c"
  shows "test_passes (idx_test_hash_pair_deterministic c)"
    and "test_passes (idx_test_hash_single_deterministic c)"
    and "test_passes (idx_test_hash_pair_order_matters c) \<or>
      is_collision (poseidon2 c) ((bytes_to_fr c (filled 1), bytes_to_fr c (filled 2)),
        (bytes_to_fr c (filled 2), bytes_to_fr c (filled 1)))"
proof -
  show "test_passes (idx_test_hash_pair_deterministic c)" "test_passes (idx_test_hash_single_deterministic c)"
    by (simp_all add: idx_test_hash_pair_deterministic_def idx_test_hash_single_deterministic_def Let_def)
  show "test_passes (idx_test_hash_pair_order_matters c) \<or>
      is_collision (poseidon2 c) ((bytes_to_fr c (filled 1), bytes_to_fr c (filled 2)),
        (bytes_to_fr c (filled 2), bytes_to_fr c (filled 1)))"
    using swapped_hash_bytes [OF law] by (simp add: idx_test_hash_pair_order_matters_def idx_hash_eq Let_def)
qed

subsection \<open>\<open>indexer/src/merkle.rs\<close>\<close>

definition idx_test_empty_tree_deterministic :: "('fr, 'z) field_crypto_scheme \<Rightarrow> unit test" where
  "idx_test_empty_tree_deterministic c =
     and_then (tree_new c 4) (\<lambda>t1.
     and_then (tree_new c 4) (\<lambda>t2.
     and_then (mt_root t1) (\<lambda>r1.
     and_then (mt_root t2) (\<lambda>r2.
     assert_eq r1 r2))))"

definition idx_test_insert_changes_root :: "('fr, 'z) field_crypto_scheme \<Rightarrow> unit test" where
  "idx_test_insert_changes_root c =
     and_then (tree_new c 4) (\<lambda>tree.
     and_then (mt_root tree) (\<lambda>empty_root.
     let commitment = idx_hash_pair c (filled 1) (filled 2) in
     and_then (tree_insert c commitment tree) (\<lambda>(_, tree).
     and_then (mt_root tree) (\<lambda>root.
     assert_ne root empty_root))))"

text \<open>\<open>for i in 0..proof.path_elements.len()\<close>: the loop that rebuilds the root in two of the tests.\<close>

fun rebuild_root :: "('fr, 'z) field_crypto_scheme \<Rightarrow> MerkleProof \<Rightarrow> nat list \<Rightarrow> bytes32 \<Rightarrow> bytes32 run" where
  "rebuild_root c pr [] hash = Inr hash"
| "rebuild_root c pr (i # is) hash =
     and_then (vec_index (mp_path_indices pr) i) (\<lambda>bit.
     and_then (vec_index (mp_path_elements pr) i) (\<lambda>el.
     rebuild_root c pr is (if bit = 0 then idx_hash_pair c hash el else idx_hash_pair c el hash)))"

definition idx_test_proof_reconstructs_root :: "('fr, 'z) field_crypto_scheme \<Rightarrow> unit test" where
  "idx_test_proof_reconstructs_root c =
     and_then (tree_new c 4) (\<lambda>tree.
     let cm = idx_hash_pair c (filled 10) (filled 20) in
     and_then (tree_insert c cm tree) (\<lambda>(idx, tree).
     and_then (tree_proof idx tree) (\<lambda>found.
     and_then (unwrap found) (\<lambda>pr.
     and_then (rebuild_root c pr [0..<length (mp_path_elements pr)] cm) (\<lambda>hash.
     assert_eq hash (mp_root pr))))))"

definition idx_test_multiple_inserts :: "('fr, 'z) field_crypto_scheme \<Rightarrow> unit test" where
  "idx_test_multiple_inserts c =
     and_then (tree_new c 4) (\<lambda>tree.
     let c1 = idx_hash_pair c (filled 1) (filled 2);
         c2 = idx_hash_pair c (filled 3) (filled 4);
         c3 = idx_hash_pair c (filled 5) (filled 6)
     in
     and_then (tree_insert c c1 tree) (\<lambda>(_, tree).
     and_then (tree_insert c c2 tree) (\<lambda>(_, tree).
     and_then (tree_insert c c3 tree) (\<lambda>(idx, tree).
     and_then (tree_proof idx tree) (\<lambda>found.
     and_then (unwrap found) (\<lambda>pr.
     and_then (assert_eq (mp_leaf_index pr) 2) (\<lambda>_.
     and_then (assert_eq (length (mp_path_elements pr)) 4) (\<lambda>_.
     and_then (rebuild_root c pr [0..<length (mp_path_elements pr)] c3) (\<lambda>hash.
     and_then (mt_root tree) (\<lambda>root.
     assert_eq hash root))))))))))"

definition idx_test_out_of_bounds_proof :: "('fr, 'z) field_crypto_scheme \<Rightarrow> unit test" where
  "idx_test_out_of_bounds_proof c =
     and_then (tree_new c 4) (\<lambda>tree.
     and_then (tree_proof 0 tree) (\<lambda>found.
     assert_true (found = None)))"

definition idx_test_insertion_order_matters :: "('fr, 'z) field_crypto_scheme \<Rightarrow> unit test" where
  "idx_test_insertion_order_matters c =
     (let c1 = idx_hash_pair c (filled 1) (filled 2);
          c2 = idx_hash_pair c (filled 3) (filled 4)
      in
     and_then (tree_new c 4) (\<lambda>t1.
     and_then (tree_insert c c1 t1) (\<lambda>(_, t1).
     and_then (tree_insert c c2 t1) (\<lambda>(_, t1).
     and_then (tree_new c 4) (\<lambda>t2.
     and_then (tree_insert c c2 t2) (\<lambda>(_, t2).
     and_then (tree_insert c c1 t2) (\<lambda>(_, t2).
     and_then (mt_root t1) (\<lambda>r1.
     and_then (mt_root t2) (\<lambda>r2.
     assert_ne r1 r2)))))))))"

text \<open>The loop is the verification of the circuit.\<close>

lemma rebuild_root_climb:
  fixes pr :: MerkleProof
  assumes "length (mp_path_indices pr) = length (mp_path_elements pr)" and "n \<le> length (mp_path_elements pr)"
  shows "rebuild_root c pr [n..<length (mp_path_elements pr)] hash =
    Inr (climb (hash_pair_bytes c) hash (drop n (zip (mp_path_elements pr) (map unat (mp_path_indices pr)))))"
  using assms(2)
proof (induction "length (mp_path_elements pr) - n" arbitrary: n hash)
  case 0
  then show ?case by simp
next
  case (Suc k)
  let ?ps = "zip (mp_path_elements pr) (map unat (mp_path_indices pr))"
  have n: "n < length (mp_path_elements pr)" using Suc by simp
  have "n < length ?ps" using n assms(1) by simp
  from Cons_nth_drop_Suc [OF this] have "drop n ?ps = ?ps ! n # drop (Suc n) ?ps" by (rule sym)
  moreover have "mp_path_indices pr ! n = 0 \<longleftrightarrow> unat (mp_path_indices pr ! n) = 0" by (simp add: unat_eq_0)
  ultimately show ?case
    using Suc n assms(1) by (simp add: upt_conv_Cons idx_hash_eq del: drop_zip)
qed

lemma tree_of_depth_4: "\<exists>t. tree_new c 4 = Inr t \<and> mtree_rep c 4 t []"
  by (rule tree_new_rep) simp

lemma served_path_rebuilds:
  assumes rep: "mtree_rep c 4 t xs" and i: "unat index < length xs" and fits: "length xs \<le> 16"
  shows "\<exists>pr. tree_proof index t = Inr (Some pr) \<and> mp_root pr = idx_node c xs 4 0 \<and> mp_leaf_index pr = index \<and>
    length (mp_path_elements pr) = 4 \<and>
    rebuild_root c pr [0..<length (mp_path_elements pr)] (xs ! unat index) = Inr (mp_root pr)"
proof -
  have small: "length xs < 2 ^ 32" using fits by simp
  obtain es and ds :: "u32 list" where pr: "tree_proof index t = Inr (Some \<lparr>mp_root = idx_node c xs (unat (4 :: u32)) 0,
      mp_path_elements = es, mp_path_indices = ds, mp_leaf_index = index\<rparr>)"
    and len: "length es = unat (4 :: u32)" "length ds = unat (4 :: u32)"
    and path: "zip es (map unat ds) = auth_path (hash_pair_bytes c) (idx_zero c) xs (unat (4 :: u32)) (unat index)"
    using tree_proof_rep [OF rep small i] by blast
  have "climb (hash_pair_bytes c) (xs ! unat index) (zip es (map unat ds)) = idx_node c xs 4 0"
    unfolding path using auth_path_root [OF i, of 4] i fits by simp
  then show ?thesis
    using pr len rebuild_root_climb [of "\<lparr>mp_root = idx_node c xs 4 0, mp_path_elements = es, mp_path_indices = ds,
        mp_leaf_index = index\<rparr>" 0 c "xs ! unat index"]
    by (simp del: node.simps)
qed

lemma idx_tree_tests:
  shows "test_passes (idx_test_empty_tree_deterministic c)"
    and "test_passes (idx_test_out_of_bounds_proof c)"
    and "test_passes (idx_test_proof_reconstructs_root c)"
    and "test_passes (idx_test_multiple_inserts c)"
proof -
  obtain t where new: "tree_new c 4 = Inr t" and t: "mtree_rep c 4 t []" using tree_of_depth_4 by blast
  show "test_passes (idx_test_empty_tree_deterministic c)"
    by (simp add: idx_test_empty_tree_deterministic_def new mt_root_rep [OF t])
  show "test_passes (idx_test_out_of_bounds_proof c)"
    by (simp add: idx_test_out_of_bounds_proof_def new tree_proof_none [OF t])
  let ?c = "\<lambda>a b. idx_hash_pair c (filled a) (filled b)"
  obtain u where u: "tree_insert c (?c 10 20) t = Inr (0, u)" "mtree_rep c 4 u [?c 10 20]"
    using tree_insert_rep [OF t, of "?c 10 20"] by auto
  show "test_passes (idx_test_proof_reconstructs_root c)"
    using served_path_rebuilds [OF u(2), of 0]
    by (auto simp: idx_test_proof_reconstructs_root_def new u(1) Let_def)
  obtain t1 t2 t3 where t3: "tree_insert c (?c 1 2) t = Inr (0, t1)" "tree_insert c (?c 3 4) t1 = Inr (1, t2)"
      "tree_insert c (?c 5 6) t2 = Inr (2, t3)" and rep: "mtree_rep c 4 t3 [?c 1 2, ?c 3 4, ?c 5 6]"
  proof -
    obtain t1 where 1: "tree_insert c (?c 1 2) t = Inr (0, t1)" "mtree_rep c 4 t1 [?c 1 2]"
      using tree_insert_rep [OF t, of "?c 1 2"] by auto
    obtain t2 where 2: "tree_insert c (?c 3 4) t1 = Inr (1, t2)" "mtree_rep c 4 t2 [?c 1 2, ?c 3 4]"
      using tree_insert_rep [OF 1(2), of "?c 3 4"] by auto
    obtain t3 where 3: "tree_insert c (?c 5 6) t2 = Inr (2, t3)" "mtree_rep c 4 t3 [?c 1 2, ?c 3 4, ?c 5 6]"
      using tree_insert_rep [OF 2(2), of "?c 5 6"] by auto
    show thesis by (rule that [OF 1(1) 2(1) 3])
  qed
  show "test_passes (idx_test_multiple_inserts c)"
    using served_path_rebuilds [OF rep, of 2] mt_root_rep [OF rep]
    by (auto simp: idx_test_multiple_inserts_def new t3 Let_def)
qed

text \<open>The other two end in different roots unless Poseidon is broken at their leaves.\<close>

lemma different_leaves_different_roots:
  assumes law: "fr_roundtrip c" and neq: "node (poseidon2 c) (empty_leaf_fr c) (map (bytes_to_fr c) xs) 0 j \<noteq>
      node (poseidon2 c) (empty_leaf_fr c) (map (bytes_to_fr c) ys) 0 j" and j: "j < 2 ^ d"
    and same: "idx_node c xs d 0 = idx_node c ys d 0"
  shows "poseidon_broken c d xs ys"
proof -
  let ?nd = "\<lambda>xs. node (poseidon2 c) (empty_leaf_fr c) (map (bytes_to_fr c) xs)"
  have "?nd xs d 0 = ?nd ys d 0"
    using same unfolding idx_zero_eq by (simp only: tree_node_fr [OF law, symmetric])
  from root_binds_leaves [OF this] neq j show ?thesis
    by (cases "tree_collision (poseidon2 c) (empty_leaf_fr c) (map (bytes_to_fr c) xs) (map (bytes_to_fr c) ys) d 0")
      (auto simp: poseidon_broken_def simp del: node.simps)
qed

lemma idx_root_tests:
  assumes law: "fr_roundtrip c"
  defines "c1 \<equiv> idx_hash_pair c (filled 1) (filled 2)" and "c2 \<equiv> idx_hash_pair c (filled 3) (filled 4)"
  shows "bytes_to_fr c c1 \<noteq> empty_leaf_fr c \<Longrightarrow>
      test_passes (idx_test_insert_changes_root c) \<or> poseidon_broken c 4 [c1] []"
    and "bytes_to_fr c c1 \<noteq> bytes_to_fr c c2 \<Longrightarrow>
      test_passes (idx_test_insertion_order_matters c) \<or> poseidon_broken c 4 [c1, c2] [c2, c1]"
proof -
  obtain t where new: "tree_new c 4 = Inr t" and t: "mtree_rep c 4 t []" using tree_of_depth_4 by blast
  obtain t1 where t1: "tree_insert c c1 t = Inr (0, t1)" "mtree_rep c 4 t1 [c1]"
    using tree_insert_rep [OF t, of c1] by auto
  obtain u1 where u1: "tree_insert c c2 t = Inr (0, u1)" "mtree_rep c 4 u1 [c2]"
    using tree_insert_rep [OF t, of c2] by auto
  obtain t2 u2 where t2: "tree_insert c c2 t1 = Inr (1, t2)" "mtree_rep c 4 t2 [c1, c2]"
    and u2: "tree_insert c c1 u1 = Inr (1, u2)" "mtree_rep c 4 u2 [c2, c1]"
    using tree_insert_rep [OF t1(2), of c2] tree_insert_rep [OF u1(2), of c1] by auto
  note root = mt_root_rep [OF t] mt_root_rep [OF t1(2)] mt_root_rep [OF t2(2)] mt_root_rep [OF u2(2)]
  show "test_passes (idx_test_insert_changes_root c) \<or> poseidon_broken c 4 [c1] []"
    if "bytes_to_fr c c1 \<noteq> empty_leaf_fr c"
    using different_leaves_different_roots [OF law, of "[c1]" 0 "[]" 4] that
    by (auto simp: idx_test_insert_changes_root_def new t1(1) [unfolded c1_def] root c1_def Let_def)
  show "test_passes (idx_test_insertion_order_matters c) \<or> poseidon_broken c 4 [c1, c2] [c2, c1]"
    if "bytes_to_fr c c1 \<noteq> bytes_to_fr c c2"
    using different_leaves_different_roots [OF law, of "[c1, c2]" 0 "[c2, c1]" 4] that
    by (auto simp: idx_test_insertion_order_matters_def new t1(1) [unfolded c1_def] u1(1) [unfolded c2_def]
        t2(1) [unfolded c2_def] u2(1) [unfolded c1_def] root c1_def c2_def Let_def)
qed

subsection \<open>\<open>relayer/src/validate.rs\<close>\<close>

definition is_ok :: "('e, 'a) result \<Rightarrow> bool" where
  "is_ok r \<longleftrightarrow> (case r of Inr _ \<Rightarrow> True | Inl _ \<Rightarrow> False)"

lemma is_ok_simps [simp]: "is_ok (Inr x)" "\<not> is_ok (Inl f)"
  by (simp_all add: is_ok_def)

definition test_validate_hex_valid :: "'z codec_scheme \<Rightarrow> ValidationError test" where
  "test_validate_hex_valid k =
     (let result = validate_hex k ''aabbccdd'' 4 in
      and_then (assert_true (is_ok result)) (\<lambda>_.
      and_then result (\<lambda>bytes. assert_eq bytes [170, 187, 204, 221])))"

definition test_validate_hex_with_0x_prefix :: "'z codec_scheme \<Rightarrow> ValidationError test" where
  "test_validate_hex_with_0x_prefix k = (let result = validate_hex k ''0xaabbccdd'' 4 in assert_true (is_ok result))"

definition test_validate_hex_wrong_length :: "'z codec_scheme \<Rightarrow> ValidationError test" where
  "test_validate_hex_wrong_length k = (let result = validate_hex k ''aabb'' 4 in assert_true (\<not> is_ok result))"

definition test_validate_hex_invalid :: "'z codec_scheme \<Rightarrow> ValidationError test" where
  "test_validate_hex_invalid k = (let result = validate_hex k ''gggg'' 2 in assert_true (\<not> is_ok result))"

definition test_validate_stellar_address_valid :: "'z relayer_crates_scheme \<Rightarrow> ValidationError test" where
  "test_validate_stellar_address_valid k =
     (let result = validate_stellar_address k ''GAAZI4TCR3TY5OJHCTJC2A4QSY6CJWJH5IAJTGKIN2ER7LBNVKOCCWN7''
      in assert_true (is_ok result))"

definition test_validate_stellar_address_invalid :: "'z relayer_crates_scheme \<Rightarrow> ValidationError test" where
  "test_validate_stellar_address_invalid k =
     (let result = validate_stellar_address k ''not-a-valid-address'' in assert_true (\<not> is_ok result))"

text \<open>What the crates \<open>hex\<close> and \<open>stellar-strkey\<close> return on the texts of the tests: the bytes two
  digits a byte, no bytes for a letter that is no digit, a key for the address with a right checksum
  and none for a text that is no strkey.\<close>

definition crates_read_tests :: "'z relayer_crates_scheme \<Rightarrow> bool" where
  "crates_read_tests k \<longleftrightarrow>
     hex_decode k ''aabbccdd'' = Some [170, 187, 204, 221] \<and> hex_decode k ''aabb'' = Some [170, 187] \<and>
     hex_decode k ''gggg'' = None \<and>
     public_key_from_string k ''GAAZI4TCR3TY5OJHCTJC2A4QSY6CJWJH5IAJTGKIN2ER7LBNVKOCCWN7'' \<noteq> None \<and>
     public_key_from_string k ''not-a-valid-address'' = None"

lemma validate_tests:
  assumes "crates_read_tests k"
  shows "test_passes (test_validate_hex_valid k)" "test_passes (test_validate_hex_with_0x_prefix k)"
    "test_passes (test_validate_hex_wrong_length k)" "test_passes (test_validate_hex_invalid k)"
    "test_passes (test_validate_stellar_address_valid k)" "test_passes (test_validate_stellar_address_invalid k)"
  using assms
  by (auto simp: crates_read_tests_def test_validate_hex_valid_def test_validate_hex_with_0x_prefix_def
      test_validate_hex_wrong_length_def test_validate_hex_invalid_def test_validate_stellar_address_valid_def
      test_validate_stellar_address_invalid_def validate_hex_def validate_stellar_address_def)

subsection \<open>The suite\<close>

text \<open>The unit tests whose outcome does not rest on a hash function.\<close>

definition unit_suite :: "('fr, 'z) field_crypto_scheme \<Rightarrow> 'y relayer_crates_scheme \<Rightarrow> bool list" where
  "unit_suite c k =
    [test_passes (test_poseidon_hash_pair_deterministic c),
     test_passes (test_bytes_roundtrip c),
     test_passes (test_hash_pair_bytes_matches_fr c),
     test_passes (test_zero_hash_deterministic c),
     test_passes (test_zero_hash_level1_is_hash_of_children c),
     test_passes (idx_test_hash_pair_deterministic c),
     test_passes (idx_test_hash_single_deterministic c),
     test_passes (idx_test_empty_tree_deterministic c),
     test_passes (idx_test_proof_reconstructs_root c),
     test_passes (idx_test_multiple_inserts c),
     test_passes (idx_test_out_of_bounds_proof c),
     test_passes (test_validate_hex_valid k),
     test_passes (test_validate_hex_with_0x_prefix k),
     test_passes (test_validate_hex_wrong_length k),
     test_passes (test_validate_hex_invalid k),
     test_passes (test_validate_stellar_address_valid k),
     test_passes (test_validate_stellar_address_invalid k)]"

lemma unit_tests_pass:
  assumes "fr_laws c" and "crates_read_tests k"
  shows "list_all id (unit_suite c k)"
  using poseidon_tests [OF assms(1)] pool_merkle_tests [OF assms(1)] idx_poseidon_tests [OF assms(1)]
    idx_tree_tests [of c] validate_tests [OF assms(2)]
  by (simp add: unit_suite_def)

end
