(* ===== verification/Benchmark.thy ===== *)
theory Benchmark
  imports Verifier
begin

text \<open>
  \<open>scripts/bench_verifier.rs\<close> (and the same loops of \<open>indexer/tests/bench_pairing.rs\<close>): what the
  timed loops compute, without the clock and the prints, and how it relates to the verifier whose
  cost they are to estimate.
\<close>

text \<open>\<open>Bn254::multi_pairing([g1, -g1, g1, -g1], [g2, g2, g2, g2])\<close>\<close>

definition bench_multi :: "('fr, 'fq, 'g1, 'g1p, 'g2, 'gt, 'z) bn254 \<Rightarrow> 'g1 \<Rightarrow> 'g2 \<Rightarrow> 'gt" where
  "bench_multi h g1 g2 = multi_pairing h [g1, g1_neg h g1, g1, g1_neg h g1] [g2, g2, g2, g2]"

text \<open>\<open>let mut acc = g1.into(); for _ in 0..5 { acc += g1 * scalar; } acc.into_affine()\<close>\<close>

definition bench_ic :: "('fr, 'fq, 'g1, 'g1p, 'g2, 'gt, 'z) bn254 \<Rightarrow> 'g1 \<Rightarrow> 'fr \<Rightarrow> 'g1" where
  "bench_ic h g1 scalar =
     g1p_into_affine h (fold (\<lambda>_ acc. g1p_add h acc (g1_mul h g1 scalar)) [0..<5] (g1_into_projective h g1))"

text \<open>The loop under \<open>Full simulated verification\<close>.\<close>

definition bench_full :: "('fr, 'fq, 'g1, 'g1p, 'g2, 'gt, 'z) bn254 \<Rightarrow> 'g1 \<Rightarrow> 'g2 \<Rightarrow> 'fr \<Rightarrow> bool" where
  "bench_full h g1 g2 scalar =
     (let vk_x = fold (\<lambda>_ vk_x. g1p_add h vk_x (g1_mul h g1 scalar)) [0..<5] (g1_into_projective h g1);
          vk_x_affine = g1p_into_affine h vk_x;
          result = multi_pairing h [g1, g1_neg h g1, g1_neg h vk_x_affine, g1_neg h g1] [g2, g2, g2, g2]
      in gt_is_zero h result)"

text \<open>The full benchmark is the verifier's arithmetic on a key and a proof made of the generators and
  five equal inputs: what it leaves out of \<open>verify_proof\<close> is exactly the decoding of the three
  points of the proof and the ten of the key, with their curve and subgroup checks.\<close>

lemma bench_is_verifier_arithmetic:
  assumes "decode_proof h pf = Some (g1, g2, g1)"
    and "load_verification_key True h = Some \<lparr>alpha_g1 = g1, beta_g2 = g2, gamma_g2 = g2, delta_g2 = g2, ic = replicate 6 g1\<rparr>"
    and "map (\<lambda>b. fr_from_le_bytes_mod_order h (rev (array_list b))) inputs = replicate 5 scalar"
  shows "verify_proof True h pf inputs = bench_full h g1 g2 scalar"
proof -
  have "combine_ic h (replicate 6 g1) (replicate 5 scalar) =
      fold (\<lambda>_ vk_x. g1p_add h vk_x (g1_mul h g1 scalar)) [0..<5] (g1_into_projective h g1)"
    by (simp add: combine_ic_def NUM_PUBLIC_INPUTS_def numeral_eq_Suc)
  then show ?thesis by (simp add: verify_proof_def assms bench_full_def Let_def)
qed

lemma bench_ic_is_vk_x:
  "bench_full h g1 g2 scalar \<longleftrightarrow>
     gt_is_zero h (multi_pairing h [g1, g1_neg h g1, g1_neg h (bench_ic h g1 scalar), g1_neg h g1] [g2, g2, g2, g2])"
  by (simp add: bench_full_def bench_ic_def Let_def)

end
