(* ===== verification/Spec2Isabelle.thy ===== *)
theory Spec2Isabelle
  imports PoolProperties PoolSafety VerifierProperties RegistryProperties IndexerProperties CircuitProperties
    RelayerProperties StartupProperties ClientProperties PoolTests RegistryTests UnitTests Benchmark
begin

text \<open>
  Caligo: a zero-knowledge mixer on Soroban.

  The program. Users deposit a fixed amount of a token with a commitment and later withdraw it
  to another account with a Groth16 proof that one of the commitments is theirs. The pool
  contract (\<open>contracts/mixer_pool\<close>) keeps the commitments in a Merkle tree, a window of recent
  roots, and the nullifier hashes already used. The registry contract
  (\<open>contracts/relayer_registry\<close>) lists the relayers that submit withdrawals for a fee. The
  indexer (\<open>indexer\<close>) follows the pool's events, mirrors the tree in memory and in PostgreSQL
  and serves Merkle paths to clients; the relayer (\<open>relayer\<close>) accepts withdrawal requests
  over HTTP. The client SDK (\<open>client/src\<close>, TypeScript) makes the notes and keeps them, builds the
  Merkle paths and the proofs, and encodes what is submitted. The Rust code of the four programs,
  the withdrawal circuit (\<open>circuits\<close>), the client and the key exporter
  (\<open>scripts/export_vk_rust.js\<close>) are modelled, and so are the Rust tests and what the benchmark
  computes; the shell scripts are not.

  How code becomes definitions. Every function of the source is one definition with the
  source's name where it is free (\<open>reg_\<close>, \<open>registry_\<close>, \<open>idx_\<close>, \<open>mt_\<close>, \<open>tree_\<close>, \<open>db_\<close> and \<open>query_\<close>
  mark the others), in the source's order of checks, effects and early returns.
  \<^item> A function that can fail returns a \<open>result\<close>: \<open>Inr x\<close>, \<open>Inl (Err e)\<close> for a returned error, or
    \<open>Inl Panic\<close> for a panic or trap (a missing key, a refused token transfer, an index out of
    range, an overflow in a contract: both contracts are built with overflow checks). A failed
    contract call has no effect, so only \<open>Inr\<close> carries a state.
  \<^item> State is passed explicitly: \<open>env\<close> holds the two storage tiers and the events of a contract,
    \<open>pool_env\<close> adds the ledger of the tokens, \<open>AppState\<close> is the indexer's, \<open>RelayerState\<close> the
    relayer's, \<open>Database\<close> the PostgreSQL tables.
  \<^item> Integers are words of the source's width; \<open>i128\<close> is a 128-bit word read with \<open>sint\<close>. The two
    servers use the default release profile, in which sums wrap; \<open>usize\<close> is \<open>nat\<close>, since it
    only counts elements that are in memory or is a setting parsed as 64 bits. A \<open>bigint\<close> and an
    integral \<open>number\<close> of the client are \<open>int\<close>, a \<open>Uint8Array\<close> is a list of bytes.
  \<^item> Loops over ranges are structural recursion over the list of the range, \<open>zero_hash\<close> has a
    measure; every function is total. Only the model of \<open>JSON.parse\<close> has fuel, the length of its
    text plus one; every value and member read takes a character, so it never runs out, and
    \<open>json_parse_stringify\<close> shows it for the texts the client writes.
  \<^item> In the client a function that throws returns \<open>Inl (Err e)\<close> with a \<open>ClientError\<close>; \<open>undefined\<close> where a
    value is needed is \<open>TypeError\<close>. A \<open>Map\<close> is an association list in the order of insertion, an
    object of strings likewise; randomness and the clock are arguments.
  \<^item> What the code calls and the repository does not hold is a field of a record that the
    definitions take: arkworks and light-poseidon (\<open>field_crypto\<close>, \<open>curve\<close>), the Soroban host
    (\<open>host\<close>: SHA-256, the contract's address, the token), \<open>hex\<close> and \<open>base64\<close> (\<open>codec\<close>), strkeys
    and ed25519 (\<open>relayer_crates\<close>). What is relied on is a predicate, named in the theorems that
    need it: \<open>fr_laws\<close>, \<open>fr_roundtrip\<close>, \<open>g2_laws\<close>, \<open>pairing_laws\<close>, \<open>token_laws\<close>, \<open>ext_keeps\<close>,
    \<open>hex_laws\<close>, \<open>hex_length_law\<close> and \<open>chain_rpc\<close> (an RPC that answers about a chain of events), and for
    the proof system \<open>key_sound\<close>. That the token carries out a payment is never a law: it is a premise or a
    case of the conclusion; only the world of the contract tests assumes it of funded transfers between
    generated contract addresses (\<open>token_serves\<close>).
    For the client they are circomlibjs (\<open>poseidon_hasher\<close>, \<open>hasher_laws\<close>: the same hash as
    light-poseidon on reduced inputs), snarkjs (\<open>snarkjs\<close>), Node's cryptography
    (\<open>node_crypto\<close>, \<open>aead_law\<close>), what \<open>require\<close> is bound to (\<open>node_require\<close>: nothing in an ES module) and
    \<open>fetch\<close>; \<open>fr_constants\<close> says that the bytes of 0 and 1 are
    the field's 0 and 1.
    Concrete instances of all of them (\<open>Instances\<close>, \<open>CircuitInstances\<close>, \<open>ClientInstances\<close> and
    sections of the \<open>Properties\<close> theories) show that they can hold and feed the witnesses.
  \<^item> Error texts of the relayer are constructors; log lines matter only where they can panic.

  The theories.
  \<^item> \<open>Prelude\<close>, \<open>Bytes\<close>, \<open>Decimal\<close>: results, checked arithmetic, vectors, the relation of two
    results (\<open>res_rel\<close>), ranges; byte strings, the array type \<open>'n bytesN\<close>, big-endian values;
    decimal numbers as printed and parsed by the standard library.
  \<^item> \<open>Soroban\<close>: storage (locales \<open>kv_storage\<close> and \<open>two_tier_storage\<close>), addresses,
    \<open>require_auth\<close>, the records of the host and of the libraries and their laws.
  \<^item> \<open>Poseidon\<close> (\<open>poseidon.rs\<close>), \<open>PoolStorage\<close> (\<open>storage.rs\<close>, \<open>errors.rs\<close>; locale
    \<open>grow_set\<close>), \<open>PoolMerkle\<close> (\<open>merkle.rs\<close>), \<open>VkConstants\<close> and \<open>VkCurve\<close> (\<open>vk_constants.rs\<close>, byte
    for byte, and its points against the curve equations), \<open>Verifier\<close> (\<open>verifier.rs\<close>), \<open>Pool\<close>
    and \<open>PoolHistory\<close> (\<open>lib.rs\<close>).
  \<^item> \<open>MerkleSpec\<close>: the complete binary tree of a list of leaves, authentication paths and their
    verification as in \<open>circuits/merkle.circom\<close>, and the locale \<open>merkle_accumulator\<close> of an
    append-only tree, which the contract's stored tree (\<open>chain_tree\<close>) and the indexer's tree
    (\<open>index_tree\<close>) both provide; \<open>mirrored_accumulators\<close> compares two of them.
    \<open>RootWindow\<close>: the circular buffer as a window of the last elements (locale \<open>root_window\<close>).
  \<^item> \<open>PoolSpec\<close>: the abstract pool \<open>APool\<close> (leaves, spent nullifiers, settings, log, ledger), its
    operations \<open>a_initialize\<close>, \<open>a_deposit\<close>, \<open>a_withdraw\<close>, the representation \<open>pool_rep\<close> and the
    refinement of each entry point. \<open>PoolTrace\<close>: the step relation of the deployed contract,
    where other contracts may move the tokens between calls, its reachable states, simulation by
    the abstract pool, and the invariants of the abstract pool: growth, log, solvency.
    \<open>PoolSafety\<close>: the types of the storage slots, what can still abort a call, and the bounds
    of indices and counts. \<open>PoolLiveness\<close>: what a caller can count on up to the token: a pending
    withdrawal survives the calls of others, deposits go through until the tree is full, and a
    deposit changes the root.
  \<^item> \<open>MerkleBinding\<close>: two leaves that climb to one root on one path are equal or show a
    collision, and so are the leaves of two trees with one root. \<open>Circuit\<close>: \<open>merkle.circom\<close> and \<open>withdraw.circom\<close> as the constraints their signals
    satisfy over a field, and what a satisfying assignment says about the tree of the pool.
    \<open>CircuitInstances\<close>: a finite field and an ideal proof system; \<open>CircuitProperties\<close>: contract,
    indexer and circuit together.
  \<^item> \<open>Registry\<close>, \<open>RegistrySpec\<close>: the registry contract, the abstract registry, refinement.
  \<^item> \<open>IndexerMerkle\<close>, \<open>IndexerDb\<close>, \<open>IndexerState\<close>, \<open>IndexerListener\<close>, \<open>IndexerApi\<close>: the files of
    \<open>indexer/src\<close>, with \<open>restart\<close> for the restoring part of \<open>main.rs\<close>. A database write that the
    code spawns as a task is recorded in \<open>st_spawned\<close>. \<open>IndexerTrace\<close>: the step relation in which
    polls, single database statements (which can fail) and restarts (which can be crashes)
    interleave, and the rows of the table as the leaves of the tree. \<open>IndexerChain\<close>: a chain of
    events, the RPC in front of it, and what its polls bring into the tree and the table.
  \<^item> \<open>RpcJson\<close>: what serde reads from the JSON of the RPC, for the listener and for the health check.
  \<^item> \<open>Relayer\<close>, \<open>RelayerTrace\<close>: the files of \<open>relayer/src\<close>; the relay handler whole and as the
    phases between its \<open>await\<close> points, interleaved with those of other requests and possibly
    dropped when a client disconnects.
  \<^item> \<open>Startup\<close>: the two \<open>main.rs\<close>, from the environment to the state the servers start with.
    \<open>IndexerService\<close>: the database connection with its migration, the routes of the indexer, and the
    interleaving of requests with the turns of the listener.
  \<^item> \<open>ClientPrelude\<close>, \<open>ClientJson\<close>: what the client uses of JavaScript: numbers and their text, byte
    arrays, JSON. \<open>ClientCrypto\<close> (\<open>poseidon.ts\<close>, \<open>secrets.ts\<close>), \<open>ClientMerkle\<close> (\<open>merkle.ts\<close>, the
    third tree that provides \<open>merkle_accumulator\<close>), \<open>ClientProver\<close> (\<open>prover.ts\<close>), \<open>ClientWallet\<close>
    (\<open>encryption.ts\<close>, \<open>notestore.ts\<close>), \<open>ClientSdk\<close> (\<open>mixer.ts\<close>, with the life of a wallet as a step
    relation), \<open>ClientWorker\<close> (\<open>worker-prover.ts\<close>, \<open>worker-thread.ts\<close>, as a step relation),
    \<open>ClientRelayer\<close> (\<open>discovery.ts\<close>, and serde's reading of its requests), \<open>VkExport\<close>
    (\<open>export_vk_rust.js\<close>). \<open>ClientBridge\<close>: the client's numbers, tree, inputs and circuit input
    against the contract's; \<open>ClientInstances\<close>: a ring, a host, a hasher and a prover for them.
  \<^item> \<open>Testing\<close>, \<open>PoolTests\<close>, \<open>RegistryTests\<close>, \<open>UnitTests\<close>: the repository's own tests (the two
    \<open>tests.rs\<close> and the test modules inside the sources), each a run on the model, and the proof that
    it passes over every host, or passes unless it exhibits a break of the hash it runs.
    \<open>Benchmark\<close>: what \<open>bench_verifier.rs\<close> computes, against the verifier.
  \<^item> \<open>PoolProperties\<close>, \<open>VerifierProperties\<close>, \<open>RegistryProperties\<close>, \<open>IndexerProperties\<close>,
    \<open>RelayerProperties\<close>, \<open>StartupProperties\<close>, \<open>CircuitProperties\<close>, \<open>PoolSafety\<close>,
    \<open>ClientProperties\<close>, \<open>PoolLiveness\<close>, \<open>PoolTests\<close> and the end of this theory: the properties,
    numbered, with witnesses.

  What the properties show. The pool's entry points implement the abstract pool on every
  branch; no nullifier is used twice as a byte string; the pool pays exactly what a withdrawal
  says and never more than was deposited; the accepted roots are exactly those of the last
  versions of the tree; replaying the events rebuilds the tree, and the paths the indexer
  serves verify against roots the contract accepts; the verifier decides the Groth16 equation
  and a proof is bound to its recipient, relayer and fee; the path the indexer serves for a deposited
  note satisfies the circuit with the inputs of the contract, so that only the verifier decides on
  its withdrawal, and behind a withdrawal stands a deposit the prover can open (given a knowledge
  sound proof system); the storage stays
  well typed and within its bounds, and only outsiders can make a call abort; the registry
  implements its abstract list and changes only with the right signatures; without failures and with
  its cursor written in order, the indexer's restart restores the tree; started in any way, the indexer
  never panics and serves paths that verify; the relayer's pending
  set is exact when no client disconnects; a root the indexer serves is one it lists; the settings of
  the servers take effect as written.
  Nobody but the token can invalidate a pending withdrawal before \<open>root_history_size\<close> deposits have come,
  the tree takes exactly its capacity, and the model passes the tests the repository runs on the code.
  The client's tree is the contract's tree, its note and path satisfy the circuit, its proof encoding is
  the one the contract decodes and its public inputs, where \<open>require\<close> exists, are those it builds; its wallet
  loses no note and restores a backup; a proof made in a worker settles exactly once.

  Where the code does not do what it means to, the theorem says what it does: one note can be
  withdrawn again under an alias of its nullifier hash; the compiled key does not decode, so
  no withdrawal succeeds; a lowered cap is not enforced; the indexer does not recognise the
  contract's events (over every run behind an RPC as in \<open>pool_rpc\<close>, with the topics as it encodes
  them, the service without a database serves no path), misreads their value, skips events beyond a page, shifts its leaves after
  a lost write, doubles them after a crash at the wrong moment, forgets them when a read fails
  at the start until it is started again, and stops for an interval of zero; the relayer's checks race, its pending set
  leaks, it never submits, and it publishes a secret that does not parse; the client cannot build a proof in
  an ES module, which has no \<open>require\<close>, its SDK module imports a function that does not exist, it cannot
  read the path the indexer serves, unmarks spent notes when it restores them, and takes the
  parts of \<open>Fq2\<close> elements in the order that made the compiled key unusable.

  Not modelled. Expiry of ledger entries and fees of the host; Groth16 itself (that a proof can
  only be made with a satisfying assignment is a hypothesis) and the trusted set-up; the
  witness generator of the circuit; HTTP and routing (but for the \<open>GET\<close>
  routes of the indexer and \<open>POST /relay\<close>), timers and logging;
  JSON text on the side of the servers (values are modelled, the parser only for the relay request); in the client, text with code points
  above 255, sequences of bytes that are not such text (read as question marks), fractions in
  JSON, and the loading of modules. \<open>mixer.ts\<close> imports \<open>bigIntToBytes\<close> from a module that does not export it,
  so that an ES module linker refuses it and the index of the package; \<open>ClientSdk\<close> holds its functions as
  they are where an import is looked up when it is used, the missing one being \<open>undefined\<close>. The shell
  scripts hold no logic of the programs, nor do the clock and the prints of the benchmarks; the tests
  of the client, which run in another framework, are not among the modelled tests.

  Plan for extensions: the relayers of the registry as the list the client chooses from, once
  \<open>fetchActiveRelayers\<close> reads the registry.
\<close>

section \<open>Properties that span components\<close>

lemma insert_all_leaves:
  assumes "depth \<noteq> - 1" and "length cs \<le> 2 ^ 32"
  shows "\<exists>t t'. tree_new c depth = Inr t \<and> insert_all (tree_insert_only c) cs t = Inr t' \<and>
    mtree_rep c depth t' cs"
proof -
  obtain t where "tree_new c depth = Inr t" and rep: "mtree_rep c depth t []"
    using tree_new_rep [OF assms(1)] by blast
  moreover obtain t' where "insert_all (tree_insert_only c) cs t = Inr t'" "mtree_rep c depth t' ([] @ cs)"
    using index_tree.insert_all_rep [OF rep, of cs] assms(2) by auto
  ultimately show ?thesis by auto
qed

text \<open>The commitments an observer of the pool reads off its event log.\<close>

definition logged_commitments :: "PoolEvent list \<Rightarrow> bytes32 list" where
  "logged_commitments evs = map fst (deposits_of evs)"

text \<open>(C12) Replaying the events rebuilds the chain's tree: in every reachable state of the pool,
  an indexer that starts empty and inserts the commitments of the published deposit events in
  order ends, without panicking, with the root the contract returns; that root is one the
  contract accepts in a withdrawal.\<close>

theorem event_replay_gives_known_root:
  assumes reach: "pool_reach vk h ext e"
  shows "\<exists>depth t t' r. get_tree_depth e = Inr depth \<and> tree_new h depth = Inr t \<and>
    insert_all (tree_insert_only h) (logged_commitments (published e)) t = Inr t' \<and>
    mt_root t' = Inr r \<and> get_root h e = Inr r \<and> is_known_root r e = Inr True"
proof -
  obtain p l0 where rep: "pool_rep h e p" and a: "a_reach vk h ext l0 p"
    using pool_reach_simulates [OF reach] by blast
  note parts = pool_repD [OF rep]
  have leaves: "logged_commitments (published e) = p_leaves p"
    using a_reach_log [OF a] by (simp add: logged_commitments_def log_ok_def parts(6))
  have "unat (p_depth p) \<le> 32" using parts(1) by (simp add: config_rep_def word_le_nat_alt)
  then have "p_depth p \<noteq> - 1" by (auto simp: unsigned_minus_1_eq_mask mask_eq_exp_minus_1)
  moreover have "length (p_leaves p) \<le> 2 ^ 32" using parts(3) unfolding tree_capacity_def by linarith
  ultimately obtain t t' where t: "tree_new h (p_depth p) = Inr t"
    "insert_all (tree_insert_only h) (p_leaves p) t = Inr t'" "mtree_rep h (p_depth p) t' (p_leaves p)"
    using insert_all_leaves by blast
  let ?r = "tree_root h (unat (p_depth p)) (p_leaves p)"
  have "p_history_size p \<noteq> 0" using parts(4) by (simp add: history_rep_def)
  then have "p_known h p ?r" by (rule current_root_known)
  then have "is_known_root ?r e = Inr True" by (simp add: pool_reads [OF rep])
  then show ?thesis
    using t mt_root_rep [OF t(3)] queries_rep(1) [OF rep] pool_reads(6) [OF rep]
    by (intro exI [of _ "p_depth p"] exI [of _ t] exI [of _ t'] exI [of _ ?r]) (simp add: leaves idx_zero_eq)
qed

lemma event_replay_gives_known_root_witness:
  "\<exists>depth t t' r. get_tree_depth (demo_env demo_host) = Inr depth \<and> tree_new demo_host depth = Inr t \<and>
    insert_all (tree_insert_only demo_host) (logged_commitments (published (demo_env demo_host))) t = Inr t' \<and>
    mt_root t' = Inr r \<and> get_root demo_host (demo_env demo_host) = Inr r \<and> is_known_root r (demo_env demo_host) = Inr True"
  by (rule event_replay_gives_known_root [OF demo_reach [of True _ "\<lambda>_ _. False"]])

end
